(* ===== verification/Vdsm_Prelude.thy ===== *)
theory Vdsm_Prelude
  imports Main
begin

text \<open>
  What the component theories share: results and operations that may raise, the parts of
  Python's bytes and text that the sources use (slicing, searching, stripping, fixed-width
  fields, decimal and hexadecimal numerals), and buffers made of fixed-width slots.

  Bytes are lists of \<open>char\<close> (eight bits each). A Python \<open>str\<close> is also a list of \<open>char\<close>:
  the model covers the code points below 256, which is enough to tell text that the
  \<open>ascii\<close> codec accepts from text that it refuses.
\<close>

named_theorems op_simps \<open>unfolding of operations that read and write a state\<close>
named_theorems field_simps_py \<open>lengths and round trips of fixed-width fields\<close>
named_theorems slot_simps \<open>reading and writing slots of a buffer\<close>

type_synonym bytes = "char list"
type_synonym pystr = "char list"

abbreviation NUL :: char where "NUL \<equiv> CHR 0x00"
abbreviation NL :: char where "NL \<equiv> CHR 0x0A"

subsection \<open>Results and operations\<close>

text \<open>A call that may raise returns \<open>Inl\<close> the exception or \<open>Inr\<close> the value.\<close>

definition rbind :: "'e + 'a \<Rightarrow> ('a \<Rightarrow> 'e + 'b) \<Rightarrow> 'e + 'b" where
  "rbind r f = (case r of Inl e \<Rightarrow> Inl e | Inr a \<Rightarrow> f a)"

definition is_ok :: "'e + 'a \<Rightarrow> bool" where
  "is_ok r \<longleftrightarrow> (case r of Inl _ \<Rightarrow> False | Inr _ \<Rightarrow> True)"

text \<open>An operation on a state keeps what it did before it raised.\<close>

type_synonym ('s, 'e, 'a) op = "'s \<Rightarrow> ('e + 'a) \<times> 's"

definition ret :: "'a \<Rightarrow> ('s, 'e, 'a) op" where
  "ret a = (\<lambda>s. (Inr a, s))"

definition raise :: "'e \<Rightarrow> ('s, 'e, 'a) op" where
  "raise e = (\<lambda>s. (Inl e, s))"

definition obind :: "('s, 'e, 'a) op \<Rightarrow> ('a \<Rightarrow> ('s, 'e, 'b) op) \<Rightarrow> ('s, 'e, 'b) op" where
  "obind m f = (\<lambda>s. case m s of (Inl e, s') \<Rightarrow> (Inl e, s') | (Inr a, s') \<Rightarrow> f a s')"

lemma rbind_simps [simp]:
  "rbind (Inl e) f = Inl e"
  "rbind (Inr a) f = f a"
  by (simp_all add: rbind_def)

lemma rbind_Inr_iff: "rbind r f = Inr b \<longleftrightarrow> (\<exists>a. r = Inr a \<and> f a = Inr b)"
  by (cases r) auto

lemma is_ok_simps [simp]: "is_ok (Inr a)" "\<not> is_ok (Inl e)"
  by (simp_all add: is_ok_def)

lemma is_ok_iff: "is_ok r \<longleftrightarrow> (\<exists>a. r = Inr a)"
  by (cases r) auto

lemma ret_apply [simp]: "ret a s = (Inr a, s)"
  by (simp add: ret_def)

lemma raise_apply [simp]: "raise e s = (Inl e, s)"
  by (simp add: raise_def)

lemma obind_Inr [simp]: "m s = (Inr a, s') \<Longrightarrow> obind m f s = f a s'"
  by (simp add: obind_def)

lemma obind_Inl [simp]: "m s = (Inl e, s') \<Longrightarrow> obind m f s = (Inl e, s')"
  by (simp add: obind_def)

lemma obind_Inr_iff:
  "obind m f s = (Inr b, t) \<longleftrightarrow> (\<exists>a s'. m s = (Inr a, s') \<and> f a s' = (Inr b, t))"
  by (auto simp: obind_def split: prod.splits sum.splits)

lemma obind_inv:
  assumes "P s" and "\<And>s. P s \<Longrightarrow> P (snd (m s))" and "\<And>a s. P s \<Longrightarrow> P (snd (f a s))"
  shows "P (snd (obind m f s))"
proof -
  obtain r s' where m: "m s = (r, s')" by (cases "m s")
  have "P s'" using assms(1,2) m by (metis snd_conv)
  then show ?thesis using m assms(3) by (cases r) (auto simp: obind_def)
qed

subsection \<open>Slices, searching and stripping\<close>

text \<open>
  The slice \<open>xs[a:b]\<close> with non-negative bounds, the first occurrence of a pattern at or after
  a position (\<open>bytes.find\<close>, with \<open>None\<close> for -1), and the overwriting of a range of a
  buffer in place (\<open>mmap.seek\<close>, \<open>mmap.write\<close>), which raises past its end.
\<close>

definition slice :: "nat \<Rightarrow> nat \<Rightarrow> 'a list \<Rightarrow> 'a list" where
  "slice a b xs = take (b - a) (drop a xs)"

fun find_sub :: "'a list \<Rightarrow> 'a list \<Rightarrow> nat option" where
  "find_sub p [] = (if p = [] then Some 0 else None)"
| "find_sub p (x # xs) =
     (if take (length p) (x # xs) = p then Some 0 else map_option Suc (find_sub p xs))"

definition find_from :: "'a list \<Rightarrow> 'a list \<Rightarrow> nat \<Rightarrow> nat option" where
  "find_from xs p start = map_option ((+) start) (find_sub p (drop start xs))"

definition overwrite :: "'a list \<Rightarrow> nat \<Rightarrow> 'a list \<Rightarrow> 'a list" where
  "overwrite xs off d = take off xs @ d @ drop (off + length d) xs"

definition rstrip :: "('a \<Rightarrow> bool) \<Rightarrow> 'a list \<Rightarrow> 'a list" where
  "rstrip p xs = rev (dropWhile p (rev xs))"

definition strip :: "('a \<Rightarrow> bool) \<Rightarrow> 'a list \<Rightarrow> 'a list" where
  "strip p xs = rstrip p (dropWhile p xs)"

lemma length_overwrite [simp]:
  "off + length d \<le> length xs \<Longrightarrow> length (overwrite xs off d) = length xs"
  by (simp add: overwrite_def)

lemma slice_overwrite_same:
  "off + length d \<le> length xs \<Longrightarrow> slice off (off + length d) (overwrite xs off d) = d"
  by (simp add: slice_def overwrite_def)

lemma take_overwrite:
  "n \<le> off \<Longrightarrow> off \<le> length xs \<Longrightarrow> take n (overwrite xs off d) = take n xs"
  by (simp add: overwrite_def min_def)

lemma drop_overwrite:
  assumes "off + length d \<le> n" and "off + length d \<le> length xs"
  shows "drop n (overwrite xs off d) = drop n xs"
  using assms by (simp add: overwrite_def)

lemma nth_overwrite:
  assumes "off + length d \<le> length xs" and "i < length xs"
  shows "overwrite xs off d ! i =
    (if off \<le> i \<and> i < off + length d then d ! (i - off) else xs ! i)"
  using assms by (auto simp: overwrite_def nth_append min_def not_less add.commute)

lemma overwrite_overwrite_same:
  assumes "length d = length d'" and "off + length d \<le> length xs"
  shows "overwrite (overwrite xs off d) off d' = overwrite xs off d'"
  using assms by (simp add: overwrite_def)

lemma overwrite_append_prefix:
  "off + length d \<le> length xs \<Longrightarrow> overwrite (xs @ ys) off d = overwrite xs off d @ ys"
  by (simp add: overwrite_def)

lemma overwrite_append_suffix:
  "overwrite (xs @ ys) (length xs + off) d = xs @ overwrite ys off d"
  by (simp add: overwrite_def)

lemma slice_append_right:
  "slice (length xs + a) (length xs + b) (xs @ ys) = slice a b ys"
  by (simp add: slice_def)

lemma find_sub_None: "find_sub p xs = None \<Longrightarrow> take (length p) (drop i xs) \<noteq> p \<or> p = []"
proof (induction p xs arbitrary: i rule: find_sub.induct)
  case (1 p)
  then show ?case by (auto split: if_splits)
next
  case (2 p x xs)
  then show ?case by (cases i) (auto split: if_splits)
qed

lemma find_sub_Some:
  assumes "find_sub p xs = Some i"
  shows "take (length p) (drop i xs) = p" "\<And>j. j < i \<Longrightarrow> take (length p) (drop j xs) \<noteq> p"
    "i \<le> length xs"
proof -
  have "take (length p) (drop i xs) = p \<and> (\<forall>j<i. take (length p) (drop j xs) \<noteq> p) \<and> i \<le> length xs"
    using assms
  proof (induction p xs arbitrary: i rule: find_sub.induct)
    case (1 p)
    then show ?case by (auto split: if_splits)
  next
    case (2 p x xs)
    show ?case
    proof (cases "take (length p) (x # xs) = p")
      case True
      then show ?thesis using 2 by auto
    next
      case False
      then obtain k where k: "find_sub p xs = Some k" "i = Suc k"
        using 2 by auto
      have IH: "take (length p) (drop k xs) = p \<and> (\<forall>j<k. take (length p) (drop j xs) \<noteq> p)
          \<and> k \<le> length xs"
        using 2 False k by blast
      have "take (length p) (drop j (x # xs)) \<noteq> p" if "j < i" for j
        using that False IH k by (cases j) auto
      then show ?thesis using IH k by simp
    qed
  qed
  then show "take (length p) (drop i xs) = p" "\<And>j. j < i \<Longrightarrow> take (length p) (drop j xs) \<noteq> p"
    "i \<le> length xs"
    by auto
qed

lemma find_sub_eq_Some:
  assumes "p \<noteq> []" and "take (length p) (drop i xs) = p"
    and "\<And>j. j < i \<Longrightarrow> take (length p) (drop j xs) \<noteq> p"
  shows "find_sub p xs = Some i"
proof (cases "find_sub p xs")
  case None
  then show ?thesis using find_sub_None [OF None, of i] assms by blast
next
  case (Some k)
  have "\<not> k < i" using find_sub_Some(1) [OF Some] assms(3) by blast
  moreover have "\<not> i < k" using find_sub_Some(2) [OF Some] assms(2) by blast
  ultimately show ?thesis using Some by simp
qed

lemma find_sub_eq_None:
  assumes "p \<noteq> []" and "\<And>j. take (length p) (drop j xs) \<noteq> p"
  shows "find_sub p xs = None"
  using find_sub_Some(1) assms(2) by (cases "find_sub p xs") blast+

text \<open>The position of the first element that satisfies a predicate.\<close>

fun first_idx :: "('a \<Rightarrow> bool) \<Rightarrow> 'a list \<Rightarrow> nat option" where
  "first_idx P [] = None"
| "first_idx P (x # xs) = (if P x then Some 0 else map_option Suc (first_idx P xs))"

lemma first_idx_None: "first_idx P xs = None \<longleftrightarrow> (\<forall>x \<in> set xs. \<not> P x)"
  by (induction xs) auto

lemma first_idx_Some:
  "first_idx P xs = Some i \<longleftrightarrow> i < length xs \<and> P (xs ! i) \<and> (\<forall>j<i. \<not> P (xs ! j))"
proof (induction xs arbitrary: i)
  case Nil
  then show ?case by simp
next
  case (Cons x xs)
  then show ?case by (cases i) (auto simp: less_Suc_eq_0_disj)
qed

lemma first_idx_unique:
  assumes "i < length xs" and "P (xs ! i)" and "\<And>j. j < length xs \<Longrightarrow> P (xs ! j) \<Longrightarrow> j = i"
  shows "first_idx P xs = Some i"
proof -
  have "\<not> P (xs ! j)" if "j < i" for j
  proof
    assume "P (xs ! j)"
    then have "j = i" using assms(3) [of j] that assms(1) by simp
    then show False using that by simp
  qed
  then show ?thesis using assms(1,2) by (simp add: first_idx_Some)
qed

lemma rstrip_append_all: "(\<forall>y \<in> set ys. p y) \<Longrightarrow> rstrip p (xs @ ys) = rstrip p xs"
  by (simp add: rstrip_def dropWhile_append)

lemma rstrip_id: "xs = [] \<or> \<not> p (last xs) \<Longrightarrow> rstrip p xs = xs"
  by (cases xs rule: rev_cases) (auto simp: rstrip_def)

lemma strip_id:
  assumes "xs = [] \<or> (\<not> p (hd xs) \<and> \<not> p (last xs))"
  shows "strip p xs = xs"
  using assms by (cases xs) (auto simp: strip_def rstrip_id)

subsection \<open>Fixed-width fields\<close>

text \<open>
  The \<open>Ns\<close> format of the \<open>struct\<close> module: the bytes are cut to \<open>n\<close> and filled with NUL.
  Reading such a field strips the NULs on its right (\<open>rstrip(b"\0")\<close>).
\<close>

definition pack_s :: "nat \<Rightarrow> bytes \<Rightarrow> bytes" where
  "pack_s n b = take n b @ replicate (n - length b) NUL"

definition unpack_s :: "bytes \<Rightarrow> bytes" where
  "unpack_s b = rstrip (\<lambda>c. c = NUL) b"

definition ascii :: "char list \<Rightarrow> bool" where
  "ascii s \<longleftrightarrow> (\<forall>c \<in> set s. (of_char c :: nat) < 128)"

text \<open>\<open>s.encode("ascii")\<close> and \<open>b.decode("ascii")\<close>: the same bytes, or None for the exception.\<close>

definition ascii_codec :: "char list \<Rightarrow> char list option" where
  "ascii_codec s = (if ascii s then Some s else None)"

lemma length_pack_s [simp, field_simps_py]: "length (pack_s n b) = n"
  by (simp add: pack_s_def)

lemma pack_s_short: "length b \<le> n \<Longrightarrow> pack_s n b = b @ replicate (n - length b) NUL"
  by (simp add: pack_s_def)

lemma unpack_pack_s [field_simps_py]:
  assumes "length b \<le> n" and "b = [] \<or> last b \<noteq> NUL"
  shows "unpack_s (pack_s n b) = b"
proof -
  have "unpack_s (pack_s n b) = rstrip (\<lambda>c. c = NUL) (b @ replicate (n - length b) NUL)"
    using assms(1) by (simp add: unpack_s_def pack_s_short)
  also have "\<dots> = rstrip (\<lambda>c. c = NUL) b"
    by (rule rstrip_append_all) simp
  also have "\<dots> = b"
    using assms(2) by (intro rstrip_id) auto
  finally show ?thesis .
qed

lemma pack_s_inj:
  assumes "pack_s n a = pack_s n b" and "length a \<le> n" and "length b \<le> n"
    and "NUL \<notin> set a" and "NUL \<notin> set b"
  shows "a = b"
  using assms unpack_pack_s by (metis last_in_set)

lemma ascii_codec_Some [simp]: "ascii s \<Longrightarrow> ascii_codec s = Some s"
  by (simp add: ascii_codec_def)

lemma ascii_Nil [simp]: "ascii []"
  by (simp add: ascii_def)

lemma ascii_Cons [simp]: "ascii (c # s) \<longleftrightarrow> (of_char c :: nat) < 128 \<and> ascii s"
  by (simp add: ascii_def)

subsection \<open>Numerals\<close>

text \<open>
  \<open>"%d"\<close>, \<open>"%0Nd"\<close> and \<open>"%0Nx"\<close> of the \<open>%\<close> operator, and \<open>int(s)\<close>, \<open>int(s, 16)\<close>: white space
  around the number, a sign, for base 16 a \<open>0x\<close> prefix, and single underscores between
  digits are accepted, anything else is a \<open>ValueError\<close> (None).
\<close>

fun to_base :: "nat \<Rightarrow> nat \<Rightarrow> nat list" where
  "to_base b n = (if b < 2 \<or> n < b then [n] else to_base b (n div b) @ [n mod b])"

declare to_base.simps [simp del]

definition digit_char :: "nat \<Rightarrow> char" where
  "digit_char d = char_of (if d < 10 then 48 + d else 87 + d)"

definition show_base :: "nat \<Rightarrow> nat \<Rightarrow> char list" where
  "show_base b n = map digit_char (to_base b n)"

definition zfill :: "nat \<Rightarrow> char list \<Rightarrow> char list" where
  "zfill w s = replicate (w - length s) (CHR ''0'') @ s"

definition fmt_d :: "nat \<Rightarrow> int \<Rightarrow> char list" where
  "fmt_d w n = (if n < 0 then CHR ''-'' # zfill (w - 1) (show_base 10 (nat (- n)))
                else zfill w (show_base 10 (nat n)))"

definition fmt_x :: "nat \<Rightarrow> nat \<Rightarrow> char list" where
  "fmt_x w n = zfill w (show_base 16 n)"

definition py_space :: "char \<Rightarrow> bool" where
  "py_space c \<longleftrightarrow> c = CHR '' '' \<or> (9 \<le> (of_char c :: nat) \<and> (of_char c :: nat) \<le> 13)"

definition digit_val :: "nat \<Rightarrow> char \<Rightarrow> nat option" where
  "digit_val b c =
     (let n = (of_char c :: nat);
          d = (if 48 \<le> n \<and> n \<le> 57 then n - 48
               else if 97 \<le> n \<and> n \<le> 122 then n - 87
               else if 65 \<le> n \<and> n \<le> 90 then n - 55 else 36)
      in if d < b then Some d else None)"

fun read_digits :: "nat \<Rightarrow> nat \<Rightarrow> char list \<Rightarrow> nat option" where
  "read_digits b acc [] = Some acc"
| "read_digits b acc (c # cs) =
     (case digit_val b c of
        Some d \<Rightarrow> read_digits b (acc * b + d) cs
      | None \<Rightarrow>
          if c \<noteq> CHR ''_'' then None
          else (case cs of
                  [] \<Rightarrow> None
                | c' # cs' \<Rightarrow>
                    (case digit_val b c' of
                       Some d \<Rightarrow> read_digits b (acc * b + d) cs'
                     | None \<Rightarrow> None)))"

definition read_nat :: "nat \<Rightarrow> char list \<Rightarrow> nat option" where
  "read_nat b cs =
     (case cs of
        [] \<Rightarrow> None
      | c # cs' \<Rightarrow> (case digit_val b c of Some d \<Rightarrow> read_digits b d cs' | None \<Rightarrow> None))"

definition drop_hex_prefix :: "nat \<Rightarrow> char list \<Rightarrow> char list" where
  "drop_hex_prefix b cs =
     (if b = 16 \<and> (take 2 cs = ''0x'' \<or> take 2 cs = ''0X'')
      then (if take 1 (drop 2 cs) = ''_'' then drop 3 cs else drop 2 cs) else cs)"

definition py_int :: "nat \<Rightarrow> char list \<Rightarrow> int option" where
  "py_int b s =
     (let t = strip py_space s in
      if take 1 t = ''-'' then map_option (\<lambda>n. - int n) (read_nat b (drop_hex_prefix b (drop 1 t)))
      else if take 1 t = ''+'' then map_option int (read_nat b (drop_hex_prefix b (drop 1 t)))
      else map_option int (read_nat b (drop_hex_prefix b t)))"

lemma to_base_digits: "2 \<le> b \<Longrightarrow> \<forall>d \<in> set (to_base b n). d < b"
proof (induction b n rule: to_base.induct)
  case (1 b n)
  then show ?case by (cases "n < b") (auto simp: to_base.simps [of b n])
qed

lemma to_base_not_Nil [simp]: "to_base b n \<noteq> []"
  by (subst to_base.simps) simp

lemma foldl_to_base: "2 \<le> b \<Longrightarrow> foldl (\<lambda>acc d. acc * b + d) 0 (to_base b n) = n"
proof (induction b n rule: to_base.induct)
  case (1 b n)
  then show ?case by (cases "n < b") (auto simp: to_base.simps [of b n])
qed

lemma length_to_base: "2 \<le> b \<Longrightarrow> n < b ^ Suc k \<Longrightarrow> length (to_base b n) \<le> Suc k"
proof (induction k arbitrary: n)
  case 0
  then show ?case by (simp add: to_base.simps)
next
  case (Suc k)
  show ?case
  proof (cases "n < b")
    case True
    then show ?thesis by (simp add: to_base.simps)
  next
    case False
    have "n div b < b ^ Suc k"
      using Suc.prems by (simp add: less_mult_imp_div_less mult.commute)
    then have "length (to_base b (n div b)) \<le> Suc k"
      using Suc by blast
    then show ?thesis using False Suc.prems(1) by (simp add: to_base.simps [of b n])
  qed
qed

lemma digit_val_char:
  assumes "d < b" and "b \<le> 16"
  shows "digit_val b (digit_char d) = Some d"
  using assms by (auto simp: digit_val_def digit_char_def Let_def of_char_of)

lemma digit_char_code: "d < 16 \<Longrightarrow> (of_char (digit_char d) :: nat) = (if d < 10 then 48 + d else 87 + d)"
  by (auto simp: digit_char_def of_char_of)

lemma digit_char_neq:
  assumes "d < 16" and "(of_char c :: nat) \<notin> {48..57} \<union> {97..102}"
  shows "digit_char d \<noteq> c"
  using assms digit_char_code [OF assms(1)] by (auto split: if_splits)

lemma digit_char_not_special [simp]:
  assumes "d < 16"
  shows "digit_char d \<noteq> CHR ''-''" "digit_char d \<noteq> CHR ''+''" "digit_char d \<noteq> CHR ''_''"
    "digit_char d \<noteq> NUL" "digit_char d \<noteq> NL" "digit_char d \<noteq> CHR ''x''" "digit_char d \<noteq> CHR ''X''"
    "digit_char d \<noteq> CHR ''=''" "\<not> py_space (digit_char d)"
  using digit_char_neq [OF assms] digit_char_code [OF assms] by (auto simp: py_space_def)

lemma read_digits_map:
  assumes "b \<le> 16" and "\<forall>d \<in> set ds. d < b"
  shows "read_digits b acc (map digit_char ds) = Some (foldl (\<lambda>acc d. acc * b + d) acc ds)"
  using assms(2) by (induction ds arbitrary: acc) (auto simp: digit_val_char [OF _ assms(1)])

lemma digit_char_0 [simp]: "digit_char 0 = CHR ''0''"
proof -
  have "(of_char (digit_char 0) :: nat) = of_char (CHR ''0'')"
    by (simp add: digit_char_code)
  then show ?thesis by (simp only: of_char_eq_iff)
qed

lemma zfill_digits:
  "zfill w (map digit_char ds) = map digit_char (replicate (w - length ds) 0 @ ds)"
  by (simp add: zfill_def)

lemma foldl_zeros: "foldl (\<lambda>acc d. acc * b + d) (0::nat) (replicate k 0) = 0"
  by (induction k) auto

lemma read_nat_digits:
  assumes "b \<le> 16" and "\<forall>d \<in> set ds. d < b" and "ds \<noteq> []"
  shows "read_nat b (map digit_char ds) = Some (foldl (\<lambda>acc d. acc * b + d) 0 ds)"
  using assms by (cases ds) (auto simp: read_nat_def digit_val_char read_digits_map)

lemma strip_digits:
  assumes "\<forall>d \<in> set ds. d < 16"
  shows "strip py_space (map digit_char ds) = map digit_char ds"
  using assms by (intro strip_id) (auto simp: hd_map last_map)

lemma drop_hex_prefix_digits:
  assumes "\<forall>d \<in> set ds. d < 16"
  shows "drop_hex_prefix b (map digit_char ds) = map digit_char ds"
  using assms
  by (cases ds; cases "tl ds") (auto simp: drop_hex_prefix_def)

lemma py_int_digits:
  assumes "b = 10 \<or> b = 16" and "\<forall>d \<in> set ds. d < b" and "ds \<noteq> []"
  shows "py_int b (map digit_char ds) = Some (int (foldl (\<lambda>acc d. acc * b + d) 0 ds))"
proof -
  have lt: "\<forall>d \<in> set ds. d < 16" using assms(1,2) by auto
  have "take 1 (map digit_char ds) \<noteq> ''-''" "take 1 (map digit_char ds) \<noteq> ''+''"
    using lt assms(3) by (cases ds; auto)+
  then show ?thesis
    using assms lt
    by (auto simp: py_int_def Let_def strip_digits drop_hex_prefix_digits read_nat_digits)
qed

lemma fmt_d_digits:
  assumes "0 \<le> n"
  shows "fmt_d w n = map digit_char (replicate (w - length (to_base 10 (nat n))) 0 @ to_base 10 (nat n))"
  using assms by (simp add: fmt_d_def show_base_def zfill_digits)

lemma fmt_x_digits:
  "fmt_x w n = map digit_char (replicate (w - length (to_base 16 n)) 0 @ to_base 16 n)"
  by (simp add: fmt_x_def show_base_def zfill_digits)

lemma py_int_minus_digits:
  assumes "\<forall>d \<in> set ds. d < 10" and "ds \<noteq> []"
  shows "py_int 10 (CHR ''-'' # map digit_char ds) = Some (- int (foldl (\<lambda>acc d. acc * 10 + d) 0 ds))"
proof -
  have lt: "\<forall>d \<in> set ds. d < 16" using assms(1) by auto
  have "strip py_space (CHR ''-'' # map digit_char ds) = CHR ''-'' # map digit_char ds"
    using lt assms(2) by (intro strip_id) (auto simp: last_map py_space_def [of "CHR ''-''"])
  then show ?thesis
    using assms lt by (simp add: py_int_def drop_hex_prefix_digits read_nat_digits)
qed

lemma py_int_fmt_d [simp, field_simps_py]: "py_int 10 (fmt_d w n) = Some n"
proof (cases "0 \<le> n")
  case True
  then show ?thesis
    using to_base_digits [of 10 "nat n"]
    by (simp add: fmt_d_digits py_int_digits foldl_zeros foldl_to_base ball_Un del: map_append)
next
  case False
  then show ?thesis
    using to_base_digits [of 10 "nat (- n)"]
    by (simp add: fmt_d_def show_base_def zfill_digits py_int_minus_digits foldl_zeros
        foldl_to_base ball_Un del: map_append)
qed

lemma py_int_fmt_x [simp, field_simps_py]: "py_int 16 (fmt_x w n) = Some (int n)"
  using to_base_digits [of 16 n]
  by (simp add: fmt_x_digits py_int_digits foldl_zeros foldl_to_base ball_Un del: map_append)

lemma length_fmt_d [field_simps_py]:
  assumes "0 \<le> n" and "n < 10 ^ w" and "0 < w"
  shows "length (fmt_d w n) = w"
proof -
  obtain k where k: "w = Suc k" using assms(3) by (cases w) auto
  have "nat n < 10 ^ Suc k" using assms k by (simp add: nat_less_iff)
  then have "length (to_base 10 (nat n)) \<le> w" using length_to_base [of 10 "nat n" k] k by simp
  then show ?thesis using assms(1) by (simp add: fmt_d_digits)
qed

lemma length_fmt_x [field_simps_py]:
  assumes "n < 16 ^ w" and "0 < w"
  shows "length (fmt_x w n) = w"
proof -
  obtain k where k: "w = Suc k" using assms(2) by (cases w) auto
  then have "length (to_base 16 n) \<le> w" using length_to_base [of 16 n k] assms(1) by simp
  then show ?thesis by (simp add: fmt_x_digits)
qed

lemma fmt_d_chars:
  assumes "0 \<le> n" and "c \<in> set (fmt_d w n)"
  shows "\<exists>d<10. c = digit_char d"
proof -
  have "c \<in> digit_char ` (set (replicate (w - length (to_base 10 (nat n))) 0) \<union> set (to_base 10 (nat n)))"
    using assms by (simp only: fmt_d_digits set_map set_append)
  then obtain d where "c = digit_char d"
    "d \<in> set (replicate (w - length (to_base 10 (nat n))) 0) \<union> set (to_base 10 (nat n))"
    by blast
  moreover have "\<forall>d \<in> set (replicate (w - length (to_base 10 (nat n))) 0 @ to_base 10 (nat n)). d < 10"
    using to_base_digits [of 10 "nat n"] by auto
  ultimately show ?thesis by auto
qed

lemma fmt_d_not_special:
  assumes "0 \<le> n"
  shows "NUL \<notin> set (fmt_d w n) \<and> NL \<notin> set (fmt_d w n)"
proof -
  have "c \<noteq> NUL \<and> c \<noteq> NL" if c: "c \<in> set (fmt_d w n)" for c
  proof -
    obtain d where "d < 10" "c = digit_char d" using fmt_d_chars [OF assms c] by blast
    then show ?thesis using digit_char_not_special(4,5) [of d] by simp
  qed
  then show ?thesis by blast
qed

subsection \<open>Buffers of fixed-width slots\<close>

text \<open>
  A buffer that holds a header and then records of \<open>w\<close> bytes each: record \<open>i\<close> starts at
  \<open>base + i * w\<close>. Reading and writing in place are reading and updating a list.
\<close>

lemma take_drop_concat:
  assumes "\<forall>x \<in> set xss. length x = w" and "i < length xss"
  shows "take w (drop (i * w) (concat xss)) = xss ! i"
  using assms
proof (induction xss arbitrary: i)
  case Nil
  then show ?case by simp
next
  case (Cons x xss)
  then show ?case by (cases i) auto
qed

lemma length_concat_fixed: "\<forall>x \<in> set xss. length x = w \<Longrightarrow> length (concat xss) = length xss * w"
  by (induction xss) auto

lemma overwrite_concat:
  assumes "\<forall>x \<in> set xss. length x = w" and "i < length xss" and "length d = w"
  shows "overwrite (concat xss) (i * w) d = concat (xss[i := d])"
  using assms
proof (induction xss arbitrary: i)
  case Nil
  then show ?case by simp
next
  case (Cons x xss)
  show ?case
  proof (cases i)
    case 0
    then show ?thesis using Cons.prems by (simp add: overwrite_def)
  next
    case (Suc j)
    then have "overwrite (concat xss) (j * w) d = concat (xss[j := d])"
      using Cons by simp
    moreover have "overwrite (x @ concat xss) (length x + j * w) d = x @ overwrite (concat xss) (j * w) d"
      by (rule overwrite_append_suffix)
    ultimately show ?thesis using Suc Cons.prems by simp
  qed
qed

lemma nth_concat_fixed:
  assumes "\<forall>x \<in> set xss. length x = w" and "k < w" and "i < length xss"
  shows "concat xss ! (i * w + k) = xss ! i ! k"
  using assms
proof (induction xss arbitrary: i)
  case Nil
  then show ?case by simp
next
  case (Cons x xss)
  then show ?case by (cases i) (auto simp: nth_append add.assoc)
qed

text \<open>
  The contract of a fixed-width code: what it encodes has the width and decodes to itself.
  The lemmas about buffers of such codes are proved here once.
\<close>

locale slot_code =
  fixes width :: nat
    and enc :: "'a \<Rightarrow> bytes"
    and dec :: "bytes \<Rightarrow> 'e + 'a"
    and valid :: "'a \<Rightarrow> bool"
  assumes enc_width: "valid x \<Longrightarrow> length (enc x) = width"
    and dec_enc: "valid x \<Longrightarrow> dec (enc x) = Inr x"
begin

definition slots :: "bytes \<Rightarrow> 'a list \<Rightarrow> bytes" where
  "slots hdr xs = hdr @ concat (map enc xs)"

lemma enc_widths: "list_all valid xs \<Longrightarrow> \<forall>b \<in> set (map enc xs). length b = width"
  by (auto simp: list_all_iff enc_width)

lemma length_slots:
  "list_all valid xs \<Longrightarrow> length (slots hdr xs) = length hdr + length xs * width"
  using length_concat_fixed [OF enc_widths] by (simp add: slots_def)

lemma read_slot:
  assumes "list_all valid xs" and "i < length xs"
  shows "slice (length hdr + i * width) (length hdr + i * width + width) (slots hdr xs) = enc (xs ! i)"
proof -
  have "slice (length hdr + i * width) (length hdr + (i * width + width)) (slots hdr xs)
      = slice (i * width) (i * width + width) (concat (map enc xs))"
    unfolding slots_def by (rule slice_append_right)
  then show ?thesis
    using take_drop_concat [OF enc_widths [OF assms(1)], of i] assms(2)
    by (simp add: slice_def add.assoc)
qed

lemma dec_slot:
  assumes "list_all valid xs" and "i < length xs"
  shows "dec (slice (length hdr + i * width) (length hdr + i * width + width) (slots hdr xs)) = Inr (xs ! i)"
  using read_slot [OF assms] dec_enc assms by (simp add: list_all_length)

lemma write_slot:
  assumes "list_all valid xs" and "i < length xs" and "valid x"
  shows "overwrite (slots hdr xs) (length hdr + i * width) (enc x) = slots hdr (xs[i := x])"
proof -
  have "overwrite (slots hdr xs) (length hdr + i * width) (enc x)
      = hdr @ overwrite (concat (map enc xs)) (i * width) (enc x)"
    unfolding slots_def by (rule overwrite_append_suffix)
  also have "overwrite (concat (map enc xs)) (i * width) (enc x) = concat ((map enc xs)[i := enc x])"
    using overwrite_concat [OF enc_widths [OF assms(1)]] assms by (simp add: enc_width)
  finally show ?thesis by (simp add: slots_def map_update)
qed

lemma write_header:
  "length hdr' = length hdr \<Longrightarrow> overwrite (slots hdr xs) 0 hdr' = slots hdr' xs"
  by (simp add: slots_def overwrite_def)

lemma slots_inj:
  assumes "list_all valid xs" and "list_all valid ys" and "length hdr = length hdr'"
    and "length xs = length ys" and "slots hdr xs = slots hdr' ys"
  shows "hdr = hdr'" "xs = ys"
proof -
  show "hdr = hdr'" using assms(3,5) by (simp add: slots_def)
  show "xs = ys"
  proof (rule nth_equalityI)
    fix i assume "i < length xs"
    then show "xs ! i = ys ! i"
      using dec_slot [OF assms(1), of i hdr] dec_slot [OF assms(2), of i hdr'] assms(3-5) by simp
  qed (rule assms(4))
qed

end

end
