(* ===== verification/Xlease_Index.thy ===== *)
theory Xlease_Index
  imports Vdsm_Prelude
begin

text \<open>
  \<^verbatim>\<open>lib/vdsm/storage/xlease.py\<close>, the index of the external leases volume: the storage format of
  its metadata block and of its records, the in-memory \<open>VolumeIndex\<close>, the \<open>ChangeBlock\<close> that
  carries one change to storage, and the direct I/O file both are read from and written to.
\<close>

subsection \<open>Constants and errors\<close>

definition RESERVED_SLOTS :: nat where "RESERVED_SLOTS = 3"
definition METADATA_SIZE :: nat where "METADATA_SIZE = 512"
definition RECORD_BASE :: nat where "RECORD_BASE = METADATA_SIZE"
definition RECORD_SIZE :: nat where "RECORD_SIZE = 64"
definition INDEX_SIZE :: nat where "INDEX_SIZE = 62 * 4096"
definition MAX_RECORDS :: nat where "MAX_RECORDS = (INDEX_SIZE - METADATA_SIZE) div RECORD_SIZE"
definition INDEX_VERSION :: int where "INDEX_VERSION = 1"
definition INDEX_MAGIC :: int where "INDEX_MAGIC = 0x12152016"
definition RECORD_TERM :: char where "RECORD_TERM = NL"
definition FLAG_NONE :: char where "FLAG_NONE = CHR ''-''"
definition FLAG_UPDATING :: char where "FLAG_UPDATING = CHR ''u''"
definition SANLK_LEADER_MAGIC :: int where "SANLK_LEADER_MAGIC = -223"

lemmas xlease_consts = RESERVED_SLOTS_def METADATA_SIZE_def RECORD_BASE_def RECORD_SIZE_def
  INDEX_SIZE_def MAX_RECORDS_def

lemmas xlease_flags = RECORD_TERM_def FLAG_NONE_def FLAG_UPDATING_def

text \<open>
  The exceptions of the module and the ones the calls it makes raise. The reasons name the
  check that failed; the formatted values of the messages are left out.
\<close>

datatype meta_reason =
    CannotUnpack | InvalidMagic | InvalidVersion | UnsupportedVersion
  | CannotDecode | CannotParse

datatype index_metadata = IndexMetadata
  (md_version: int) (md_lockspace: pystr) (md_mtime: int) (md_updating: bool)

datatype xlease_error =
    LeaseExists pystr
  | LeaseUpdating pystr
  | NoSpace pystr
  | NoSuchLease pystr
  | InvalidRecord meta_reason bytes
  | NoSuchResource nat
  | IndexIsUpdating index_metadata
  | InvalidMetadata meta_reason bytes
  | TruncatedIndex nat nat
  | OSError
  | SanlockException int
  | UnicodeEncodeError
  | UnicodeDecodeError
  | ValueError
  | IndexError

subsection \<open>The metadata block\<close>

text \<open>The \<open>>i\<close> format: four bytes, most significant first, two's complement.\<close>

definition pack_i :: "int \<Rightarrow> bytes" where
  "pack_i n = map (\<lambda>k. char_of (nat (n div 2 ^ k mod 256))) [24, 16, 8, 0]"

definition unpack_i :: "bytes \<Rightarrow> int" where
  "unpack_i b =
     (let n = foldl (\<lambda>acc c. acc * 256 + int (of_char c)) 0 b
      in if n < 2 ^ 31 then n else n - 2 ^ 32)"

text \<open>
  \<open>META_STRUCT = ">i x 4s x 48s x 10s x c 440x c"\<close>. Formatting can only fail on a lockspace
  outside ASCII; numbers that are too wide are cut by the \<open>s\<close> fields.
\<close>

definition metadata_bytes :: "index_metadata \<Rightarrow> xlease_error + bytes" where
  "metadata_bytes m =
     (case ascii_codec (md_lockspace m) of
        None \<Rightarrow> Inl UnicodeEncodeError
      | Some lockspace \<Rightarrow>
          Inr (pack_i INDEX_MAGIC @ [NUL] @ pack_s 4 (fmt_d 4 (md_version m)) @ [NUL] @
               pack_s 48 lockspace @ [NUL] @ pack_s 10 (fmt_d 10 (md_mtime m)) @ [NUL] @
               [if md_updating m then FLAG_UPDATING else FLAG_NONE] @ replicate 440 NUL @
               [RECORD_TERM]))"

definition metadata_frombytes :: "bytes \<Rightarrow> xlease_error + index_metadata" where
  "metadata_frombytes data =
     (if length data \<noteq> METADATA_SIZE then Inl (InvalidMetadata CannotUnpack data)
      else if unpack_i (slice 0 4 data) \<noteq> INDEX_MAGIC then Inl (InvalidMetadata InvalidMagic data)
      else case py_int 10 (slice 5 9 data) of
             None \<Rightarrow> Inl (InvalidMetadata InvalidVersion data)
           | Some version \<Rightarrow>
               if version \<noteq> INDEX_VERSION then Inl (InvalidMetadata UnsupportedVersion data)
               else case ascii_codec (unpack_s (slice 10 58 data)) of
                      None \<Rightarrow> Inl (InvalidMetadata CannotDecode data)
                    | Some lockspace \<Rightarrow>
                        (case py_int 10 (slice 59 69 data) of
                           None \<Rightarrow> Inl (InvalidMetadata CannotParse data)
                         | Some mtime \<Rightarrow>
                             Inr (IndexMetadata version lockspace mtime
                                    (data ! 70 = FLAG_UPDATING))))"

subsection \<open>Records\<close>

datatype lease_record = Record (rec_resource: pystr) (rec_offset: int) (rec_updating: bool)

definition EMPTY_RECORD :: lease_record where
  "EMPTY_RECORD = Record [] 0 False"

text \<open>\<open>RECORD_STRUCT = "48s x 11s x 3c"\<close> and \<open>LOOKUP_STRUCT = "48s x"\<close>.\<close>

definition record_bytes :: "lease_record \<Rightarrow> xlease_error + bytes" where
  "record_bytes r =
     (case ascii_codec (rec_resource r) of
        None \<Rightarrow> Inl UnicodeEncodeError
      | Some res \<Rightarrow>
          Inr (pack_s 48 res @ [NUL] @ pack_s 11 (fmt_d 11 (rec_offset r)) @ [NUL] @
               [if rec_updating r then FLAG_UPDATING else FLAG_NONE, FLAG_NONE, RECORD_TERM]))"

definition record_frombytes :: "bytes \<Rightarrow> xlease_error + lease_record" where
  "record_frombytes data =
     (if length data \<noteq> RECORD_SIZE then Inl (InvalidRecord CannotUnpack data)
      else case ascii_codec (unpack_s (slice 0 48 data)) of
             None \<Rightarrow> Inl (InvalidRecord CannotDecode data)
           | Some res \<Rightarrow>
               (case py_int 10 (slice 49 60 data) of
                  None \<Rightarrow> Inl (InvalidRecord CannotParse data)
                | Some off \<Rightarrow> Inr (Record res off (data ! 61 = FLAG_UPDATING))))"

definition lookup_prefix :: "pystr \<Rightarrow> xlease_error + bytes" where
  "lookup_prefix lease_id =
     (case ascii_codec lease_id of
        None \<Rightarrow> Inl UnicodeEncodeError
      | Some b \<Rightarrow> Inr (pack_s 48 b @ [NUL]))"

definition lease_offset :: "nat \<Rightarrow> nat \<Rightarrow> nat" where
  "lease_offset recnum alignment = (RESERVED_SLOTS + recnum) * alignment"

subsection \<open>Files\<close>

text \<open>
  \<open>DirectFile\<close>: the bytes on storage, and what the next write and \<open>fsync\<close> calls will do, one
  entry each: None raises OSError, \<open>Some k\<close> accepts at most \<open>k + 1\<close> bytes. A schedule that has
  run out means calls that complete.
\<close>

record leases_file =
  fname :: pystr
  content :: bytes
  wsched :: "nat option list"

definition file_size :: "leases_file \<Rightarrow> nat" where
  "file_size f = length (content f)"

text \<open>
  The read loop fills the buffer until it is full or the file ends. The argument \<open>short\<close> gives
  the sizes \<open>readinto\<close> returns: any amount from one byte to all that is left.
\<close>

function pread_loop :: "(nat \<Rightarrow> nat) \<Rightarrow> bytes \<Rightarrow> nat \<Rightarrow> nat \<Rightarrow> bytes \<Rightarrow> bytes \<times> nat" where
  "pread_loop short c off pos buf =
     (let avail = drop (off + pos) c;
          nread = min (max 1 (short pos)) (min (length buf - pos) (length avail))
      in if pos < length buf \<and> nread \<noteq> 0
         then pread_loop short c off (pos + nread) (overwrite buf pos (take nread avail))
         else (buf, pos))"
  by pat_completeness auto
termination
  by (relation "measure (\<lambda>(short, c, off, pos, buf). length c - (off + pos))") (auto simp: Let_def)

declare pread_loop.simps [simp del]

definition pread :: "(nat \<Rightarrow> nat) \<Rightarrow> leases_file \<Rightarrow> nat \<Rightarrow> bytes \<Rightarrow> bytes \<times> nat" where
  "pread short f off buf = pread_loop short (content f) off 0 buf"

text \<open>A write past the end of the file leaves a hole of zeros before it.\<close>

definition put_bytes :: "bytes \<Rightarrow> nat \<Rightarrow> bytes \<Rightarrow> bytes" where
  "put_bytes c off d = overwrite (c @ replicate (off - length c) NUL) off d"

definition next_call :: "leases_file \<Rightarrow> nat option \<times> leases_file" where
  "next_call f =
     (case wsched f of
        [] \<Rightarrow> (Some INDEX_SIZE, f)
      | r # rs \<Rightarrow> (r, f\<lparr>wsched := rs\<rparr>))"

function pwrite_loop :: "nat \<Rightarrow> nat \<Rightarrow> bytes \<Rightarrow> (leases_file, xlease_error, unit) op" where
  "pwrite_loop off pos buf f =
     (if pos < length buf then
        (case next_call f of
           (None, f') \<Rightarrow> (Inl OSError, f')
         | (Some k, f') \<Rightarrow>
             let n = min (Suc k) (length buf - pos)
             in pwrite_loop off (pos + n) buf
                  (f'\<lparr>content := put_bytes (content f') (off + pos) (take n (drop pos buf))\<rparr>))
      else
        (case next_call f of
           (None, f') \<Rightarrow> (Inl OSError, f')
         | (Some _, f') \<Rightarrow> (Inr (), f')))"
  by pat_completeness auto
termination
  by (relation "measure (\<lambda>(off, pos, buf, f). length buf - pos)") auto

declare pwrite_loop.simps [simp del]

definition pwrite :: "nat \<Rightarrow> bytes \<Rightarrow> (leases_file, xlease_error, unit) op" where
  "pwrite off buf = pwrite_loop off 0 buf"

subsection \<open>The index\<close>

record volume_index =
  ix_offset :: nat
  ix_block_size :: nat
  ix_buf :: bytes

definition new_index :: "nat \<Rightarrow> nat \<Rightarrow> volume_index" where
  "new_index off bs = \<lparr>ix_offset = off, ix_block_size = bs, ix_buf = replicate INDEX_SIZE NUL\<rparr>"

definition record_offset :: "nat \<Rightarrow> nat" where
  "record_offset recnum = RECORD_BASE + recnum * RECORD_SIZE"

definition record_number :: "nat \<Rightarrow> nat" where
  "record_number off = (off - RECORD_BASE) div RECORD_SIZE"

text \<open>The record number, or None where the code returns -1.\<close>

definition find_record :: "volume_index \<Rightarrow> pystr \<Rightarrow> xlease_error + nat option" where
  "find_record ix lease_id =
     rbind (lookup_prefix lease_id) (\<lambda>prefix.
       Inr (map_option record_number (find_from (ix_buf ix) prefix RECORD_BASE)))"

definition find_free_record :: "volume_index \<Rightarrow> xlease_error + nat option" where
  "find_free_record ix =
     rbind (record_bytes EMPTY_RECORD) (\<lambda>b.
       Inr (map_option record_number (find_from (ix_buf ix) b RECORD_BASE)))"

definition read_record :: "volume_index \<Rightarrow> nat \<Rightarrow> xlease_error + lease_record" where
  "read_record ix recnum =
     (let off = record_offset recnum
      in if length (ix_buf ix) < off then Inl ValueError
         else record_frombytes (slice off (off + RECORD_SIZE) (ix_buf ix)))"

text \<open>Writing into a mapped buffer raises ValueError when the data does not fit.\<close>

definition buf_write :: "bytes \<Rightarrow> nat \<Rightarrow> bytes \<Rightarrow> xlease_error + bytes" where
  "buf_write buf off d =
     (if length buf < off + length d then Inl ValueError else Inr (overwrite buf off d))"

definition write_record :: "nat \<Rightarrow> lease_record \<Rightarrow> volume_index \<Rightarrow> xlease_error + volume_index" where
  "write_record recnum r ix =
     (if length (ix_buf ix) < record_offset recnum then Inl ValueError
      else rbind (record_bytes r) (\<lambda>b.
             rbind (buf_write (ix_buf ix) (record_offset recnum) b) (\<lambda>buf.
               Inr (ix\<lparr>ix_buf := buf\<rparr>))))"

definition read_metadata :: "volume_index \<Rightarrow> xlease_error + index_metadata" where
  "read_metadata ix = metadata_frombytes (slice 0 METADATA_SIZE (ix_buf ix))"

definition write_metadata :: "index_metadata \<Rightarrow> volume_index \<Rightarrow> xlease_error + volume_index" where
  "write_metadata m ix =
     rbind (metadata_bytes m) (\<lambda>b.
       rbind (buf_write (ix_buf ix) 0 b) (\<lambda>buf. Inr (ix\<lparr>ix_buf := buf\<rparr>)))"

definition index_load :: "(nat \<Rightarrow> nat) \<Rightarrow> leases_file \<Rightarrow> volume_index \<Rightarrow> xlease_error + volume_index" where
  "index_load short f ix =
     (let (buf, nread) = pread short f (ix_offset ix) (ix_buf ix)
      in if nread < length (ix_buf ix) then Inl (TruncatedIndex (length (ix_buf ix)) nread)
         else Inr (ix\<lparr>ix_buf := buf\<rparr>))"

definition index_dump :: "volume_index \<Rightarrow> (leases_file, xlease_error, unit) op" where
  "index_dump ix = pwrite (ix_offset ix) (ix_buf ix)"

subsection \<open>Change blocks\<close>

record change_block =
  cb_index_offset :: nat
  cb_offset :: nat
  cb_size :: nat
  cb_buf :: bytes

text \<open>Copying a block that reaches past the index buffer fails in the slice assignment.\<close>

definition new_block :: "nat \<Rightarrow> bytes \<Rightarrow> nat \<Rightarrow> nat \<Rightarrow> xlease_error + change_block" where
  "new_block index_offset index_buf off sz =
     (if length (slice off (off + sz) index_buf) \<noteq> sz then Inl IndexError
      else Inr \<lparr>cb_index_offset = index_offset, cb_offset = off, cb_size = sz,
                cb_buf = slice off (off + sz) index_buf\<rparr>)"

definition copy_record_block :: "volume_index \<Rightarrow> nat \<Rightarrow> xlease_error + change_block" where
  "copy_record_block ix recnum =
     (let off = record_offset recnum;
          block_start = off - (off mod ix_block_size ix)
      in new_block (ix_offset ix) (ix_buf ix) block_start (ix_block_size ix))"

definition block_record_offset :: "change_block \<Rightarrow> nat \<Rightarrow> xlease_error + nat" where
  "block_record_offset cb recnum =
     (let off = int (RECORD_BASE + recnum * RECORD_SIZE) - int (cb_offset cb);
          last_offset = int (cb_size cb) - int RECORD_SIZE
      in if 0 \<le> off \<and> off \<le> last_offset then Inr (nat off) else Inl ValueError)"

definition block_write_record :: "nat \<Rightarrow> lease_record \<Rightarrow> change_block \<Rightarrow> xlease_error + change_block" where
  "block_write_record recnum r cb =
     rbind (block_record_offset cb recnum) (\<lambda>off.
       rbind (record_bytes r) (\<lambda>b.
         rbind (buf_write (cb_buf cb) off b) (\<lambda>buf. Inr (cb\<lparr>cb_buf := buf\<rparr>))))"

definition block_dump :: "change_block \<Rightarrow> (leases_file, xlease_error, unit) op" where
  "block_dump cb = pwrite (cb_index_offset cb + cb_offset cb) (cb_buf cb)"

subsection \<open>Reading and writing files\<close>

lemma overwrite_take_step:
  assumes "off \<le> length c" and "pos + n \<le> length buf"
  shows "put_bytes (overwrite c off (take pos buf)) (off + pos) (take n (drop pos buf))
    = overwrite c off (take (pos + n) buf)"
proof -
  have "length (take pos buf) = pos" using assms(2) by simp
  moreover have "off + pos \<le> length (overwrite c off (take pos buf))"
    using assms by (simp add: overwrite_def)
  ultimately show ?thesis
    using assms by (simp add: put_bytes_def overwrite_def take_add add.assoc add.commute [of n])
qed

lemma next_call_frame:
  "next_call f = (r, f') \<Longrightarrow> content f' = content f \<and> fname f' = fname f"
  by (auto simp: next_call_def split: list.splits)

lemma pwrite_loop_spec:
  assumes "off \<le> length c" and "pos \<le> length buf" and "content f = overwrite c off (take pos buf)"
    and "pwrite_loop off pos buf f = (r, f')"
  shows "fname f' = fname f \<and>
    (case r of Inr _ \<Rightarrow> content f' = overwrite c off buf
     | Inl e \<Rightarrow> e = OSError \<and> (\<exists>n \<le> length buf. content f' = overwrite c off (take n buf)))"
  using assms
proof (induction off pos buf f arbitrary: r f' rule: pwrite_loop.induct)
  case (1 off pos buf f)
  obtain q g where g: "next_call f = (q, g)" by (cases "next_call f")
  have frame: "content g = content f" "fname g = fname f" using next_call_frame [OF g] by auto
  note unf = 1(5) [unfolded pwrite_loop.simps [of off pos buf f]]
  show ?case
  proof (cases "pos < length buf")
    case False
    then show ?thesis
      using unf g frame 1(3,4) by (auto split: option.splits intro!: exI [of _ "length buf"])
  next
    case True
    show ?thesis
    proof (cases q)
      case None
      then have "r = Inl OSError" "f' = g" using unf g True by auto
      then show ?thesis using frame 1(3,4) by auto
    next
      case (Some k)
      define n where "n = min (Suc k) (length buf - pos)"
      define h where "h = g\<lparr>content := put_bytes (content g) (off + pos) (take n (drop pos buf))\<rparr>"
      have call: "pwrite_loop off (pos + n) buf h = (r, f')"
        using unf g True Some by (simp add: n_def h_def Let_def)
      have "content h = overwrite c off (take (pos + n) buf)"
        using 1(2-4) frame True by (simp add: h_def n_def overwrite_take_step)
      moreover have "fname h = fname f" using frame by (simp add: h_def)
      moreover have "pos + n \<le> length buf" using True by (simp add: n_def)
      ultimately show ?thesis
        using 1(1) [OF True g [symmetric] Some n_def, folded h_def, OF 1(2) _ _ call] by simp
    qed
  qed
qed

lemma pwrite_spec:
  assumes "off \<le> length (content f)" and "pwrite off buf f = (r, f')"
  shows "fname f' = fname f \<and>
    (case r of Inr _ \<Rightarrow> content f' = overwrite (content f) off buf
     | Inl e \<Rightarrow> e = OSError \<and> (\<exists>n \<le> length buf. content f' = overwrite (content f) off (take n buf)))"
  using pwrite_loop_spec [of off "content f" 0 buf f r f'] assms
  by (simp add: pwrite_def overwrite_def)

lemma pwrite_loop_completes:
  "wsched f = [] \<Longrightarrow> \<exists>f'. pwrite_loop off pos buf f = (Inr (), f') \<and> wsched f' = []"
proof (induction off pos buf f rule: pwrite_loop.induct)
  case (1 off pos buf f)
  have g: "next_call f = (Some INDEX_SIZE, f)" using 1(2) by (simp add: next_call_def)
  show ?case
  proof (cases "pos < length buf")
    case True
    define n where "n = min (Suc INDEX_SIZE) (length buf - pos)"
    define h where "h = f\<lparr>content := put_bytes (content f) (off + pos) (take n (drop pos buf))\<rparr>"
    have "pwrite_loop off pos buf f = pwrite_loop off (pos + n) buf h"
      by (subst pwrite_loop.simps) (simp add: True g Let_def n_def h_def)
    moreover have "wsched h = []" using 1(2) by (simp add: h_def)
    ultimately show ?thesis
      using 1(1) [OF True g [symmetric] refl n_def, folded h_def] by simp
  next
    case False
    then have "pwrite_loop off pos buf f = (Inr (), f)"
      by (subst pwrite_loop.simps) (simp add: g)
    then show ?thesis using 1(2) by simp
  qed
qed

lemma pwrite_ok:
  assumes "wsched f = []" and "off \<le> length (content f)"
  shows "pwrite off buf f = (Inr (), f\<lparr>content := overwrite (content f) off buf\<rparr>)"
proof -
  obtain f' where f': "pwrite off buf f = (Inr (), f')" "wsched f' = []"
    using pwrite_loop_completes [OF assms(1), of off 0 buf] by (auto simp: pwrite_def)
  have "fname f' = fname f" "content f' = overwrite (content f) off buf"
    using pwrite_spec [OF assms(2) f'(1)] by auto
  then have "f' = f\<lparr>content := overwrite (content f) off buf\<rparr>"
    using f'(2) assms(1) by (cases f; cases f') simp
  then show ?thesis using f'(1) by simp
qed

lemma pread_loop_spec:
  assumes "pos \<le> length buf" and "off + pos \<le> length c"
    and "take pos buf = take pos (drop off c)"
  shows "pread_loop short c off pos buf =
    (let d = take (length buf) (drop off c) in (overwrite buf 0 d, length d))"
  using assms
proof (induction short c off pos buf rule: pread_loop.induct)
  case (1 short c off pos buf)
  define nread where "nread = min (max 1 (short pos)) (min (length buf - pos) (length (drop (off + pos) c)))"
  define d where "d = take (length buf) (drop off c)"
  note unf = pread_loop.simps [of short c off pos buf, unfolded Let_def, folded nread_def]
  show ?case
  proof (cases "pos < length buf \<and> nread \<noteq> 0")
    case True
    define b where "b = overwrite buf pos (take nread (drop (off + pos) c))"
    have le: "pos + nread \<le> length buf" "off + (pos + nread) \<le> length c"
      using True 1(3) by (auto simp: nread_def)
    have lb: "length b = length buf" using le by (simp add: b_def)
    have "take (pos + nread) b = take pos buf @ take nread (drop (off + pos) c)"
      using le by (simp add: b_def overwrite_def)
    also have "\<dots> = take (pos + nread) (drop off c)"
      using 1(4) by (simp add: take_add add.commute [of off pos])
    finally have tk: "take (pos + nread) b = take (pos + nread) (drop off c)" .
    have eq: "overwrite b 0 d = overwrite buf 0 d"
    proof -
      have "drop (length d) b = drop (length d) buf"
        using le 1(2,3) by (simp add: b_def d_def drop_overwrite)
      then show ?thesis by (simp add: overwrite_def)
    qed
    have "pread_loop short c off (pos + nread) b = (overwrite b 0 d, length d)"
      using 1(1) [OF refl nread_def True, folded b_def] le lb tk by (simp add: d_def Let_def)
    then show ?thesis using unf True eq by (simp add: b_def d_def Let_def)
  next
    case False
    then have "pread_loop short c off pos buf = (buf, pos)" using unf by auto
    moreover have "pos = length buf \<or> off + pos = length c"
      using False 1(2,3) by (auto simp: nread_def)
    ultimately show ?thesis
      using 1(2-4) append_take_drop_id [of pos buf]
      by (auto simp: overwrite_def Let_def) (metis add_diff_cancel_left')
  qed
qed

lemma pread_spec:
  assumes "off \<le> length (content f)"
  shows "pread short f off buf =
    (let d = take (length buf) (drop off (content f)) in (overwrite buf 0 d, length d))"
  using assms by (simp add: pread_def pread_loop_spec)

subsection \<open>Round trips\<close>

definition valid_id :: "pystr \<Rightarrow> bool" where
  "valid_id s \<longleftrightarrow> ascii s \<and> length s \<le> 48 \<and> NUL \<notin> set s \<and> NL \<notin> set s"

definition valid_record :: "lease_record \<Rightarrow> bool" where
  "valid_record r \<longleftrightarrow> valid_id (rec_resource r) \<and> 0 \<le> rec_offset r \<and> rec_offset r < 10 ^ 11"

definition valid_metadata :: "index_metadata \<Rightarrow> bool" where
  "valid_metadata m \<longleftrightarrow> md_version m = INDEX_VERSION \<and> valid_id (md_lockspace m) \<and>
     0 \<le> md_mtime m \<and> md_mtime m < 10 ^ 10"

text \<open>The bytes of a record or of a metadata block whose text the codec accepts.\<close>

definition record_image :: "lease_record \<Rightarrow> bytes" where
  "record_image r = (case record_bytes r of Inr b \<Rightarrow> b | Inl _ \<Rightarrow> [])"

definition metadata_image :: "index_metadata \<Rightarrow> bytes" where
  "metadata_image m = (case metadata_bytes m of Inr b \<Rightarrow> b | Inl _ \<Rightarrow> [])"

lemma valid_idD:
  assumes "valid_id s"
  shows "ascii s" "length s \<le> 48" "NUL \<notin> set s" "NL \<notin> set s"
  using assms by (simp_all add: valid_id_def)

lemma unpack_valid_id [simp]: "valid_id s \<Longrightarrow> unpack_s (pack_s 48 s) = s"
  by (metis unpack_pack_s last_in_set valid_id_def)

lemma record_image_eq:
  assumes "valid_record r"
  shows "record_image r =
    pack_s 48 (rec_resource r) @ [NUL] @ fmt_d 11 (rec_offset r) @ [NUL] @
    [if rec_updating r then FLAG_UPDATING else FLAG_NONE, FLAG_NONE, RECORD_TERM]"
  using assms length_fmt_d [of "rec_offset r" 11]
  by (simp add: record_image_def record_bytes_def valid_record_def valid_id_def pack_s_def)

lemma record_bytes_valid: "valid_record r \<Longrightarrow> record_bytes r = Inr (record_image r)"
  by (simp add: record_image_def record_bytes_def valid_record_def valid_id_def)

lemma length_record_image: "valid_record r \<Longrightarrow> length (record_image r) = RECORD_SIZE"
  using length_fmt_d [of "rec_offset r" 11]
  by (simp add: record_image_eq valid_record_def RECORD_SIZE_def)

lemma record_fields:
  assumes "valid_record r"
  shows "slice 0 48 (record_image r) = pack_s 48 (rec_resource r)"
    "slice 49 60 (record_image r) = fmt_d 11 (rec_offset r)"
    "record_image r ! 61 = (if rec_updating r then FLAG_UPDATING else FLAG_NONE)"
proof -
  have len: "length (fmt_d 11 (rec_offset r)) = 11"
    using length_fmt_d [of "rec_offset r" 11] assms by (simp add: valid_record_def)
  show "slice 0 48 (record_image r) = pack_s 48 (rec_resource r)"
    "slice 49 60 (record_image r) = fmt_d 11 (rec_offset r)"
    "record_image r ! 61 = (if rec_updating r then FLAG_UPDATING else FLAG_NONE)"
    using len by (simp_all add: record_image_eq [OF assms] slice_def nth_append)
qed

lemma record_roundtrip_aux:
  assumes "valid_record r"
  shows "record_frombytes (record_image r) = Inr r"
proof -
  have "valid_id (rec_resource r)" using assms by (simp add: valid_record_def)
  then show ?thesis
    using assms
    by (cases r) (simp add: record_frombytes_def length_record_image record_fields xlease_flags
        valid_idD)
qed

interpretation rec: slot_code RECORD_SIZE record_image record_frombytes valid_record
  by unfold_locales (simp_all add: length_record_image record_roundtrip_aux)

lemma unpack_i_magic [simp]: "unpack_i (pack_i INDEX_MAGIC) = INDEX_MAGIC"
  by (simp add: unpack_i_def pack_i_def INDEX_MAGIC_def of_char_of)

lemma length_pack_i [simp]: "length (pack_i n) = 4"
  by (simp add: pack_i_def)

lemma metadata_image_eq:
  assumes "valid_metadata m"
  shows "metadata_image m = pack_i INDEX_MAGIC @ [NUL] @ fmt_d 4 (md_version m) @ [NUL] @
    pack_s 48 (md_lockspace m) @ [NUL] @ fmt_d 10 (md_mtime m) @ [NUL] @
    [if md_updating m then FLAG_UPDATING else FLAG_NONE] @ replicate 440 NUL @ [RECORD_TERM]"
  using assms length_fmt_d [of "md_mtime m" 10] length_fmt_d [of "1" 4]
  by (simp add: metadata_image_def metadata_bytes_def valid_metadata_def valid_id_def pack_s_def
      INDEX_VERSION_def)

lemma metadata_bytes_valid: "valid_metadata m \<Longrightarrow> metadata_bytes m = Inr (metadata_image m)"
  by (simp add: metadata_image_def metadata_bytes_def valid_metadata_def valid_id_def)

lemma metadata_lengths:
  assumes "valid_metadata m"
  shows "length (fmt_d 4 (md_version m)) = 4" "length (fmt_d 10 (md_mtime m)) = 10"
  using assms length_fmt_d [of "md_mtime m" 10] length_fmt_d [of "md_version m" 4]
  by (simp_all add: valid_metadata_def INDEX_VERSION_def)

lemma length_metadata_image: "valid_metadata m \<Longrightarrow> length (metadata_image m) = METADATA_SIZE"
  by (simp add: metadata_image_eq metadata_lengths METADATA_SIZE_def)

lemma metadata_fields:
  assumes "valid_metadata m"
  shows "slice 0 4 (metadata_image m) = pack_i INDEX_MAGIC"
    "slice 5 9 (metadata_image m) = fmt_d 4 (md_version m)"
    "slice 10 58 (metadata_image m) = pack_s 48 (md_lockspace m)"
    "slice 59 69 (metadata_image m) = fmt_d 10 (md_mtime m)"
    "metadata_image m ! 70 = (if md_updating m then FLAG_UPDATING else FLAG_NONE)"
  using metadata_lengths [OF assms]
  by (simp_all add: metadata_image_eq [OF assms] slice_def nth_append)

lemma metadata_roundtrip_aux:
  assumes "valid_metadata m"
  shows "metadata_frombytes (metadata_image m) = Inr m"
proof -
  have "valid_id (md_lockspace m)" using assms by (simp add: valid_metadata_def)
  moreover have "md_version m = INDEX_VERSION" using assms by (simp add: valid_metadata_def)
  ultimately show ?thesis
    using assms
    by (cases m) (simp add: metadata_frombytes_def length_metadata_image metadata_fields xlease_flags
        valid_idD)
qed

end
