(* ===== verification/Xlease_Search.thy ===== *)
theory Xlease_Search
  imports Xlease_Index
begin

text \<open>
  The index of \<^verbatim>\<open>xlease.py\<close> as a list of records: the byte searches of \<open>find_record\<close> and
  \<open>find_free_record\<close> find whole records, and on a well-formed buffer every operation of
  \<open>VolumeIndex\<close> reads or updates the list.
\<close>

subsection \<open>Searching the index\<close>

text \<open>
  The search is a byte search, so a match may start anywhere in a record. In an area of valid
  records it can only start at a record: behind the padding byte that ends a name comes a
  digit, behind the one that ends the offset a flag, and every record ends in a newline.
\<close>

definition prefix_of :: "pystr \<Rightarrow> bytes" where
  "prefix_of s = pack_s 48 s @ [NUL]"

lemma length_prefix_of [simp]: "length (prefix_of s) = 49"
  by (simp add: prefix_of_def)

lemma prefix_of_nth: "k < 49 \<Longrightarrow> valid_id s \<Longrightarrow> prefix_of s ! k = (if k < length s then s ! k else NUL)"
  by (auto simp: prefix_of_def valid_id_def pack_s_short nth_append)

lemma prefix_of_NUL_tail:
  assumes "valid_id s" and "prefix_of s ! k = NUL" and "k \<le> k'" and "k' < 49"
  shows "prefix_of s ! k' = NUL"
proof -
  have "\<not> k < length s"
  proof
    assume "k < length s"
    then have "s ! k = NUL" using assms prefix_of_nth [of k s] by simp
    then show False using \<open>k < length s\<close> valid_idD(3) [OF assms(1)] nth_mem by metis
  qed
  then show ?thesis using assms prefix_of_nth [of k' s] by simp
qed

lemma prefix_of_no_NL:
  assumes "valid_id s" and "k < 49"
  shows "prefix_of s ! k \<noteq> NL"
proof (cases "k < length s")
  case True
  then have "s ! k \<noteq> NL" using valid_idD(4) [OF assms(1)] nth_mem by metis
  then show ?thesis using True assms prefix_of_nth [of k s] by simp
next
  case False
  then show ?thesis using assms prefix_of_nth [of k s] by simp
qed

lemma prefix_of_inj: "valid_id s \<Longrightarrow> valid_id t \<Longrightarrow> prefix_of s = prefix_of t \<longleftrightarrow> s = t"
  using pack_s_inj [of 48 s t] by (auto simp: prefix_of_def valid_id_def)

lemma record_image_prefix:
  assumes "valid_record r"
  shows "take 49 (record_image r) = prefix_of (rec_resource r)"
  by (simp add: record_image_eq [OF assms] prefix_of_def)

lemma record_image_marks:
  assumes "valid_record r"
  shows "record_image r ! 48 = NUL" "record_image r ! 49 \<noteq> NUL" "record_image r ! 60 = NUL"
    "record_image r ! 61 \<noteq> NUL" "record_image r ! 63 = NL"
proof -
  have len: "length (fmt_d 11 (rec_offset r)) = 11"
    using length_fmt_d [of "rec_offset r" 11] assms by (simp add: valid_record_def)
  then have "fmt_d 11 (rec_offset r) ! 0 \<in> set (fmt_d 11 (rec_offset r))" by (intro nth_mem) simp
  then have d: "fmt_d 11 (rec_offset r) ! 0 \<noteq> NUL"
    using fmt_d_not_special [of "rec_offset r" 11] assms by (auto simp: valid_record_def)
  show "record_image r ! 48 = NUL" "record_image r ! 49 \<noteq> NUL" "record_image r ! 60 = NUL"
    "record_image r ! 61 \<noteq> NUL" "record_image r ! 63 = NL"
    using d len by (simp_all add: record_image_eq [OF assms] nth_append xlease_flags)
qed

abbreviation records_area :: "lease_record list \<Rightarrow> bytes" where
  "records_area recs \<equiv> concat (map record_image recs)"

lemma records_area_nth:
  assumes "list_all valid_record recs" and "i < length recs" and "k < RECORD_SIZE"
  shows "records_area recs ! (i * RECORD_SIZE + k) = record_image (recs ! i) ! k"
  using nth_concat_fixed [OF rec.enc_widths [OF assms(1)], of k i] assms(2,3) by simp

lemma length_records_area:
  "list_all valid_record recs \<Longrightarrow> length (records_area recs) = length recs * RECORD_SIZE"
  using length_concat_fixed [OF rec.enc_widths] by simp

lemma match_nth:
  assumes "take (length p) (drop pos xs) = p" and "k < length p"
  shows "xs ! (pos + k) = p ! k" "pos + k < length xs"
proof -
  have len: "length p \<le> length xs - pos"
    using assms(1) by (metis length_drop length_take min.cobounded1 min_def)
  then show "pos + k < length xs" using assms(2) by simp
  have "p ! k = take (length p) (drop pos xs) ! k" using assms(1) by simp
  then show "xs ! (pos + k) = p ! k" using assms(2) len by simp
qed

lemma prefix_match_aligned:
  assumes recs: "list_all valid_record recs" and id: "valid_id s"
    and m: "take (length (prefix_of s)) (drop pos (records_area recs)) = prefix_of s"
  obtains i where "i < length recs" "pos = i * RECORD_SIZE" "rec_resource (recs ! i) = s"
proof -
  define i d where "i = pos div RECORD_SIZE" and "d = pos mod RECORD_SIZE"
  have pos: "pos = i * RECORD_SIZE + d" and d: "d < 64"
    by (simp_all add: i_def d_def RECORD_SIZE_def)
  have at: "records_area recs ! (pos + k) = prefix_of s ! k" "pos + k < length recs * RECORD_SIZE"
    if "k < 49" for k
    using match_nth [OF m, of k] that length_records_area [OF recs] by auto
  have i: "i < length recs"
    using at(2) [of 0] pos by (simp add: RECORD_SIZE_def)
  have r: "valid_record (recs ! i)" using recs i by (simp add: list_all_length)
  have here: "record_image (recs ! i) ! (d + k) = prefix_of s ! k" if "k < 49" "d + k < 64" for k
    using at(1) [OF that(1)] records_area_nth [OF recs i, of "d + k"] that pos
    by (simp add: RECORD_SIZE_def add.assoc)
  have "d = 0"
  proof (rule ccontr)
    assume "d \<noteq> 0"
    consider "d \<le> 48" | "49 \<le> d" "d \<le> 60" | "61 \<le> d" using d by linarith
    then show False
    proof cases
      case 1
      then have "prefix_of s ! (48 - d) = NUL" "prefix_of s ! (49 - d) \<noteq> NUL"
        using here [of "48 - d"] here [of "49 - d"] \<open>d \<noteq> 0\<close> record_image_marks [OF r] by auto
      then show False using prefix_of_NUL_tail [OF id, of "48 - d" "49 - d"] \<open>d \<noteq> 0\<close> 1 by simp
    next
      case 2
      then have "prefix_of s ! (60 - d) = NUL" "prefix_of s ! (61 - d) \<noteq> NUL"
        using here [of "60 - d"] here [of "61 - d"] record_image_marks [OF r] by auto
      then show False using prefix_of_NUL_tail [OF id, of "60 - d" "61 - d"] 2 by simp
    next
      case 3
      then have "prefix_of s ! (63 - d) = NL"
        using here [of "63 - d"] record_image_marks [OF r] d by simp
      then show False using prefix_of_no_NL [OF id, of "63 - d"] 3 by simp
    qed
  qed
  have "prefix_of (rec_resource (recs ! i)) = take 49 (record_image (recs ! i))"
    using record_image_prefix [OF r] by simp
  also have "\<dots> = prefix_of s"
    using here \<open>d = 0\<close> length_record_image [OF r]
    by (intro nth_equalityI) (auto simp: RECORD_SIZE_def)
  finally have "rec_resource (recs ! i) = s"
    using prefix_of_inj id r by (simp add: valid_record_def)
  then show ?thesis using that i pos \<open>d = 0\<close> by simp
qed

lemma prefix_match_at:
  assumes "list_all valid_record recs" and "i < length recs" and "rec_resource (recs ! i) = s"
  shows "take 49 (drop (i * RECORD_SIZE) (records_area recs)) = prefix_of s"
proof -
  have "take RECORD_SIZE (drop (i * RECORD_SIZE) (records_area recs)) = record_image (recs ! i)"
    using take_drop_concat [OF rec.enc_widths [OF assms(1)], of i] assms(2) by simp
  moreover have "take 49 (take RECORD_SIZE xs) = take 49 xs" for xs :: bytes
    by (simp add: RECORD_SIZE_def)
  ultimately have "take 49 (drop (i * RECORD_SIZE) (records_area recs)) = take 49 (record_image (recs ! i))"
    by metis
  then show ?thesis using record_image_prefix assms by (simp add: list_all_length)
qed

lemma find_sub_records:
  assumes recs: "list_all valid_record recs" and id: "valid_id s"
  shows "find_sub (prefix_of s) (records_area recs)
    = map_option (\<lambda>i. i * RECORD_SIZE) (first_idx (\<lambda>r. rec_resource r = s) recs)"
proof (cases "first_idx (\<lambda>r. rec_resource r = s) recs")
  case None
  have "take (length (prefix_of s)) (drop j (records_area recs)) \<noteq> prefix_of s" for j
  proof
    assume "take (length (prefix_of s)) (drop j (records_area recs)) = prefix_of s"
    then obtain i where "i < length recs" "rec_resource (recs ! i) = s"
      using prefix_match_aligned [OF recs id] by blast
    then show False using None nth_mem unfolding first_idx_None by blast
  qed
  moreover have "prefix_of s \<noteq> []" by (simp add: prefix_of_def)
  ultimately show ?thesis using None find_sub_eq_None [of "prefix_of s"] by simp
next
  case (Some i)
  then have i: "i < length recs" "rec_resource (recs ! i) = s"
    and first: "\<And>j. j < i \<Longrightarrow> rec_resource (recs ! j) \<noteq> s"
    by (auto simp: first_idx_Some)
  have "find_sub (prefix_of s) (records_area recs) = Some (i * RECORD_SIZE)"
  proof (rule find_sub_eq_Some)
    show "prefix_of s \<noteq> []" by (simp add: prefix_of_def)
    show "take (length (prefix_of s)) (drop (i * RECORD_SIZE) (records_area recs)) = prefix_of s"
      using prefix_match_at [OF recs i] by simp
    show "take (length (prefix_of s)) (drop j (records_area recs)) \<noteq> prefix_of s"
      if j: "j < i * RECORD_SIZE" for j
    proof
      assume "take (length (prefix_of s)) (drop j (records_area recs)) = prefix_of s"
      then obtain k where "j = k * RECORD_SIZE" "rec_resource (recs ! k) = s"
        using prefix_match_aligned [OF recs id] by blast
      then show False using first [of k] j by (simp add: RECORD_SIZE_def)
    qed
  qed
  then show ?thesis using Some by simp
qed

lemma valid_EMPTY [simp]: "valid_record EMPTY_RECORD"
  by (simp add: valid_record_def valid_id_def EMPTY_RECORD_def)

lemma record_image_inj:
  assumes "valid_record r" and "valid_record r'" and "record_image r = record_image r'"
  shows "r = r'"
proof -
  have "(Inr r :: xlease_error + lease_record) = record_frombytes (record_image r)"
    by (rule record_roundtrip_aux [OF assms(1), symmetric])
  also have "\<dots> = record_frombytes (record_image r')" by (simp only: assms(3))
  also have "\<dots> = Inr r'" by (rule record_roundtrip_aux [OF assms(2)])
  finally show ?thesis by simp
qed

lemma find_sub_free:
  assumes recs: "list_all valid_record recs"
  shows "find_sub (record_image EMPTY_RECORD) (records_area recs)
    = map_option (\<lambda>i. i * RECORD_SIZE) (first_idx (\<lambda>r. r = EMPTY_RECORD) recs)"
proof -
  have len: "length (record_image EMPTY_RECORD) = RECORD_SIZE" by (simp add: length_record_image)
  have at: "take RECORD_SIZE (drop (i * RECORD_SIZE) (records_area recs)) = record_image (recs ! i)"
    if "i < length recs" for i
    using take_drop_concat [OF rec.enc_widths [OF recs], of i] that by simp
  have aligned: "\<exists>i < length recs. j = i * RECORD_SIZE \<and> recs ! i = EMPTY_RECORD"
    if m: "take RECORD_SIZE (drop j (records_area recs)) = record_image EMPTY_RECORD" for j
  proof -
    have "take 49 (take RECORD_SIZE xs) = take 49 xs" for xs :: bytes by (simp add: RECORD_SIZE_def)
    then have "take 49 (drop j (records_area recs)) = take 49 (record_image EMPTY_RECORD)"
      using m by metis
    then have "take (length (prefix_of [])) (drop j (records_area recs)) = prefix_of []"
      using record_image_prefix [OF valid_EMPTY] by (simp add: EMPTY_RECORD_def)
    then obtain i where i: "i < length recs" "j = i * RECORD_SIZE"
      using prefix_match_aligned [OF recs, of "[]"] by (auto simp: valid_id_def)
    then have "record_image (recs ! i) = record_image EMPTY_RECORD" using at m by simp
    then have "recs ! i = EMPTY_RECORD"
      using record_image_inj [of "recs ! i" EMPTY_RECORD] recs i by (simp add: list_all_length)
    then show ?thesis using i by blast
  qed
  have ne: "record_image EMPTY_RECORD \<noteq> []" using len by (auto simp: RECORD_SIZE_def)
  show ?thesis
  proof (cases "first_idx (\<lambda>r. r = EMPTY_RECORD) recs")
    case None
    have "take (length (record_image EMPTY_RECORD)) (drop j (records_area recs)) \<noteq> record_image EMPTY_RECORD" for j
    proof
      assume "take (length (record_image EMPTY_RECORD)) (drop j (records_area recs)) = record_image EMPTY_RECORD"
      then obtain i where "i < length recs" "recs ! i = EMPTY_RECORD" using aligned len by auto
      then show False using None nth_mem unfolding first_idx_None by blast
    qed
    then show ?thesis using None find_sub_eq_None [OF ne] by simp
  next
    case (Some i)
    then have i: "i < length recs" "recs ! i = EMPTY_RECORD"
      and first: "\<And>j. j < i \<Longrightarrow> recs ! j \<noteq> EMPTY_RECORD"
      by (auto simp: first_idx_Some)
    have "find_sub (record_image EMPTY_RECORD) (records_area recs) = Some (i * RECORD_SIZE)"
    proof (rule find_sub_eq_Some [OF ne])
      show "take (length (record_image EMPTY_RECORD)) (drop (i * RECORD_SIZE) (records_area recs))
          = record_image EMPTY_RECORD"
        using at [OF i(1)] i(2) len by simp
      show "take (length (record_image EMPTY_RECORD)) (drop j (records_area recs)) \<noteq> record_image EMPTY_RECORD"
        if j: "j < i * RECORD_SIZE" for j
        using aligned [of j] first j len by (auto simp: RECORD_SIZE_def)
    qed
    then show ?thesis using Some by simp
  qed
qed

subsection \<open>Well-formed indexes\<close>

text \<open>
  An index whose buffer is the image of metadata and of \<open>MAX_RECORDS\<close> valid records. On such an
  index every operation of \<open>VolumeIndex\<close> is an operation on the list of records.
\<close>

definition index_image :: "index_metadata \<Rightarrow> lease_record list \<Rightarrow> bytes" where
  "index_image m recs = metadata_image m @ records_area recs"

definition wf_records :: "lease_record list \<Rightarrow> bool" where
  "wf_records recs \<longleftrightarrow> list_all valid_record recs \<and> length recs = MAX_RECORDS"

definition index_is :: "volume_index \<Rightarrow> index_metadata \<Rightarrow> lease_record list \<Rightarrow> bool" where
  "index_is ix m recs \<longleftrightarrow>
     valid_metadata m \<and> wf_records recs \<and> ix_buf ix = index_image m recs"

lemma index_image_slots: "index_image m recs = rec.slots (metadata_image m) recs"
  by (simp add: index_image_def rec.slots_def)

lemma wf_recordsD [simp]:
  assumes "wf_records recs"
  shows "list_all valid_record recs" "length recs = MAX_RECORDS"
  using assms by (simp_all add: wf_records_def)

lemma wf_records_update: "wf_records recs \<Longrightarrow> valid_record r \<Longrightarrow> wf_records (recs[i := r])"
  by (auto simp: wf_records_def list_all_iff dest: set_update_subset_insert [THEN subsetD])

lemma wf_records_nth: "wf_records recs \<Longrightarrow> i < MAX_RECORDS \<Longrightarrow> valid_record (recs ! i)"
  using wf_recordsD [of recs] by (simp add: list_all_length)

lemma MAX_RECORDS_eq: "MAX_RECORDS * RECORD_SIZE + METADATA_SIZE = INDEX_SIZE"
  by (simp add: xlease_consts)

lemma length_index_image:
  "valid_metadata m \<Longrightarrow> wf_records recs \<Longrightarrow> length (index_image m recs) = INDEX_SIZE"
  by (simp add: index_image_slots rec.length_slots length_metadata_image xlease_consts)

lemma index_is_length: "index_is ix m recs \<Longrightarrow> length (ix_buf ix) = INDEX_SIZE"
  by (simp add: index_is_def length_index_image)

lemma index_is_area: "index_is ix m recs \<Longrightarrow> drop RECORD_BASE (ix_buf ix) = records_area recs"
  by (simp add: index_is_def index_image_def length_metadata_image RECORD_BASE_def)

lemma record_number_at [simp]: "record_number (RECORD_BASE + i * RECORD_SIZE) = i"
  by (simp add: record_number_def RECORD_SIZE_def)

lemma lookup_prefix_valid: "valid_id s \<Longrightarrow> lookup_prefix s = Inr (prefix_of s)"
  by (simp add: lookup_prefix_def prefix_of_def valid_id_def)

lemma map_record_number:
  "map_option record_number (map_option ((+) RECORD_BASE) (map_option (\<lambda>i. i * RECORD_SIZE) r)) = r"
  by (cases r) simp_all

lemma find_record_is:
  assumes "index_is ix m recs" and "valid_id s"
  shows "find_record ix s = Inr (first_idx (\<lambda>r. rec_resource r = s) recs)"
proof -
  have "list_all valid_record recs" using assms(1) by (simp add: index_is_def)
  then show ?thesis
    using assms(2) index_is_area [OF assms(1)] map_record_number
    by (simp add: find_record_def lookup_prefix_valid find_from_def find_sub_records
        del: option.map_comp)
qed

lemma find_free_record_is:
  assumes "index_is ix m recs"
  shows "find_free_record ix = Inr (first_idx (\<lambda>r. r = EMPTY_RECORD) recs)"
proof -
  have "list_all valid_record recs" using assms by (simp add: index_is_def)
  then show ?thesis
    using index_is_area [OF assms] map_record_number
    by (simp add: find_free_record_def record_bytes_valid find_from_def find_sub_free
        del: option.map_comp)
qed

lemma record_offset_slot:
  "valid_metadata m \<Longrightarrow> record_offset i = length (metadata_image m) + i * RECORD_SIZE"
  by (simp add: record_offset_def RECORD_BASE_def length_metadata_image)

lemma record_offset_le: "i < MAX_RECORDS \<Longrightarrow> record_offset i + RECORD_SIZE \<le> INDEX_SIZE"
  by (simp add: record_offset_def xlease_consts)

lemma read_record_is:
  assumes "index_is ix m recs" and "i < MAX_RECORDS"
  shows "read_record ix i = Inr (recs ! i)"
proof -
  have "\<not> length (ix_buf ix) < record_offset i"
    using index_is_length [OF assms(1)] record_offset_le [OF assms(2)] by simp
  moreover have "record_frombytes (slice (record_offset i) (record_offset i + RECORD_SIZE) (ix_buf ix)) = Inr (recs ! i)"
    using rec.dec_slot [of recs i "metadata_image m"] assms
    by (simp add: index_is_def index_image_slots record_offset_slot [of m i])
  ultimately show ?thesis by (simp add: read_record_def Let_def)
qed

lemma write_record_is:
  assumes "index_is ix m recs" and "i < MAX_RECORDS" and "valid_record r"
  shows "write_record i r ix = Inr (ix\<lparr>ix_buf := index_image m (recs[i := r])\<rparr>)"
proof -
  have len: "length (ix_buf ix) = INDEX_SIZE" by (rule index_is_length [OF assms(1)])
  have "buf_write (ix_buf ix) (record_offset i) (record_image r)
      = Inr (overwrite (ix_buf ix) (record_offset i) (record_image r))"
    using len record_offset_le [OF assms(2)] assms(3) by (simp add: buf_write_def length_record_image)
  moreover have "overwrite (ix_buf ix) (record_offset i) (record_image r) = index_image m (recs[i := r])"
    using rec.write_slot [of recs i r "metadata_image m"] assms
    by (simp add: index_is_def index_image_slots record_offset_slot [of m i])
  ultimately show ?thesis
    using len record_offset_le [OF assms(2)] assms(3)
    by (simp add: write_record_def record_bytes_valid)
qed

lemma index_is_write:
  assumes "index_is ix m recs" and "valid_record r"
  shows "index_is (ix\<lparr>ix_buf := index_image m (recs[i := r])\<rparr>) m (recs[i := r])"
  using assms wf_records_update by (simp add: index_is_def)

lemma read_metadata_is: "index_is ix m recs \<Longrightarrow> read_metadata ix = Inr m"
  by (simp add: read_metadata_def index_is_def index_image_def slice_def length_metadata_image
      metadata_roundtrip_aux)

lemma write_metadata_is:
  assumes "index_is ix m recs" and "valid_metadata m'"
  shows "write_metadata m' ix = Inr (ix\<lparr>ix_buf := index_image m' recs\<rparr>)"
proof -
  have "overwrite (ix_buf ix) 0 (metadata_image m') = index_image m' recs"
    using rec.write_header [of "metadata_image m'" "metadata_image m" recs] assms
    by (simp add: index_is_def index_image_slots length_metadata_image)
  then show ?thesis
    using assms index_is_length [OF assms(1)]
    by (simp add: write_metadata_def metadata_bytes_valid buf_write_def length_metadata_image xlease_consts)
qed

subsection \<open>The index as the volume uses it\<close>

text \<open>
  What \<open>LeasesVolume\<close> relies on: an index that stands for a list of records, in which a name is
  found at the first record that has it, a free record is the first empty one, and reading and
  writing are indexing and updating. The lemmas say what one written record does to the
  names that can be found.
\<close>

definition unique_names :: "lease_record list \<Rightarrow> bool" where
  "unique_names recs \<longleftrightarrow>
     (\<forall>i < length recs. \<forall>j < length recs.
        rec_resource (recs ! i) = rec_resource (recs ! j) \<longrightarrow> rec_resource (recs ! i) \<noteq> [] \<longrightarrow> i = j)"

abbreviation named :: "pystr \<Rightarrow> lease_record list \<Rightarrow> nat option" where
  "named s recs \<equiv> first_idx (\<lambda>r. rec_resource r = s) recs"

lemma unique_namesD:
  assumes "unique_names recs" and "i < length recs" and "j < length recs"
    and "rec_resource (recs ! i) = rec_resource (recs ! j)" and "rec_resource (recs ! i) \<noteq> []"
  shows "i = j"
  using assms unfolding unique_names_def by blast

lemma named_unique:
  assumes "unique_names recs" and "i < length recs" and "rec_resource (recs ! i) = s" and "s \<noteq> []"
  shows "named s recs = Some i"
proof (rule first_idx_unique [OF assms(2)])
  show "rec_resource (recs ! i) = s" by (rule assms(3))
  show "j = i" if "j < length recs" "rec_resource (recs ! j) = s" for j
    by (rule unique_namesD [OF assms(1) that(1) assms(2)]) (simp_all add: that(2) assms(3,4))
qed

lemma named_update_same:
  assumes "i < length recs" and "rec_resource r = s" and "s \<noteq> []"
    and "named s recs = None \<or> named s recs = Some i" and "unique_names recs"
  shows "named s (recs[i := r]) = Some i"
proof (rule first_idx_unique)
  show "i < length (recs[i := r])" "rec_resource (recs[i := r] ! i) = s" using assms by auto
  show "j = i" if j: "j < length (recs[i := r])" "rec_resource (recs[i := r] ! j) = s" for j
  proof (rule ccontr)
    assume "j \<noteq> i"
    then have "j < length recs" "rec_resource (recs ! j) = s" using j by auto
    then have "named s recs = Some j" using named_unique assms(3,5) by blast
    then show False using assms(4) \<open>j \<noteq> i\<close> by simp
  qed
qed

lemma named_update_other:
  assumes "i < length recs" and "rec_resource r \<noteq> t" and "rec_resource (recs ! i) \<noteq> t"
  shows "named t (recs[i := r]) = named t recs"
proof (cases "named t recs")
  case None
  then have "\<forall>x \<in> set recs. rec_resource x \<noteq> t" by (simp add: first_idx_None)
  then have "\<forall>x \<in> set (recs[i := r]). rec_resource x \<noteq> t"
    using assms(2) by (auto dest: set_update_subset_insert [THEN subsetD])
  then show ?thesis using None by (simp add: first_idx_None [THEN iffD2])
next
  case (Some k)
  then have k: "k < length recs" "rec_resource (recs ! k) = t" "\<forall>j<k. rec_resource (recs ! j) \<noteq> t"
    by (simp_all add: first_idx_Some)
  then have "k \<noteq> i" using assms(3) by auto
  moreover have "rec_resource (recs[i := r] ! j) \<noteq> t" if "j < k" for j
    using k(1,3) that assms(1,2) by (cases "j = i") auto
  ultimately have "named t (recs[i := r]) = Some k"
    using k by (simp add: first_idx_Some)
  then show ?thesis using Some by simp
qed

lemma named_update_free:
  assumes "unique_names recs" and "i < length recs" and "rec_resource (recs ! i) = s" and "s \<noteq> []"
    and "rec_resource r \<noteq> s"
  shows "named s (recs[i := r]) = None"
  unfolding first_idx_None
proof
  fix x assume "x \<in> set (recs[i := r])"
  then obtain j where j: "j < length recs" "x = recs[i := r] ! j"
    by (auto simp: in_set_conv_nth)
  show "rec_resource x \<noteq> s"
    using j assms unique_namesD [OF assms(1) j(1) assms(2)] by (cases "j = i") auto
qed

lemma unique_names_update:
  assumes "unique_names recs" and "i < length recs"
    and "rec_resource r = [] \<or> named (rec_resource r) recs = None \<or> rec_resource (recs ! i) = rec_resource r"
  shows "unique_names (recs[i := r])"
  unfolding unique_names_def
proof (intro allI impI)
  fix a b
  assume ab: "a < length (recs[i := r])" "b < length (recs[i := r])"
    "rec_resource (recs[i := r] ! a) = rec_resource (recs[i := r] ! b)"
    "rec_resource (recs[i := r] ! a) \<noteq> []"
  have other: "rec_resource (recs ! j) \<noteq> rec_resource r"
    if "j < length recs" "j \<noteq> i" "rec_resource r \<noteq> []" for j
    using assms(3)
  proof (elim disjE)
    assume "rec_resource r = []"
    then show ?thesis using that by simp
  next
    assume "named (rec_resource r) recs = None"
    then show ?thesis using that(1) nth_mem unfolding first_idx_None by blast
  next
    assume "rec_resource (recs ! i) = rec_resource r"
    then show ?thesis using unique_namesD [OF assms(1) that(1) assms(2)] that(2,3) by auto
  qed
  consider "a = i" "b = i" | "a = i" "b \<noteq> i" | "a \<noteq> i" "b = i" | "a \<noteq> i" "b \<noteq> i" by blast
  then show "a = b"
  proof cases
    case 2
    then show ?thesis using ab other [of b] assms(2) by simp
  next
    case 3
    then show ?thesis using ab other [of a] assms(2) by simp
  next
    case 4
    then show ?thesis using ab unique_namesD [OF assms(1), of a b] by simp
  qed simp
qed

locale record_index =
  fixes find :: "'ix \<Rightarrow> pystr \<Rightarrow> 'e + nat option"
    and free :: "'ix \<Rightarrow> 'e + nat option"
    and rd :: "'ix \<Rightarrow> nat \<Rightarrow> 'e + lease_record"
    and wr :: "nat \<Rightarrow> lease_record \<Rightarrow> 'ix \<Rightarrow> 'e + 'ix"
    and holds :: "'ix \<Rightarrow> lease_record list \<Rightarrow> bool"
  assumes find_law: "holds ix recs \<Longrightarrow> valid_id s \<Longrightarrow> find ix s = Inr (named s recs)"
    and free_law: "holds ix recs \<Longrightarrow> free ix = Inr (first_idx (\<lambda>r. r = EMPTY_RECORD) recs)"
    and read_law: "holds ix recs \<Longrightarrow> i < length recs \<Longrightarrow> rd ix i = Inr (recs ! i)"
    and write_law: "holds ix recs \<Longrightarrow> i < length recs \<Longrightarrow> valid_record r \<Longrightarrow>
      \<exists>ix'. wr i r ix = Inr ix' \<and> holds ix' (recs[i := r])"
begin

lemma write_then_find:
  assumes "holds ix recs" and "unique_names recs" and "i < length recs" and "valid_record r"
    and "rec_resource r = s" and "s \<noteq> []" and "named s recs = None \<or> named s recs = Some i"
    and "wr i r ix = Inr ix'"
  shows "find ix' s = Inr (Some i)" "rd ix' i = Inr r"
proof -
  have h: "holds ix' (recs[i := r])" using write_law [OF assms(1,3,4)] assms(8) by auto
  have "valid_id s" using assms(4,5) by (auto simp: valid_record_def)
  then show "find ix' s = Inr (Some i)"
    using find_law [OF h] named_update_same [OF assms(3,5-7,2)] by simp
  show "rd ix' i = Inr r" using read_law [OF h, of i] assms(3) by simp
qed

lemma write_keeps_others:
  assumes "holds ix recs" and "i < length recs" and "valid_record r" and "valid_id t"
    and "rec_resource r \<noteq> t" and "rec_resource (recs ! i) \<noteq> t" and "wr i r ix = Inr ix'"
  shows "find ix' t = find ix t" "find ix t = Inr (Some k) \<Longrightarrow> rd ix' k = rd ix k"
proof -
  have h: "holds ix' (recs[i := r])" using write_law [OF assms(1-3)] assms(7) by auto
  show "find ix' t = find ix t"
    using find_law [OF h assms(4)] find_law [OF assms(1,4)] named_update_other [OF assms(2,5,6)] by simp
  assume "find ix t = Inr (Some k)"
  then have k: "k < length recs" "rec_resource (recs ! k) = t"
    using find_law [OF assms(1,4)] by (auto simp: first_idx_Some)
  then show "rd ix' k = rd ix k"
    using read_law [OF h, of k] read_law [OF assms(1), of k] assms(6) by (cases "k = i") auto
qed

lemma free_then_gone:
  assumes "holds ix recs" and "unique_names recs" and "valid_id s" and "s \<noteq> []"
    and "find ix s = Inr (Some i)" and "wr i EMPTY_RECORD ix = Inr ix'"
  shows "find ix' s = Inr None"
proof -
  have "named s recs = Some i" using find_law [OF assms(1,3)] assms(5) by simp
  then have i: "i < length recs" "rec_resource (recs ! i) = s" by (simp_all add: first_idx_Some)
  have h: "holds ix' (recs[i := EMPTY_RECORD])"
    using write_law [OF assms(1) i(1) valid_EMPTY] assms(6) by auto
  have "rec_resource EMPTY_RECORD \<noteq> s" using assms(4) by (simp add: EMPTY_RECORD_def)
  then show ?thesis
    using find_law [OF h assms(3)] named_update_free [OF assms(2) i assms(4)] by simp
qed

end

interpretation vix: record_index find_record find_free_record read_record write_record
    "\<lambda>ix recs. \<exists>m. index_is ix m recs"
proof (unfold_locales, goal_cases)
  case (1 ix recs s)
  then show ?case using find_record_is by blast
next
  case (2 ix recs)
  then show ?case using find_free_record_is by blast
next
  case (3 ix recs i)
  then show ?case using read_record_is by (auto simp: index_is_def)
next
  case (4 ix recs i r)
  then obtain m where m: "index_is ix m recs" by blast
  then have "i < MAX_RECORDS" using 4 by (simp add: index_is_def)
  then show ?case using write_record_is [OF m] index_is_write [OF m] 4 by blast
qed

subsection \<open>Properties of the format\<close>

text \<open>
  A record that is written is the record that is read: every record with a name the index
  can hold and an offset of at most eleven digits takes 64 bytes and is parsed back unchanged.
\<close>

theorem record_roundtrip:
  assumes "valid_record r"
  shows "\<exists>b. record_bytes r = Inr b \<and> length b = RECORD_SIZE \<and> record_frombytes b = Inr r"
  using record_bytes_valid [OF assms] length_record_image [OF assms] record_roundtrip_aux [OF assms] by blast

theorem record_roundtrip_witness:
  "\<exists>b. record_bytes (Record ''lease'' 3145728 True) = Inr b \<and> length b = RECORD_SIZE \<and>
    record_frombytes b = Inr (Record ''lease'' 3145728 True)"
  using record_roundtrip [of "Record ''lease'' 3145728 True"] by (simp add: valid_record_def valid_id_def ascii_def)

text \<open>
  The metadata block takes 512 bytes and is parsed back unchanged, the updating flag
  included.
\<close>

theorem metadata_roundtrip:
  assumes "valid_metadata m"
  shows "\<exists>b. metadata_bytes m = Inr b \<and> length b = METADATA_SIZE \<and> metadata_frombytes b = Inr m"
  using metadata_bytes_valid [OF assms] length_metadata_image [OF assms] metadata_roundtrip_aux [OF assms] by blast

theorem metadata_roundtrip_witness:
  "\<exists>b. metadata_bytes (IndexMetadata 1 ''sd'' 1483315200 True) = Inr b \<and> length b = METADATA_SIZE \<and>
    metadata_frombytes b = Inr (IndexMetadata 1 ''sd'' 1483315200 True)"
  using metadata_roundtrip [of "IndexMetadata 1 ''sd'' 1483315200 True"]
  by (simp add: valid_metadata_def valid_id_def ascii_def INDEX_VERSION_def)

text \<open>
  C11. Searching the raw bytes for the packed name, as \<open>find_record\<close> does, is a linear search of
  the parsed records: for names without zero or newline bytes a match can only be at the
  start of a record, so the result is the first record that has the name.
\<close>

theorem find_record_linear_search:
  assumes "index_is ix m recs" and "valid_id s"
  shows "find_record ix s = Inr (first_idx (\<lambda>r. rec_resource r = s) recs)"
  by (rule find_record_is [OF assms])

theorem find_record_linear_search_witness:
  "find_record \<lparr>ix_offset = 0, ix_block_size = 512,
      ix_buf = index_image (IndexMetadata 1 ''sd'' 0 False) (replicate MAX_RECORDS EMPTY_RECORD)\<rparr> ''lease'' = Inr None"
proof -
  have "wf_records (replicate MAX_RECORDS EMPTY_RECORD)" by (simp add: wf_records_def list_all_iff)
  then have ix: "index_is \<lparr>ix_offset = 0, ix_block_size = 512,
      ix_buf = index_image (IndexMetadata 1 ''sd'' 0 False) (replicate MAX_RECORDS EMPTY_RECORD)\<rparr>
      (IndexMetadata 1 ''sd'' 0 False) (replicate MAX_RECORDS EMPTY_RECORD)"
    by (simp add: index_is_def valid_metadata_def valid_id_def ascii_def INDEX_VERSION_def)
  have "first_idx (\<lambda>r. rec_resource r = ''lease'') (replicate MAX_RECORDS EMPTY_RECORD) = None"
    by (simp add: first_idx_None EMPTY_RECORD_def)
  moreover have id: "valid_id ''lease''" by (simp add: valid_id_def ascii_def)
  ultimately show ?thesis using find_record_linear_search [OF ix id] by simp
qed

end
