(* ===== verification/Xlease_Volume.thy ===== *)
theory Xlease_Volume
  imports Xlease_Search
begin

text \<open>
  \<^verbatim>\<open>lib/vdsm/storage/xlease.py\<close>, the leases volume: opening it, looking leases up, adding and
  removing them with their sanlock resources, listing them, and formatting or rebuilding the
  index. Sanlock is not part of the repository: its two calls are arguments of the model.
\<close>

subsection \<open>Sanlock\<close>

text \<open>
  \<open>write_resource\<close> takes a lockspace, a resource name, the offset, the alignment and the sector
  size, and changes the bytes of the volume; \<open>read_resource\<close> returns lockspace, resource and
  version. Both give \<open>Inl\<close> the errno of a SanlockException.
\<close>

record sanlock_api =
  sl_write :: "bytes \<Rightarrow> bytes \<Rightarrow> nat \<Rightarrow> nat \<Rightarrow> nat \<Rightarrow> bytes \<Rightarrow> (int + unit) \<times> bytes"
  sl_read :: "nat \<Rightarrow> nat \<Rightarrow> nat \<Rightarrow> bytes \<Rightarrow> int + (bytes \<times> bytes \<times> nat)"

text \<open>Sanlock documents that a resource occupies the aligned area at its offset and no more.\<close>

definition sanlock_local :: "sanlock_api \<Rightarrow> bool" where
  "sanlock_local sl \<longleftrightarrow>
     (\<forall>ls res off al bs c. let c' = snd (sl_write sl ls res off al bs c) in
        length c' = length c \<and> take off c' = take off c \<and> drop (off + al) c' = drop (off + al) c)"

subsection \<open>The leases volume\<close>

datatype lease_info = LeaseInfo
  (li_lockspace: pystr) (li_resource: pystr) (li_path: pystr) (li_offset: nat)

record leases_volume =
  lv_file :: leases_file
  lv_alignment :: nat
  lv_block_size :: nat
  lv_index :: volume_index
  lv_md :: index_metadata

definition open_volume :: "(nat \<Rightarrow> nat) \<Rightarrow> leases_file \<Rightarrow> nat \<Rightarrow> nat \<Rightarrow> xlease_error + leases_volume" where
  "open_volume short f alignment block_size =
     rbind (index_load short f (new_index alignment block_size)) (\<lambda>ix.
       rbind (read_metadata ix) (\<lambda>md.
         if md_updating md then Inl (IndexIsUpdating md)
         else Inr \<lparr>lv_file = f, lv_alignment = alignment, lv_block_size = block_size,
                   lv_index = ix, lv_md = md\<rparr>))"

definition lv_lockspace :: "leases_volume \<Rightarrow> pystr" where
  "lv_lockspace v = md_lockspace (lv_md v)"

definition lease_info_at :: "leases_volume \<Rightarrow> pystr \<Rightarrow> nat \<Rightarrow> lease_info" where
  "lease_info_at v lease_id recnum =
     LeaseInfo (lv_lockspace v) lease_id (fname (lv_file v)) (lease_offset recnum (lv_alignment v))"

definition lookup :: "leases_volume \<Rightarrow> pystr \<Rightarrow> xlease_error + lease_info" where
  "lookup v lease_id =
     rbind (find_record (lv_index v) lease_id) (\<lambda>found.
       case found of
         None \<Rightarrow> Inl (NoSuchLease lease_id)
       | Some recnum \<Rightarrow>
           rbind (read_record (lv_index v) recnum) (\<lambda>r.
             if rec_updating r then Inl (LeaseUpdating lease_id)
             else Inr (lease_info_at v lease_id recnum)))"

text \<open>
  \<open>_write_record\<close>: the block that holds the record goes to storage first, and only then the
  record into the index in memory.
\<close>

definition volume_write_record :: "nat \<Rightarrow> lease_record \<Rightarrow> (leases_volume, xlease_error, unit) op" where
  "volume_write_record recnum r v =
     (case rbind (copy_record_block (lv_index v) recnum) (block_write_record recnum r) of
        Inl e \<Rightarrow> (Inl e, v)
      | Inr block \<Rightarrow>
          (case block_dump block (lv_file v) of
             (Inl e, f) \<Rightarrow> (Inl e, v\<lparr>lv_file := f\<rparr>)
           | (Inr _, f) \<Rightarrow>
               (case write_record recnum r (lv_index v) of
                  Inl e \<Rightarrow> (Inl e, v\<lparr>lv_file := f\<rparr>)
                | Inr ix \<Rightarrow> (Inr (), v\<lparr>lv_file := f, lv_index := ix\<rparr>))))"

text \<open>
  Names passed to sanlock are text the index has already encoded as ASCII, for which UTF-8
  gives the same bytes.
\<close>

definition write_resource ::
  "sanlock_api \<Rightarrow> pystr \<Rightarrow> pystr \<Rightarrow> nat \<Rightarrow> (leases_volume, xlease_error, unit) op" where
  "write_resource sl lockspace res off v =
     (let (r, c) = sl_write sl lockspace res off (lv_alignment v) (lv_block_size v) (content (lv_file v));
          v' = v\<lparr>lv_file := (lv_file v)\<lparr>content := c\<rparr>\<rparr>
      in case r of Inl errno \<Rightarrow> (Inl (SanlockException errno), v') | Inr _ \<Rightarrow> (Inr (), v'))"

definition add :: "sanlock_api \<Rightarrow> pystr \<Rightarrow> (leases_volume, xlease_error, lease_info) op" where
  "add sl lease_id v =
     (case find_record (lv_index v) lease_id of
        Inl e \<Rightarrow> (Inl e, v)
      | Inr (Some recnum) \<Rightarrow>
          (case read_record (lv_index v) recnum of
             Inl e \<Rightarrow> (Inl e, v)
           | Inr r \<Rightarrow>
               (Inl (if rec_updating r then LeaseUpdating lease_id else LeaseExists lease_id), v))
      | Inr None \<Rightarrow>
          (case find_free_record (lv_index v) of
             Inl e \<Rightarrow> (Inl e, v)
           | Inr None \<Rightarrow> (Inl (NoSpace lease_id), v)
           | Inr (Some recnum) \<Rightarrow>
               (let off = lease_offset recnum (lv_alignment v)
                in obind (volume_write_record recnum (Record lease_id (int off) True)) (\<lambda>_.
                     obind (write_resource sl (lv_lockspace v) lease_id off) (\<lambda>_.
                       obind (volume_write_record recnum (Record lease_id (int off) False)) (\<lambda>_.
                         ret (lease_info_at v lease_id recnum)))) v)))"

definition remove :: "sanlock_api \<Rightarrow> pystr \<Rightarrow> (leases_volume, xlease_error, unit) op" where
  "remove sl lease_id v =
     (case find_record (lv_index v) lease_id of
        Inl e \<Rightarrow> (Inl e, v)
      | Inr None \<Rightarrow> (Inl (NoSuchLease lease_id), v)
      | Inr (Some recnum) \<Rightarrow>
          (let off = lease_offset recnum (lv_alignment v)
           in obind (volume_write_record recnum (Record lease_id (int off) True)) (\<lambda>_.
                obind (write_resource sl [] [] off) (\<lambda>_.
                  volume_write_record recnum EMPTY_RECORD)) v))"

text \<open>
  \<open>leases\<close> walks the record numbers in order; a record that cannot be parsed is skipped, any
  other exception ends the walk.
\<close>

fun leases_loop ::
  "leases_volume \<Rightarrow> nat list \<Rightarrow> (pystr \<rightharpoonup> nat \<times> bool) \<Rightarrow> xlease_error + (pystr \<rightharpoonup> nat \<times> bool)" where
  "leases_loop v [] acc = Inr acc"
| "leases_loop v (recnum # rest) acc =
     (case read_record (lv_index v) recnum of
        Inl (InvalidRecord _ _) \<Rightarrow> leases_loop v rest acc
      | Inl e \<Rightarrow> Inl e
      | Inr r \<Rightarrow>
          leases_loop v rest
            (if rec_resource r \<noteq> []
             then acc(rec_resource r \<mapsto> (lease_offset recnum (lv_alignment v), rec_updating r))
             else acc))"

definition leases :: "leases_volume \<Rightarrow> xlease_error + (pystr \<rightharpoonup> nat \<times> bool)" where
  "leases v = leases_loop v [0..<MAX_RECORDS] Map.empty"

subsection \<open>Formatting and rebuilding\<close>

text \<open>
  \<open>VolumeIndex.updating\<close>: the flag is set in the buffer, the body runs, and when it has
  finished the flag is cleared and the first block written. The times are the two readings
  of the clock.
\<close>

definition index_updating ::
  "pystr \<Rightarrow> int \<Rightarrow> int \<Rightarrow> (volume_index \<Rightarrow> (leases_file, xlease_error, volume_index) op) \<Rightarrow>
   volume_index \<Rightarrow> (leases_file, xlease_error, unit) op" where
  "index_updating lockspace t1 t2 body ix f =
     (case write_metadata (IndexMetadata INDEX_VERSION lockspace t1 True) ix of
        Inl e \<Rightarrow> (Inl e, f)
      | Inr ix1 \<Rightarrow>
          obind (body ix1) (\<lambda>ix2 f.
            case write_metadata (IndexMetadata INDEX_VERSION lockspace t2 False) ix2 of
              Inl e \<Rightarrow> (Inl e, f)
            | Inr ix3 \<Rightarrow>
                (case new_block (ix_offset ix3) (ix_buf ix3) 0 (ix_block_size ix3) of
                   Inl e \<Rightarrow> (Inl e, f)
                 | Inr block \<Rightarrow> block_dump block f)) f)"

fun write_records :: "(nat \<times> lease_record) list \<Rightarrow> volume_index \<Rightarrow> xlease_error + volume_index" where
  "write_records [] ix = Inr ix"
| "write_records ((recnum, r) # rest) ix = rbind (write_record recnum r ix) (write_records rest)"

definition dump_after :: "xlease_error + volume_index \<Rightarrow> (leases_file, xlease_error, volume_index) op" where
  "dump_after res f =
     (case res of Inl e \<Rightarrow> (Inl e, f) | Inr ix \<Rightarrow> obind (index_dump ix) (\<lambda>_. ret ix) f)"

definition format_index ::
  "pystr \<Rightarrow> nat \<Rightarrow> nat \<Rightarrow> int \<Rightarrow> int \<Rightarrow> (leases_file, xlease_error, unit) op" where
  "format_index lockspace alignment block_size t1 t2 =
     index_updating lockspace t1 t2
       (\<lambda>ix. dump_after (write_records (map (\<lambda>n. (n, EMPTY_RECORD)) [0..<MAX_RECORDS]) ix))
       (new_index alignment block_size)"

text \<open>
  Names read back from sanlock are bytes; \<open>decode("utf-8")\<close> of ASCII bytes is the same text.
  Bytes outside ASCII decode to text that the index cannot hold, or do not decode at all; the
  model reports both as the decoding error.
\<close>

definition read_resource ::
  "sanlock_api \<Rightarrow> nat \<Rightarrow> nat \<Rightarrow> nat \<Rightarrow> bytes \<Rightarrow> xlease_error + (pystr \<times> pystr \<times> nat)" where
  "read_resource sl off alignment block_size c =
     (case sl_read sl off alignment block_size c of
        Inl errno \<Rightarrow> if errno \<noteq> SANLK_LEADER_MAGIC then Inl (SanlockException errno) else Inl (NoSuchResource off)
      | Inr (ls, res, version) \<Rightarrow>
          if res = [] then Inl (NoSuchResource off)
          else (case (ascii_codec ls, ascii_codec res) of
                  (Some ls', Some res') \<Rightarrow> Inr (ls', res', version)
                | _ \<Rightarrow> Inl UnicodeDecodeError))"

fun rebuild_loop ::
  "sanlock_api \<Rightarrow> nat \<Rightarrow> nat \<Rightarrow> bytes \<Rightarrow> nat list \<Rightarrow> volume_index \<Rightarrow> xlease_error + volume_index" where
  "rebuild_loop sl alignment block_size c [] ix = Inr ix"
| "rebuild_loop sl alignment block_size c (recnum # rest) ix =
     (let off = lease_offset recnum alignment in
      if int off > int (length c) - int alignment then
        rbind (write_record recnum EMPTY_RECORD ix) (rebuild_loop sl alignment block_size c rest)
      else case read_resource sl off alignment block_size c of
             Inl (NoSuchResource _) \<Rightarrow>
               rbind (write_record recnum EMPTY_RECORD ix) (rebuild_loop sl alignment block_size c rest)
           | Inl e \<Rightarrow> Inl e
           | Inr (_, res, _) \<Rightarrow>
               rbind (write_record recnum (Record res (int off) False) ix)
                 (rebuild_loop sl alignment block_size c rest))"

definition rebuild_index ::
  "sanlock_api \<Rightarrow> pystr \<Rightarrow> nat \<Rightarrow> nat \<Rightarrow> int \<Rightarrow> int \<Rightarrow> (leases_file, xlease_error, unit) op" where
  "rebuild_index sl lockspace alignment block_size t1 t2 f =
     index_updating lockspace t1 t2
       (\<lambda>ix. dump_after (rebuild_loop sl alignment block_size (content f) [0..<MAX_RECORDS] ix))
       (new_index alignment block_size) f"

subsection \<open>One record to storage\<close>

definition valid_geometry :: "nat \<Rightarrow> nat \<Rightarrow> bool" where
  "valid_geometry al bs \<longleftrightarrow> (al = 2 ^ 20 \<or> al = 2 ^ 21 \<or> al = 2 ^ 22 \<or> al = 2 ^ 23) \<and> (bs = 512 \<or> bs = 4096)"

text \<open>The index that the storage holds, and a volume whose memory and storage agree.\<close>

definition stored :: "leases_file \<Rightarrow> nat \<Rightarrow> index_metadata \<Rightarrow> lease_record list \<Rightarrow> bool" where
  "stored f al m recs \<longleftrightarrow>
     al + INDEX_SIZE \<le> length (content f) \<and> slice al (al + INDEX_SIZE) (content f) = index_image m recs"

definition volume_is :: "leases_volume \<Rightarrow> lease_record list \<Rightarrow> bool" where
  "volume_is v recs \<longleftrightarrow>
     valid_geometry (lv_alignment v) (lv_block_size v) \<and>
     ix_offset (lv_index v) = lv_alignment v \<and> ix_block_size (lv_index v) = lv_block_size v \<and>
     index_is (lv_index v) (lv_md v) recs \<and> \<not> md_updating (lv_md v) \<and>
     stored (lv_file v) (lv_alignment v) (lv_md v) recs \<and> unique_names recs"

definition volume_inv :: "leases_volume \<Rightarrow> bool" where
  "volume_inv v \<longleftrightarrow> (\<exists>recs. volume_is v recs)"

text \<open>Storage that writes a block as a whole or not at all.\<close>

definition atomic_blocks :: "nat \<Rightarrow> leases_file \<Rightarrow> bool" where
  "atomic_blocks bs f \<longleftrightarrow>
     list_all (\<lambda>r. case r of None \<Rightarrow> True | Some k \<Rightarrow> bs \<le> Suc k) (wsched f)"

lemma overwrite_inside:
  assumes "a + n \<le> length c" and "k + length d \<le> n"
  shows "overwrite c a (overwrite (slice a (a + n) c) k d) = overwrite c (a + k) d"
proof (rule nth_equalityI)
  have ls: "length (slice a (a + n) c) = n" using assms(1) by (simp add: slice_def)
  show "length (overwrite c a (overwrite (slice a (a + n) c) k d)) = length (overwrite c (a + k) d)"
    using assms ls by (simp add: length_overwrite)
  fix i assume "i < length (overwrite c a (overwrite (slice a (a + n) c) k d))"
  then have i: "i < length c" using assms ls by (simp add: length_overwrite)
  have "slice a (a + n) c ! j = c ! (a + j)" if "j < n" for j
    using that assms(1) by (simp add: slice_def)
  then show "overwrite c a (overwrite (slice a (a + n) c) k d) ! i = overwrite c (a + k) d ! i"
    using assms ls i by (auto simp: nth_overwrite)
qed

lemma slice_overwrite_inside:
  assumes "a + n \<le> length c" and "k + length d \<le> n"
  shows "slice a (a + n) (overwrite c (a + k) d) = overwrite (slice a (a + n) c) k d"
proof (rule nth_equalityI)
  have ls: "length (slice a (a + n) c) = n" using assms(1) by (simp add: slice_def)
  have lo: "length (overwrite c (a + k) d) = length c" using assms by simp
  show "length (slice a (a + n) (overwrite c (a + k) d)) = length (overwrite (slice a (a + n) c) k d)"
    using assms ls lo by (simp add: slice_def)
  fix i assume "i < length (slice a (a + n) (overwrite c (a + k) d))"
  then have i: "i < n" using assms lo by (simp add: slice_def)
  then show "slice a (a + n) (overwrite c (a + k) d) ! i = overwrite (slice a (a + n) c) k d ! i"
    using assms ls lo by (auto simp: slice_def nth_overwrite)
qed

lemma geometry_cases:
  assumes "valid_geometry al bs"
  obtains q K where "bs = 64 * q" "INDEX_SIZE = bs * K" "0 < q" "INDEX_SIZE \<le> al" "0 < bs"
    "bs \<le> INDEX_SIZE" "METADATA_SIZE \<le> bs"
proof -
  have "INDEX_SIZE \<le> al" using assms by (auto simp: valid_geometry_def xlease_consts)
  moreover consider "bs = 512" | "bs = 4096" using assms by (auto simp: valid_geometry_def)
  then have "\<exists>q K. bs = 64 * q \<and> INDEX_SIZE = bs * K \<and> 0 < q \<and> 0 < bs \<and> bs \<le> INDEX_SIZE \<and> METADATA_SIZE \<le> bs"
  proof cases
    case 1
    then show ?thesis by (intro exI [of _ 8] exI [of _ 496]) (simp add: xlease_consts)
  next
    case 2
    then show ?thesis by (intro exI [of _ 64] exI [of _ 62]) (simp add: xlease_consts)
  qed
  ultimately show ?thesis using that by blast
qed

lemma record_in_block:
  assumes "valid_geometry al bs" and "n < MAX_RECORDS"
  defines "start \<equiv> record_offset n - record_offset n mod bs"
  shows "start \<le> record_offset n" "record_offset n - start + RECORD_SIZE \<le> bs" "start + bs \<le> INDEX_SIZE"
proof -
  obtain q K where q: "bs = 64 * q" "INDEX_SIZE = bs * K" "0 < q"
    using geometry_cases [OF assms(1)] by metis
  define e where "e = record_offset n mod bs"
  show "start \<le> record_offset n" by (simp add: start_def)
  have off: "record_offset n = 64 * (8 + n)" by (simp add: record_offset_def xlease_consts)
  then have "e = 64 * ((8 + n) mod q)" by (simp add: e_def q(1) mult_mod_right)
  moreover have "(8 + n) mod q < q" using q(3) by simp
  ultimately have e: "e + 64 \<le> bs" using q(1) by simp
  have "e \<le> record_offset n" by (simp add: e_def)
  then show "record_offset n - start + RECORD_SIZE \<le> bs"
    using e by (simp add: start_def e_def [symmetric] RECORD_SIZE_def)
  have "record_offset n < bs * K"
    using record_offset_le [OF assms(2)] q(2) by (simp add: RECORD_SIZE_def)
  then have "record_offset n div bs < K"
    by (simp add: less_mult_imp_div_less mult.commute)
  then have "bs * (record_offset n div bs) + bs \<le> bs * K"
    by (metis Suc_leI mult_Suc_right add.commute mult_le_mono2)
  then show "start + bs \<le> INDEX_SIZE"
    by (simp add: start_def q(2) minus_mod_eq_mult_div)
qed

lemma changed_block:
  assumes "index_is ix m recs" and "valid_geometry al (ix_block_size ix)" and "n < MAX_RECORDS"
    and "valid_record r"
  defines "start \<equiv> record_offset n - record_offset n mod ix_block_size ix"
  shows "rbind (copy_record_block ix n) (block_write_record n r) =
    Inr \<lparr>cb_index_offset = ix_offset ix, cb_offset = start, cb_size = ix_block_size ix,
         cb_buf = overwrite (slice start (start + ix_block_size ix) (ix_buf ix))
                    (record_offset n - start) (record_image r)\<rparr>"
proof -
  note blk = record_in_block [OF assms(2,3), folded start_def]
  have len: "length (slice start (start + ix_block_size ix) (ix_buf ix)) = ix_block_size ix"
    using blk(3) index_is_length [OF assms(1)] by (simp add: slice_def)
  let ?cb = "\<lparr>cb_index_offset = ix_offset ix, cb_offset = start, cb_size = ix_block_size ix,
    cb_buf = slice start (start + ix_block_size ix) (ix_buf ix)\<rparr>"
  have copy: "copy_record_block ix n = Inr ?cb"
    unfolding copy_record_block_def Let_def start_def [symmetric] new_block_def using len by simp
  have "int (record_offset n) - int start \<le> int (ix_block_size ix) - int RECORD_SIZE"
    "int start \<le> int (record_offset n)" "nat (int (record_offset n) - int start) = record_offset n - start"
    using blk(1,2) by linarith+
  then have off: "block_record_offset ?cb n = Inr (record_offset n - start)"
    unfolding block_record_offset_def Let_def record_offset_def [symmetric] by simp
  have "buf_write (cb_buf ?cb) (record_offset n - start) (record_image r)
      = Inr (overwrite (cb_buf ?cb) (record_offset n - start) (record_image r))"
    using len blk(2) length_record_image [OF assms(4)] by (simp add: buf_write_def)
  then show ?thesis
    by (simp add: copy block_write_record_def off record_bytes_valid [OF assms(4)])
qed

lemma pwrite_atomic:
  assumes "atomic_blocks (length buf) f" and "length buf \<le> INDEX_SIZE" and "buf \<noteq> []"
    and "off + length buf \<le> length (content f)" and "pwrite off buf f = (r, f')"
  shows "atomic_blocks (length buf) f' \<and>
    (content f' = overwrite (content f) off buf \<or> (r = Inl OSError \<and> content f' = content f))"
proof -
  obtain q g where g: "next_call f = (q, g)" by (cases "next_call f")
  have ag: "atomic_blocks (length buf) g \<and> (\<forall>k. q = Some k \<longrightarrow> length buf \<le> Suc k)"
    using g assms(1,2) by (cases "wsched f") (auto simp: next_call_def atomic_blocks_def)
  have cg: "content g = content f" using next_call_frame [OF g] by simp
  show ?thesis
  proof (cases q)
    case None
    then have "r = Inl OSError" "f' = g"
      using assms(3,5) g by (auto simp: pwrite_def pwrite_loop.simps [of off 0])
    then show ?thesis using ag cg by simp
  next
    case (Some k)
    define h where "h = g\<lparr>content := put_bytes (content g) off buf\<rparr>"
    have "min (Suc k) (length buf) = length buf" using ag Some by simp
    then have step: "pwrite_loop off (length buf) buf h = (r, f')"
      using assms(3,5) g Some by (simp add: pwrite_def pwrite_loop.simps [of off 0] h_def)
    have ch: "content h = overwrite (content f) off buf" "atomic_blocks (length buf) h"
      using cg ag assms(4) by (simp_all add: h_def put_bytes_def atomic_blocks_def)
    obtain q' g' where g': "next_call h = (q', g')" by (cases "next_call h")
    then have "f' = g'" using step by (auto simp: pwrite_loop.simps [of off "length buf"] split: option.splits)
    moreover have "atomic_blocks (length buf) g'"
      using g' ch(2) by (auto simp: next_call_def atomic_blocks_def split: list.splits)
    ultimately show ?thesis using next_call_frame [OF g'] ch(1) by simp
  qed
qed

lemma stored_write:
  assumes "stored f al m recs" and "valid_metadata m" and "wf_records recs" and "n < MAX_RECORDS"
    and "valid_record r"
    and "content f' = overwrite (content f) (al + record_offset n) (record_image r)"
  shows "stored f' al m (recs[n := r])"
proof -
  have le: "record_offset n + length (record_image r) \<le> INDEX_SIZE"
    using record_offset_le [OF assms(4)] length_record_image [OF assms(5)] by simp
  have "slice al (al + INDEX_SIZE) (content f')
      = overwrite (index_image m recs) (record_offset n) (record_image r)"
    using slice_overwrite_inside [of al INDEX_SIZE "content f" "record_offset n"] le assms(1,6)
    by (simp add: stored_def)
  also have "\<dots> = index_image m (recs[n := r])"
    using rec.write_slot [of recs n r "metadata_image m"] assms(2-5)
    by (simp add: index_image_slots record_offset_slot [of m n])
  finally show ?thesis using assms(1,6) le by (simp add: stored_def)
qed

lemma volume_write_record_eq:
  assumes "volume_is v recs" and "n < MAX_RECORDS" and "valid_record r"
  obtains off blk where
    "volume_write_record n r v =
      (case pwrite off blk (lv_file v) of
         (Inl e, f) \<Rightarrow> (Inl e, v\<lparr>lv_file := f\<rparr>)
       | (Inr _, f) \<Rightarrow> (Inr (), v\<lparr>lv_file := f,
           lv_index := (lv_index v)\<lparr>ix_buf := index_image (lv_md v) (recs[n := r])\<rparr>\<rparr>))"
    "length blk = lv_block_size v" "off + length blk \<le> length (content (lv_file v))"
    "overwrite (content (lv_file v)) off blk
      = overwrite (content (lv_file v)) (lv_alignment v + record_offset n) (record_image r)"
proof -
  let ?ix = "lv_index v" and ?al = "lv_alignment v" and ?bs = "lv_block_size v"
  note vi = assms(1) [unfolded volume_is_def]
  define start where "start = record_offset n - record_offset n mod ?bs"
  define blk where "blk = overwrite (slice start (start + ?bs) (ix_buf ?ix)) (record_offset n - start) (record_image r)"
  have geo: "valid_geometry ?al ?bs" using vi by simp
  note inb = record_in_block [OF geo assms(2), folded start_def]
  have lenix: "length (ix_buf ?ix) = INDEX_SIZE" using vi index_is_length by blast
  have changed: "rbind (copy_record_block ?ix n) (block_write_record n r) =
      Inr \<lparr>cb_index_offset = ?al, cb_offset = start, cb_size = ?bs, cb_buf = blk\<rparr>"
    using changed_block [of ?ix "lv_md v" recs ?al n r] vi geo assms(2,3)
    by (simp add: start_def blk_def)
  have wr: "write_record n r ?ix = Inr (?ix\<lparr>ix_buf := index_image (lv_md v) (recs[n := r])\<rparr>)"
    using write_record_is [OF _ assms(2,3)] vi by simp
  have sl: "length (slice start (start + ?bs) (ix_buf ?ix)) = ?bs"
    using inb(3) lenix by (simp add: slice_def)
  then have lb: "length blk = ?bs"
    using inb(2) length_record_image [OF assms(3)] by (simp add: blk_def)
  have fl: "?al + INDEX_SIZE \<le> length (content (lv_file v))"
    "slice ?al (?al + INDEX_SIZE) (content (lv_file v)) = ix_buf ?ix"
    using vi by (auto simp: stored_def index_is_def)
  have "slice (?al + start) (?al + start + ?bs) (content (lv_file v)) = slice start (start + ?bs) (ix_buf ?ix)"
    using inb(3) unfolding fl(2) [symmetric] by (simp add: slice_def drop_take add.commute min_def)
  then have "overwrite (content (lv_file v)) (?al + start) blk
      = overwrite (content (lv_file v)) (?al + start + (record_offset n - start)) (record_image r)"
    using overwrite_inside [of "?al + start" ?bs "content (lv_file v)" "record_offset n - start" "record_image r"]
      fl(1) inb length_record_image [OF assms(3)] by (simp add: blk_def)
  then have ow: "overwrite (content (lv_file v)) (?al + start) blk
      = overwrite (content (lv_file v)) (?al + record_offset n) (record_image r)"
    using inb(1) by simp
  show ?thesis
  proof (rule that)
    show "volume_write_record n r v = (case pwrite (?al + start) blk (lv_file v) of
         (Inl e, f) \<Rightarrow> (Inl e, v\<lparr>lv_file := f\<rparr>)
       | (Inr _, f) \<Rightarrow> (Inr (), v\<lparr>lv_file := f,
           lv_index := ?ix\<lparr>ix_buf := index_image (lv_md v) (recs[n := r])\<rparr>\<rparr>))"
      unfolding volume_write_record_def changed wr block_dump_def by (simp split: prod.splits sum.splits)
    show "?al + start + length blk \<le> length (content (lv_file v))" using lb inb(3) fl(1) by simp
  qed (fact lb ow)+
qed

definition same_volume :: "leases_volume \<Rightarrow> leases_volume \<Rightarrow> bool" where
  "same_volume v v' \<longleftrightarrow> lv_alignment v' = lv_alignment v \<and> lv_block_size v' = lv_block_size v \<and>
     lv_md v' = lv_md v \<and> fname (lv_file v') = fname (lv_file v)"

lemma volume_write_ok:
  assumes vi: "volume_is v recs" and n: "n < MAX_RECORDS" and r: "valid_record r"
    and un: "unique_names (recs[n := r])" and step: "volume_write_record n r v = (Inr x, v')"
  shows "volume_is v' (recs[n := r]) \<and> same_volume v v'"
proof -
  obtain off blk where eq: "volume_write_record n r v =
      (case pwrite off blk (lv_file v) of
         (Inl e, f) \<Rightarrow> (Inl e, v\<lparr>lv_file := f\<rparr>)
       | (Inr _, f) \<Rightarrow> (Inr (), v\<lparr>lv_file := f,
           lv_index := (lv_index v)\<lparr>ix_buf := index_image (lv_md v) (recs[n := r])\<rparr>\<rparr>))"
    and lb: "length blk = lv_block_size v"
    and len: "off + length blk \<le> length (content (lv_file v))"
    and ow: "overwrite (content (lv_file v)) off blk
      = overwrite (content (lv_file v)) (lv_alignment v + record_offset n) (record_image r)"
    by (rule volume_write_record_eq [OF vi n r])
  obtain q f where pw: "pwrite off blk (lv_file v) = (q, f)" by (cases "pwrite off blk (lv_file v)")
  have q: "q = Inr ()" and v': "v' = v\<lparr>lv_file := f,
      lv_index := (lv_index v)\<lparr>ix_buf := index_image (lv_md v) (recs[n := r])\<rparr>\<rparr>"
    using eq step pw by (cases q; simp)+
  have f: "fname f = fname (lv_file v)"
    "content f = overwrite (content (lv_file v)) (lv_alignment v + record_offset n) (record_image r)"
    using pwrite_spec [of off "lv_file v" blk q f] len pw q ow by auto
  have m: "valid_metadata (lv_md v)" "wf_records recs"
    using vi by (auto simp: volume_is_def index_is_def)
  have "stored f (lv_alignment v) (lv_md v) (recs[n := r])"
    using stored_write [OF _ m n r f(2)] vi by (simp add: volume_is_def)
  then show ?thesis
    using vi un v' f(1) wf_records_update [OF m(2) r, of n]
    by (simp add: volume_is_def index_is_def same_volume_def)
qed

lemma volume_write_atomic:
  assumes vi: "volume_is v recs" and n: "n < MAX_RECORDS" and r: "valid_record r"
    and at: "atomic_blocks (lv_block_size v) (lv_file v)" and step: "volume_write_record n r v = (res, v')"
  shows "atomic_blocks (lv_block_size v) (lv_file v') \<and>
    (\<forall>e. res = Inl e \<longrightarrow> e = OSError \<and> lv_index v' = lv_index v \<and> same_volume v v' \<and>
      (stored (lv_file v') (lv_alignment v) (lv_md v) recs \<or>
       stored (lv_file v') (lv_alignment v) (lv_md v) (recs[n := r])))"
proof -
  obtain off blk where eq: "volume_write_record n r v =
      (case pwrite off blk (lv_file v) of
         (Inl e, f) \<Rightarrow> (Inl e, v\<lparr>lv_file := f\<rparr>)
       | (Inr _, f) \<Rightarrow> (Inr (), v\<lparr>lv_file := f,
           lv_index := (lv_index v)\<lparr>ix_buf := index_image (lv_md v) (recs[n := r])\<rparr>\<rparr>))"
    and lb: "length blk = lv_block_size v"
    and len: "off + length blk \<le> length (content (lv_file v))"
    and ow: "overwrite (content (lv_file v)) off blk
      = overwrite (content (lv_file v)) (lv_alignment v + record_offset n) (record_image r)"
    by (rule volume_write_record_eq [OF vi n r])
  obtain q f where pw: "pwrite off blk (lv_file v) = (q, f)" by (cases "pwrite off blk (lv_file v)")
  have geo: "valid_geometry (lv_alignment v) (lv_block_size v)"
    and m: "valid_metadata (lv_md v)" "wf_records recs"
    and st: "stored (lv_file v) (lv_alignment v) (lv_md v) recs"
    using vi by (auto simp: volume_is_def index_is_def)
  have bs: "lv_block_size v \<le> INDEX_SIZE" "blk \<noteq> []"
    using geo lb by (auto simp: valid_geometry_def xlease_consts)
  have pa: "atomic_blocks (lv_block_size v) f \<and>
      (content f = overwrite (content (lv_file v)) off blk \<or> content f = content (lv_file v))"
    using pwrite_atomic [of blk "lv_file v" off q f] at lb bs len pw by auto
  have vf: "lv_file v' = f" using eq step pw by (cases q) auto
  show ?thesis
  proof (intro conjI allI impI)
    show "atomic_blocks (lv_block_size v) (lv_file v')" using pa vf by simp
    fix e assume "res = Inl e"
    then have q: "q = Inl e" and v': "v' = v\<lparr>lv_file := f\<rparr>" using eq step pw by (cases q; simp)+
    have "fname f = fname (lv_file v)" "e = OSError"
      using pwrite_spec [of off "lv_file v" blk q f] len pw q by auto
    then show "e = OSError" "lv_index v' = lv_index v" "same_volume v v'"
      using v' by (simp_all add: same_volume_def)
    show "stored (lv_file v') (lv_alignment v) (lv_md v) recs \<or>
       stored (lv_file v') (lv_alignment v) (lv_md v) (recs[n := r])"
      using pa stored_write [OF st m n r, of f] ow st vf by (auto simp: stored_def)
  qed
qed

end
