(* ===== verification/Xlease_Leases.thy ===== *)
theory Xlease_Leases
  imports Xlease_Volume
begin

text \<open>
  The guarantees of the leases volume: what adding and removing a lease does to every lookup,
  that leases never share storage, and that a volume that is opened again has the same leases.
\<close>

subsection \<open>Lookups and the parts of an operation\<close>

lemma volume_isD:
  assumes "volume_is v recs"
  shows "valid_geometry (lv_alignment v) (lv_block_size v)" "index_is (lv_index v) (lv_md v) recs"
    "stored (lv_file v) (lv_alignment v) (lv_md v) recs" "unique_names recs"
    "valid_metadata (lv_md v)" "wf_records recs" "length recs = MAX_RECORDS" "\<not> md_updating (lv_md v)"
  using assms by (auto simp: volume_is_def index_is_def)

lemma volume_find:
  assumes "volume_is v recs" and "valid_id t"
  shows "find_record (lv_index v) t = Inr (named t recs)"
  using vix.find_law [of "lv_index v" recs t] volume_isD(2) [OF assms(1)] assms(2) by blast

lemma volume_read:
  assumes "volume_is v recs" and "n < MAX_RECORDS"
  shows "read_record (lv_index v) n = Inr (recs ! n)"
  using vix.read_law [of "lv_index v" recs n] volume_isD(2,7) [OF assms(1)] assms(2) by auto

lemma volume_free:
  assumes "volume_is v recs"
  shows "find_free_record (lv_index v) = Inr (first_idx (\<lambda>r. r = EMPTY_RECORD) recs)"
  using vix.free_law [of "lv_index v" recs] volume_isD(2) [OF assms] by blast

lemma lookup_is:
  assumes "volume_is v recs" and "valid_id t"
  shows "lookup v t =
    (case named t recs of
       None \<Rightarrow> Inl (NoSuchLease t)
     | Some n \<Rightarrow> if rec_updating (recs ! n) then Inl (LeaseUpdating t) else Inr (lease_info_at v t n))"
proof (cases "named t recs")
  case None
  then show ?thesis by (simp add: lookup_def volume_find [OF assms])
next
  case (Some n)
  then have "n < MAX_RECORDS" using volume_isD(7) [OF assms(1)] by (simp add: first_idx_Some)
  then show ?thesis
    using Some by (simp add: lookup_def volume_find [OF assms] volume_read [OF assms(1)])
qed

lemma lease_info_same: "same_volume v v' \<Longrightarrow> lease_info_at v' t n = lease_info_at v t n"
  by (simp add: same_volume_def lease_info_at_def lv_lockspace_def)

lemma same_volume_trans: "same_volume u v \<Longrightarrow> same_volume v w \<Longrightarrow> same_volume u w"
  by (simp add: same_volume_def)

lemma valid_lease_record:
  assumes "valid_id s" and "n < MAX_RECORDS" and "valid_geometry al bs"
  shows "valid_record (Record s (int (lease_offset n al)) u)"
proof -
  have "al \<le> 2 ^ 23" using assms(3) by (auto simp: valid_geometry_def)
  moreover have "RESERVED_SLOTS + n \<le> 3963" using assms(2) by (simp add: xlease_consts)
  ultimately have "lease_offset n al \<le> 3963 * 2 ^ 23"
    unfolding lease_offset_def by (rule mult_le_mono [rotated])
  then show ?thesis using assms(1) by (simp add: valid_record_def)
qed

lemma lease_offset_after_index: "valid_geometry al bs \<Longrightarrow> al + INDEX_SIZE \<le> lease_offset n al"
  by (auto simp: valid_geometry_def lease_offset_def xlease_consts)

lemma write_resource_is:
  assumes vi: "volume_is v recs" and sl: "sanlock_local sl" and off: "off = lease_offset n (lv_alignment v)"
    and step: "write_resource sl a b off v = (res, v')"
  shows "volume_is v' recs \<and> same_volume v v' \<and> wsched (lv_file v') = wsched (lv_file v)"
proof -
  obtain r c where rc: "sl_write sl a b off (lv_alignment v) (lv_block_size v) (content (lv_file v)) = (r, c)"
    by (cases "sl_write sl a b off (lv_alignment v) (lv_block_size v) (content (lv_file v))")
  have v': "v' = v\<lparr>lv_file := (lv_file v)\<lparr>content := c\<rparr>\<rparr>"
    using step rc by (cases r) (simp_all add: write_resource_def)
  have c: "length c = length (content (lv_file v))" "take off c = take off (content (lv_file v))"
    using sl rc unfolding sanlock_local_def Let_def by (metis snd_conv)+
  let ?b = "lv_alignment v + INDEX_SIZE"
  have "?b \<le> off" using lease_offset_after_index [OF volume_isD(1) [OF vi]] off by simp
  then have "take ?b c = take ?b (content (lv_file v))" using c(2) by (metis min.absorb1 take_take)
  then have "slice (lv_alignment v) ?b c = slice (lv_alignment v) ?b (content (lv_file v))"
    by (simp add: slice_def take_drop add.commute)
  then have "stored (lv_file v') (lv_alignment v) (lv_md v) recs"
    using volume_isD(3) [OF vi] c(1) v' by (simp add: stored_def)
  then show ?thesis using vi v' by (simp add: volume_is_def same_volume_def)
qed

subsection \<open>Adding and removing\<close>

text \<open>The record number a new lease gets: the first empty record, when its name is not taken.\<close>

lemma add_cases:
  assumes vi: "volume_is v recs" and id: "valid_id s"
  shows "add sl s v =
    (case named s recs of
       Some n \<Rightarrow> (Inl (if rec_updating (recs ! n) then LeaseUpdating s else LeaseExists s), v)
     | None \<Rightarrow>
         (case first_idx (\<lambda>r. r = EMPTY_RECORD) recs of
            None \<Rightarrow> (Inl (NoSpace s), v)
          | Some n \<Rightarrow>
              (let off = lease_offset n (lv_alignment v)
               in obind (volume_write_record n (Record s (int off) True)) (\<lambda>_.
                    obind (write_resource sl (lv_lockspace v) s off) (\<lambda>_.
                      obind (volume_write_record n (Record s (int off) False)) (\<lambda>_.
                        ret (lease_info_at v s n)))) v)))"
proof (cases "named s recs")
  case None
  then show ?thesis
    by (simp add: add_def volume_find [OF vi id] volume_free [OF vi] split: option.splits)
next
  case (Some n)
  then have "n < MAX_RECORDS" using volume_isD(7) [OF vi] by (simp add: first_idx_Some)
  then show ?thesis using Some by (simp add: add_def volume_find [OF vi id] volume_read [OF vi])
qed

lemma free_slot:
  assumes "volume_is v recs" and "first_idx (\<lambda>r. r = EMPTY_RECORD) recs = Some n"
  shows "n < MAX_RECORDS" "recs ! n = EMPTY_RECORD" "rec_resource (recs ! n) = []"
  using assms volume_isD(7) [OF assms(1)] by (auto simp: first_idx_Some EMPTY_RECORD_def)

lemma add_ok:
  assumes vi: "volume_is v recs" and id: "valid_id s" and ne: "s \<noteq> []" and sl: "sanlock_local sl"
    and step: "add sl s v = (Inr info, v')"
  obtains n where "named s recs = None" "first_idx (\<lambda>r. r = EMPTY_RECORD) recs = Some n"
    "volume_is v' (recs[n := Record s (int (lease_offset n (lv_alignment v))) False])"
    "same_volume v v'" "info = lease_info_at v s n"
proof -
  have nm: "named s recs = None" using step by (auto simp: add_cases [OF vi id] split: option.splits if_splits)
  then obtain n where n: "first_idx (\<lambda>r. r = EMPTY_RECORD) recs = Some n"
    using step by (auto simp: add_cases [OF vi id] split: option.splits)
  define off where "off = lease_offset n (lv_alignment v)"
  define u where "u = Record s (int off) True"
  define w where "w = Record s (int off) False"
  have lt: "n < MAX_RECORDS" and emp: "rec_resource (recs ! n) = []" using free_slot [OF vi n] by auto
  have val: "valid_record u" "valid_record w"
    using valid_lease_record [OF id lt volume_isD(1) [OF vi]] by (simp_all add: u_def w_def off_def)
  have len: "length recs = MAX_RECORDS" by (rule volume_isD(7) [OF vi])
  obtain v1 v2 x y z where s1: "volume_write_record n u v = (Inr x, v1)"
    and s2: "write_resource sl (lv_lockspace v) s off v1 = (Inr y, v2)"
    and s3: "volume_write_record n w v2 = (Inr z, v')" and info: "info = lease_info_at v s n"
    using step nm n by (auto simp: add_cases [OF vi id] Let_def obind_Inr_iff u_def w_def off_def)
  have un1: "unique_names (recs[n := u])"
    using unique_names_update [OF volume_isD(4) [OF vi], of n u] nm lt len by (simp add: u_def)
  have v1: "volume_is v1 (recs[n := u])" "same_volume v v1"
    using volume_write_ok [OF vi lt val(1) un1 s1] by auto
  have v2: "volume_is v2 (recs[n := u])" "same_volume v1 v2"
    using write_resource_is [OF v1(1) sl _ s2, of n] v1(2) by (auto simp: off_def same_volume_def)
  have un2: "unique_names (recs[n := u, n := w])"
    using unique_names_update [OF un1, of n w] lt len by (simp add: u_def w_def)
  have v3: "volume_is v' (recs[n := u, n := w])" "same_volume v2 v'"
    using volume_write_ok [OF v2(1) lt val(2) un2 s3] by auto
  show ?thesis
    by (rule that [OF nm n _ _ info])
      (use v1(2) v2(2) v3 in \<open>auto simp: w_def off_def intro: same_volume_trans\<close>)
qed

lemma lookup_after_write:
  assumes vi: "volume_is v recs" and vi': "volume_is v' (recs[n := r])" and sv: "same_volume v v'"
    and n: "n < MAX_RECORDS" and t: "valid_id t" and ne: "rec_resource r \<noteq> t" "rec_resource (recs ! n) \<noteq> t"
  shows "lookup v' t = lookup v t"
proof -
  have len: "length recs = MAX_RECORDS" by (rule volume_isD(7) [OF vi])
  have nm: "named t (recs[n := r]) = named t recs" using named_update_other ne n len by simp
  have "recs[n := r] ! k = recs ! k" if "named t recs = Some k" for k
    using that ne(2) by (cases "k = n") (auto simp: first_idx_Some)
  then show ?thesis
    by (simp add: lookup_is [OF vi t] lookup_is [OF vi' t] nm lease_info_same [OF sv] split: option.splits)
qed

text \<open>
  C1. A lease that was added is found with the returned lease info, every other lease looks up
  as before, and the volume stays consistent, memory and storage alike.
\<close>

theorem add_lease:
  assumes "volume_inv v" and "valid_id s" and "s \<noteq> []" and "sanlock_local sl"
    and "add sl s v = (Inr info, v')"
  shows "volume_inv v' \<and> lookup v' s = Inr info \<and>
    (\<forall>t. valid_id t \<and> t \<noteq> [] \<and> t \<noteq> s \<longrightarrow> lookup v' t = lookup v t)"
proof -
  obtain recs where vi: "volume_is v recs" using assms(1) by (auto simp: volume_inv_def)
  obtain n where nm: "named s recs = None" and n: "first_idx (\<lambda>r. r = EMPTY_RECORD) recs = Some n"
    and vi': "volume_is v' (recs[n := Record s (int (lease_offset n (lv_alignment v))) False])"
    and sv: "same_volume v v'" and info: "info = lease_info_at v s n"
    by (rule add_ok [OF vi assms(2-5)])
  note sl = free_slot [OF vi n]
  have len: "length recs = MAX_RECORDS" by (rule volume_isD(7) [OF vi])
  have "named s (recs[n := Record s (int (lease_offset n (lv_alignment v))) False]) = Some n"
    using named_update_same [of n recs _ s] sl(1) len nm assms(3) volume_isD(4) [OF vi] by simp
  then have "lookup v' s = Inr info"
    using lookup_is [OF vi' assms(2)] sl(1) len info lease_info_same [OF sv] by simp
  moreover have "lookup v' t = lookup v t" if "valid_id t" "t \<noteq> []" "t \<noteq> s" for t
    using lookup_after_write [OF vi vi' sv sl(1) that(1)] that sl(3) by simp
  ultimately show ?thesis using vi' by (auto simp: volume_inv_def)
qed

lemma remove_cases:
  assumes vi: "volume_is v recs" and id: "valid_id s"
  shows "remove sl s v =
    (case named s recs of
       None \<Rightarrow> (Inl (NoSuchLease s), v)
     | Some n \<Rightarrow>
         (let off = lease_offset n (lv_alignment v)
          in obind (volume_write_record n (Record s (int off) True)) (\<lambda>_.
               obind (write_resource sl [] [] off) (\<lambda>_. volume_write_record n EMPTY_RECORD)) v))"
  by (simp add: remove_def volume_find [OF vi id] split: option.splits)

lemma remove_ok:
  assumes vi: "volume_is v recs" and id: "valid_id s" and ne: "s \<noteq> []" and sl: "sanlock_local sl"
    and step: "remove sl s v = (Inr x, v')"
  obtains n where "named s recs = Some n" "n < MAX_RECORDS" "rec_resource (recs ! n) = s"
    "volume_is v' (recs[n := EMPTY_RECORD])" "same_volume v v'"
proof -
  obtain n where nm: "named s recs = Some n"
    using step by (auto simp: remove_cases [OF vi id] split: option.splits)
  define off where "off = lease_offset n (lv_alignment v)"
  define u where "u = Record s (int off) True"
  have len: "length recs = MAX_RECORDS" by (rule volume_isD(7) [OF vi])
  have lt: "n < MAX_RECORDS" and res: "rec_resource (recs ! n) = s"
    using nm len by (auto simp: first_idx_Some)
  have val: "valid_record u"
    using valid_lease_record [OF id lt volume_isD(1) [OF vi]] by (simp add: u_def off_def)
  obtain v1 v2 y z where s1: "volume_write_record n u v = (Inr y, v1)"
    and s2: "write_resource sl [] [] off v1 = (Inr z, v2)"
    and s3: "volume_write_record n EMPTY_RECORD v2 = (Inr x, v')"
    using step nm by (auto simp: remove_cases [OF vi id] Let_def obind_Inr_iff u_def off_def)
  have un1: "unique_names (recs[n := u])"
    using unique_names_update [OF volume_isD(4) [OF vi], of n u] res lt len by (simp add: u_def)
  have v1: "volume_is v1 (recs[n := u])" "same_volume v v1"
    using volume_write_ok [OF vi lt val un1 s1] by auto
  have v2: "volume_is v2 (recs[n := u])" "same_volume v1 v2"
    using write_resource_is [OF v1(1) sl _ s2, of n] v1(2) by (auto simp: off_def same_volume_def)
  have un2: "unique_names (recs[n := u, n := EMPTY_RECORD])"
    using unique_names_update [OF un1, of n EMPTY_RECORD] lt len by (simp add: EMPTY_RECORD_def)
  have v3: "volume_is v' (recs[n := u, n := EMPTY_RECORD])" "same_volume v2 v'"
    using volume_write_ok [OF v2(1) lt valid_EMPTY un2 s3] by auto
  show ?thesis
    by (rule that [OF nm lt res]) (use v1(2) v2(2) v3 in \<open>auto intro: same_volume_trans\<close>)
qed

text \<open>
  C2. A removed lease is gone, its record is free again, and every other lease looks up as
  before.
\<close>

theorem remove_lease:
  assumes "volume_inv v" and "valid_id s" and "s \<noteq> []" and "sanlock_local sl"
    and "remove sl s v = (Inr x, v')"
  shows "volume_inv v' \<and> lookup v' s = Inl (NoSuchLease s) \<and>
    (\<forall>t. valid_id t \<and> t \<noteq> [] \<and> t \<noteq> s \<longrightarrow> lookup v' t = lookup v t) \<and>
    find_free_record (lv_index v') \<noteq> Inr None"
proof -
  obtain recs where vi: "volume_is v recs" using assms(1) by (auto simp: volume_inv_def)
  obtain n where n: "n < MAX_RECORDS" and res: "rec_resource (recs ! n) = s"
    and vi': "volume_is v' (recs[n := EMPTY_RECORD])" and sv: "same_volume v v'"
    by (rule remove_ok [OF vi assms(2-5)])
  have len: "length recs = MAX_RECORDS" by (rule volume_isD(7) [OF vi])
  have ne: "rec_resource EMPTY_RECORD = []" by (simp add: EMPTY_RECORD_def)
  have "named s (recs[n := EMPTY_RECORD]) = None"
    using named_update_free [OF volume_isD(4) [OF vi]] n len res assms(3) ne by simp
  then have "lookup v' s = Inl (NoSuchLease s)" using lookup_is [OF vi' assms(2)] by simp
  moreover have "lookup v' t = lookup v t" if "valid_id t" "t \<noteq> []" "t \<noteq> s" for t
    using lookup_after_write [OF vi vi' sv n that(1)] that res ne by simp
  moreover have "EMPTY_RECORD \<in> set (recs[n := EMPTY_RECORD])"
    using n len by (simp add: set_update_memI)
  then have "find_free_record (lv_index v') \<noteq> Inr None"
    using volume_free [OF vi'] by (auto simp: first_idx_None)
  ultimately show ?thesis using vi' by (auto simp: volume_inv_def)
qed

text \<open>
  C4. Leases never share storage: two different names that look up have areas that do not
  overlap, and no area overlaps the index.
\<close>

theorem leases_disjoint:
  assumes "volume_inv v" and "valid_id s" and "valid_id t" and "s \<noteq> t" and "s \<noteq> []" and "t \<noteq> []"
    and "lookup v s = Inr a" and "lookup v t = Inr b"
  shows "(li_offset a + lv_alignment v \<le> li_offset b \<or> li_offset b + lv_alignment v \<le> li_offset a) \<and>
    lv_alignment v + INDEX_SIZE \<le> li_offset a"
proof -
  obtain recs where vi: "volume_is v recs" using assms(1) by (auto simp: volume_inv_def)
  obtain i where i: "named s recs = Some i" "a = lease_info_at v s i"
    using assms(7) by (auto simp: lookup_is [OF vi assms(2)] split: option.splits if_splits)
  obtain j where j: "named t recs = Some j" "b = lease_info_at v t j"
    using assms(8) by (auto simp: lookup_is [OF vi assms(3)] split: option.splits if_splits)
  have "i \<noteq> j" using i(1) j(1) assms(4) by (auto simp: first_idx_Some)
  then have "Suc i \<le> j \<or> Suc j \<le> i" by auto
  then have "lease_offset i al + al \<le> lease_offset j al \<or> lease_offset j al + al \<le> lease_offset i al" for al
    unfolding lease_offset_def by (metis add_Suc_right add_mono1 mult_Suc mult_le_mono1 add.commute add_le_mono order_refl)
  then have "li_offset a + lv_alignment v \<le> li_offset b \<or> li_offset b + lv_alignment v \<le> li_offset a"
    by (simp add: i(2) j(2) lease_info_at_def)
  moreover have "lv_alignment v + INDEX_SIZE \<le> li_offset a"
    using lease_offset_after_index [OF volume_isD(1) [OF vi]] by (simp add: i(2) lease_info_at_def)
  ultimately show ?thesis by blast
qed

subsection \<open>Opening a volume\<close>

lemma open_stored:
  assumes "stored f al m recs" and "valid_metadata m" and "wf_records recs" and "\<not> md_updating m"
  shows "open_volume short f al bs =
    Inr \<lparr>lv_file = f, lv_alignment = al, lv_block_size = bs,
         lv_index = \<lparr>ix_offset = al, ix_block_size = bs, ix_buf = index_image m recs\<rparr>, lv_md = m\<rparr>"
proof -
  have img: "take INDEX_SIZE (drop al (content f)) = index_image m recs"
    using assms(1) by (simp add: stored_def slice_def)
  have len: "length (index_image m recs) = INDEX_SIZE" using length_index_image assms(2,3) by blast
  have "pread short f al (replicate INDEX_SIZE NUL) = (index_image m recs, INDEX_SIZE)"
    using pread_spec [of al f short "replicate INDEX_SIZE NUL"] assms(1) img len
    by (simp add: stored_def overwrite_def)
  then have "index_load short f (new_index al bs)
      = Inr \<lparr>ix_offset = al, ix_block_size = bs, ix_buf = index_image m recs\<rparr>"
    by (simp add: index_load_def new_index_def)
  moreover have "read_metadata \<lparr>ix_offset = al, ix_block_size = bs, ix_buf = index_image m recs\<rparr> = Inr m"
    using read_metadata_is [of _ m recs] assms(2,3) by (simp add: index_is_def)
  ultimately show ?thesis using assms(4) by (simp add: open_volume_def)
qed

lemma reopen:
  assumes "volume_is v recs" and "stored f (lv_alignment v) (lv_md v) recs'" and "wf_records recs'"
    and "unique_names recs'"
  obtains w where "open_volume short f (lv_alignment v) (lv_block_size v) = Inr w"
    "volume_is w recs'" "lv_file w = f" "lv_md w = lv_md v" "lv_alignment w = lv_alignment v"
    "lv_block_size w = lv_block_size v"
  by (rule that [OF open_stored [OF assms(2) volume_isD(5) [OF assms(1)] assms(3) volume_isD(8) [OF assms(1)]]])
    (use assms volume_isD [OF assms(1)] in \<open>simp_all add: volume_is_def index_is_def\<close>)

text \<open>
  C5. What the volume holds in memory is what a new instance reads from storage: opening the
  file again gives the same answer to every lookup.
\<close>

theorem reopen_same_leases:
  assumes "volume_inv v"
  shows "\<exists>w. open_volume short (lv_file v) (lv_alignment v) (lv_block_size v) = Inr w \<and> volume_inv w \<and>
    (\<forall>t. valid_id t \<longrightarrow> lookup w t = lookup v t)"
proof -
  obtain recs where vi: "volume_is v recs" using assms(1) by (auto simp: volume_inv_def)
  obtain w where w: "open_volume short (lv_file v) (lv_alignment v) (lv_block_size v) = Inr w"
    "volume_is w recs" "lv_file w = lv_file v" "lv_md w = lv_md v" "lv_alignment w = lv_alignment v"
    "lv_block_size w = lv_block_size v"
    by (rule reopen [OF vi volume_isD(3) [OF vi] volume_isD(6) [OF vi] volume_isD(4) [OF vi]])
  have sv: "same_volume v w" using w by (simp add: same_volume_def)
  have "lookup w t = lookup v t" if "valid_id t" for t
    by (simp add: lookup_is [OF vi that] lookup_is [OF w(2) that] lease_info_same [OF sv] split: option.split)
  then show ?thesis using w(1,2) by (auto simp: volume_inv_def)
qed

end
