(* ===== verification/Xlease_Format.thy ===== *)
theory Xlease_Format
  imports Xlease_Leases
begin

text \<open>
  Listing the leases, and formatting and rebuilding the index: what is on the storage afterwards,
  and what an error leaves behind.
\<close>

subsection \<open>Filling a new index\<close>

definition filled :: "volume_index \<Rightarrow> index_metadata \<Rightarrow> (nat \<Rightarrow> lease_record) \<Rightarrow> nat \<Rightarrow> bool" where
  "filled ix m g i \<longleftrightarrow>
     (\<exists>rest. ix_buf ix = index_image m (map g [0..<i]) @ rest \<and>
        length (ix_buf ix) = INDEX_SIZE)"

lemma index_image_append:
  "index_image m (recs @ [r]) = index_image m recs @ record_image r"
  by (simp add: index_image_def)

lemma length_filled_image:
  assumes "valid_metadata m" and "\<And>n. n < i \<Longrightarrow> valid_record (g n)"
  shows "length (index_image m (map g [0..<i])) = record_offset i"
  using assms(2)
proof (induction i)
  case 0
  then show ?case using length_metadata_image [OF assms(1)] by (simp add: index_image_def record_offset_def RECORD_BASE_def)
next
  case (Suc i)
  then show ?case
    using length_record_image [of "g i"] by (simp add: index_image_append record_offset_def)
qed

lemma filled_step:
  assumes "filled ix m g i" and "valid_metadata m" and "\<And>n. n \<le> i \<Longrightarrow> valid_record (g n)" and "i < MAX_RECORDS"
  shows "\<exists>ix'. write_record i (g i) ix = Inr ix' \<and> filled ix' m g (Suc i) \<and>
    ix_offset ix' = ix_offset ix \<and> ix_block_size ix' = ix_block_size ix"
proof -
  obtain rest where buf: "ix_buf ix = index_image m (map g [0..<i]) @ rest" and len: "length (ix_buf ix) = INDEX_SIZE"
    using assms(1) by (auto simp: filled_def)
  have lp: "length (index_image m (map g [0..<i])) = record_offset i"
    by (rule length_filled_image [OF assms(2)]) (simp add: assms(3))
  have lr: "length (record_image (g i)) = RECORD_SIZE" using length_record_image assms(3) by simp
  have fit: "record_offset i + RECORD_SIZE \<le> INDEX_SIZE" by (rule record_offset_le [OF assms(4)])
  define b where "b = overwrite (ix_buf ix) (record_offset i) (record_image (g i))"
  have b: "b = index_image m (map g [0..<Suc i]) @ drop RECORD_SIZE rest"
    using lp lr by (simp add: b_def buf overwrite_def index_image_append)
  have lb: "length b = INDEX_SIZE" using len lr fit by (simp add: b_def)
  have "write_record i (g i) ix = Inr (ix\<lparr>ix_buf := b\<rparr>)"
    using fit len lr assms(3) by (simp add: write_record_def record_bytes_valid buf_write_def b_def)
  moreover have "filled (ix\<lparr>ix_buf := b\<rparr>) m g (Suc i)" using b lb by (auto simp: filled_def)
  ultimately show ?thesis by auto
qed

lemma write_records_fill:
  assumes "filled ix m g i" and "valid_metadata m" and "\<And>n. n < MAX_RECORDS \<Longrightarrow> valid_record (g n)"
    and "i \<le> MAX_RECORDS"
  shows "\<exists>ix'. write_records (map (\<lambda>n. (n, g n)) [i..<MAX_RECORDS]) ix = Inr ix' \<and>
    filled ix' m g MAX_RECORDS \<and> ix_offset ix' = ix_offset ix \<and> ix_block_size ix' = ix_block_size ix"
  using assms(1,4)
proof (induction "MAX_RECORDS - i" arbitrary: i ix)
  case 0
  then show ?case by simp
next
  case (Suc k)
  then have i: "i < MAX_RECORDS" by simp
  obtain ix1 where w: "write_record i (g i) ix = Inr ix1" "filled ix1 m g (Suc i)"
    "ix_offset ix1 = ix_offset ix" "ix_block_size ix1 = ix_block_size ix"
    using filled_step [OF Suc(3) assms(2) _ i] assms(3) i by fastforce
  obtain ix2 where "write_records (map (\<lambda>n. (n, g n)) [Suc i..<MAX_RECORDS]) ix1 = Inr ix2"
    "filled ix2 m g MAX_RECORDS" "ix_offset ix2 = ix_offset ix1" "ix_block_size ix2 = ix_block_size ix1"
    using Suc(1) [of "Suc i" ix1] w(2) Suc(2) i by force
  then show ?case using w i by (auto simp: upt_conv_Cons)
qed

lemma filled_all:
  assumes "filled ix m g MAX_RECORDS" and "valid_metadata m" and "\<And>n. n < MAX_RECORDS \<Longrightarrow> valid_record (g n)"
  shows "index_is ix m (map g [0..<MAX_RECORDS])"
proof -
  obtain rest where buf: "ix_buf ix = index_image m (map g [0..<MAX_RECORDS]) @ rest"
    and len: "length (ix_buf ix) = INDEX_SIZE"
    using assms(1) by (auto simp: filled_def)
  have "length (index_image m (map g [0..<MAX_RECORDS])) = INDEX_SIZE"
    using length_filled_image [OF assms(2,3)] by (simp add: record_offset_def xlease_consts)
  then have "rest = []" using buf len by simp
  then show ?thesis using buf assms(2,3) by (simp add: index_is_def wf_records_def list_all_iff)
qed

lemma new_index_filled:
  assumes "valid_metadata m"
  shows "\<exists>ix. write_metadata m (new_index off bs) = Inr ix \<and> filled ix m g 0 \<and>
    ix_offset ix = off \<and> ix_block_size ix = bs"
  using length_metadata_image [OF assms]
  by (auto simp: write_metadata_def metadata_bytes_valid [OF assms] buf_write_def new_index_def
      filled_def index_image_def overwrite_def xlease_consts simp del: replicate.simps)

lemma dump_index_stored:
  assumes "index_is ix m recs" and "wsched f = []" and "ix_offset ix + INDEX_SIZE \<le> length (content f)"
  shows "\<exists>f'. index_dump ix f = (Inr (), f') \<and> stored f' (ix_offset ix) m recs \<and> wsched f' = [] \<and>
    fname f' = fname f \<and> content f' = overwrite (content f) (ix_offset ix) (index_image m recs)"
proof -
  have len: "length (index_image m recs) = INDEX_SIZE"
    using index_is_length [OF assms(1)] assms(1) by (simp add: index_is_def)
  have "index_dump ix f = (Inr (), f\<lparr>content := overwrite (content f) (ix_offset ix) (ix_buf ix)\<rparr>)"
    unfolding index_dump_def by (rule pwrite_ok [OF assms(2)]) (use assms(3) in simp)
  moreover have "ix_buf ix = index_image m recs" using assms(1) by (simp add: index_is_def)
  moreover have "slice (ix_offset ix) (ix_offset ix + INDEX_SIZE)
      (overwrite (content f) (ix_offset ix) (index_image m recs)) = index_image m recs"
    using slice_overwrite_same [of "ix_offset ix" "index_image m recs" "content f"] assms(3) len by simp
  ultimately show ?thesis using assms(2,3) len by (simp add: stored_def)
qed

lemma write_first_block:
  assumes "index_is ix m recs" and "stored f (ix_offset ix) m' recs" and "valid_metadata m'"
    and "valid_geometry (ix_offset ix) (ix_block_size ix)" and "wsched f = []"
  obtains blk f' where "new_block (ix_offset ix) (ix_buf ix) 0 (ix_block_size ix) = Inr blk"
    "block_dump blk f = (Inr (), f')" "stored f' (ix_offset ix) m recs" "wsched f' = []"
    "fname f' = fname f" "drop (ix_offset ix + INDEX_SIZE) (content f') = drop (ix_offset ix + INDEX_SIZE) (content f)"
    "length (content f') = length (content f)"
proof -
  let ?al = "ix_offset ix" and ?bs = "ix_block_size ix"
  obtain q K where g: "?bs = 64 * q" "INDEX_SIZE = ?bs * K" "0 < q" "INDEX_SIZE \<le> ?al" "0 < ?bs"
    "?bs \<le> INDEX_SIZE" "METADATA_SIZE \<le> ?bs"
    by (rule geometry_cases [OF assms(4)])
  have val: "valid_metadata m" and buf: "ix_buf ix = index_image m recs" using assms(1) by (auto simp: index_is_def)
  have len: "length (ix_buf ix) = INDEX_SIZE" by (rule index_is_length [OF assms(1)])
  define c where "c = content f"
  define b where "b = take ?bs (ix_buf ix)"
  have lb: "length b = ?bs" using len g(6) by (simp add: b_def)
  have blk: "new_block ?al (ix_buf ix) 0 ?bs =
      Inr \<lparr>cb_index_offset = ?al, cb_offset = 0, cb_size = ?bs, cb_buf = b\<rparr>"
    using lb by (simp add: new_block_def slice_def b_def)
  have fits: "?al + INDEX_SIZE \<le> length c" and img: "slice ?al (?al + INDEX_SIZE) c = index_image m' recs"
    using assms(2) by (simp_all add: stored_def c_def)
  define f' where "f' = f\<lparr>content := overwrite c ?al b\<rparr>"
  have dump: "block_dump \<lparr>cb_index_offset = ?al, cb_offset = 0, cb_size = ?bs, cb_buf = b\<rparr> f = (Inr (), f')"
    unfolding block_dump_def f'_def c_def by (simp, rule pwrite_ok [OF assms(5)]) (use fits in \<open>simp add: c_def\<close>)
  have tail: "drop ?bs (index_image m' recs) = drop ?bs (index_image m recs)"
    using g(7) length_metadata_image [OF val] length_metadata_image [OF assms(3)]
    by (simp add: index_image_def)
  have "slice ?al (?al + INDEX_SIZE) (overwrite c (?al + 0) b) = overwrite (index_image m' recs) 0 b"
    using slice_overwrite_inside [of ?al INDEX_SIZE c 0 b] fits img lb g(6) by simp
  also have "\<dots> = b @ drop ?bs (index_image m recs)" using lb tail by (simp add: overwrite_def)
  also have "\<dots> = index_image m recs" by (simp add: b_def buf)
  finally have "stored f' ?al m recs" using fits lb g(6) by (simp add: stored_def f'_def)
  moreover have "drop (?al + INDEX_SIZE) (content f') = drop (?al + INDEX_SIZE) (content f)"
    using lb g(6) fits by (simp add: f'_def c_def drop_overwrite)
  ultimately show ?thesis
    using that [OF blk dump] assms(5) lb g(6) fits by (simp add: f'_def c_def)
qed

lemma index_updating_stores:
  assumes val: "valid_metadata (IndexMetadata INDEX_VERSION ls t1 True)"
      "valid_metadata (IndexMetadata INDEX_VERSION ls t2 False)"
    and geo: "valid_geometry al bs" and f: "wsched f = []" "al + INDEX_SIZE \<le> length (content f)"
    and g: "\<And>n. n < MAX_RECORDS \<Longrightarrow> valid_record (g n)"
    and body: "\<And>ix. filled ix (IndexMetadata INDEX_VERSION ls t1 True) g 0 \<Longrightarrow>
      body ix = dump_after (write_records (map (\<lambda>n. (n, g n)) [0..<MAX_RECORDS]) ix)"
  shows "\<exists>f'. index_updating ls t1 t2 body (new_index al bs) f = (Inr (), f') \<and>
    stored f' al (IndexMetadata INDEX_VERSION ls t2 False) (map g [0..<MAX_RECORDS]) \<and> wsched f' = [] \<and>
    fname f' = fname f \<and> drop (al + INDEX_SIZE) (content f') = drop (al + INDEX_SIZE) (content f) \<and>
    length (content f') = length (content f)"
proof -
  let ?m1 = "IndexMetadata INDEX_VERSION ls t1 True" and ?m2 = "IndexMetadata INDEX_VERSION ls t2 False"
  let ?recs = "map g [0..<MAX_RECORDS]"
  obtain ix1 where ix1: "write_metadata ?m1 (new_index al bs) = Inr ix1" "filled ix1 ?m1 g 0"
    "ix_offset ix1 = al" "ix_block_size ix1 = bs"
    using new_index_filled [OF val(1)] by blast
  obtain ix2 where ix2: "write_records (map (\<lambda>n. (n, g n)) [0..<MAX_RECORDS]) ix1 = Inr ix2"
    "filled ix2 ?m1 g MAX_RECORDS" "ix_offset ix2 = al" "ix_block_size ix2 = bs"
    using write_records_fill [OF ix1(2) val(1) g] ix1(3,4) by auto
  have is2: "index_is ix2 ?m1 ?recs" by (rule filled_all [OF ix2(2) val(1) g])
  obtain f1 where f1: "index_dump ix2 f = (Inr (), f1)" "stored f1 al ?m1 ?recs" "wsched f1 = []"
    "fname f1 = fname f" "content f1 = overwrite (content f) al (index_image ?m1 ?recs)"
    using dump_index_stored [OF is2 f(1)] f(2) ix2(3) by auto
  have len: "length (index_image ?m1 ?recs) = INDEX_SIZE"
    using index_is_length [OF is2] is2 by (simp add: index_is_def)
  define ix3 where "ix3 = ix2\<lparr>ix_buf := index_image ?m2 ?recs\<rparr>"
  have wm: "write_metadata ?m2 ix2 = Inr ix3" unfolding ix3_def by (rule write_metadata_is [OF is2 val(2)])
  have is3: "index_is ix3 ?m2 ?recs" using is2 val(2) by (simp add: index_is_def ix3_def)
  have o3: "ix_offset ix3 = al" "ix_block_size ix3 = bs" using ix2 by (simp_all add: ix3_def)
  obtain blk f2 where f2: "new_block al (ix_buf ix3) 0 bs = Inr blk" "block_dump blk f1 = (Inr (), f2)"
    "stored f2 al ?m2 ?recs" "wsched f2 = []" "fname f2 = fname f1"
    "drop (al + INDEX_SIZE) (content f2) = drop (al + INDEX_SIZE) (content f1)"
    "length (content f2) = length (content f1)"
    by (rule write_first_block [OF is3, of f1 ?m1, unfolded o3]) (use f1 geo val in auto)
  have "drop (al + INDEX_SIZE) (content f1) = drop (al + INDEX_SIZE) (content f)"
    "length (content f1) = length (content f)"
    using f1(5) f(2) len by (simp_all add: drop_overwrite)
  moreover have "index_updating ls t1 t2 body (new_index al bs) f = (Inr (), f2)"
    using ix1(1) body [OF ix1(2)] ix2(1) f1(1) wm f2(1,2) o3
    by (simp add: index_updating_def dump_after_def obind_def ret_def)
  ultimately show ?thesis using f2 f1 by auto
qed

subsection \<open>A formatted volume\<close>

lemma unique_replicate: "unique_names (replicate n EMPTY_RECORD)"
  by (simp add: unique_names_def EMPTY_RECORD_def)

lemma open_is:
  assumes "stored f al m recs" and "valid_metadata m" and "wf_records recs" and "\<not> md_updating m"
    and "unique_names recs" and "valid_geometry al bs"
  obtains v where "open_volume short f al bs = Inr v" "volume_is v recs" "lv_file v = f" "lv_md v = m"
    "lv_alignment v = al" "lv_block_size v = bs"
  by (rule that [OF open_stored [OF assms(1-4)]])
    (use assms in \<open>simp_all add: volume_is_def index_is_def\<close>)

lemma valid_lockspace: "valid_metadata (IndexMetadata INDEX_VERSION ls t u) \<longleftrightarrow> valid_id ls \<and> 0 \<le> t \<and> t < 10 ^ 10"
  by (simp add: valid_metadata_def)

lemma leases_loop_is:
  assumes "volume_is v recs" and "\<forall>n \<in> set ns. n < MAX_RECORDS" and "distinct ns"
    and "\<forall>n \<in> set ns. acc (rec_resource (recs ! n)) = None"
  shows "\<exists>acc'. leases_loop v ns acc = Inr acc' \<and>
    (\<forall>s. acc' s = (if s \<noteq> [] \<and> (\<exists>n \<in> set ns. rec_resource (recs ! n) = s)
       then (let n = the (named s recs) in Some (lease_offset n (lv_alignment v), rec_updating (recs ! n)))
       else acc s))"
  using assms(2-4)
proof (induction ns arbitrary: acc)
  case Nil
  then show ?case by simp
next
  case (Cons n ns)
  let ?r = "recs ! n"
  define acc1 where "acc1 = (if rec_resource ?r \<noteq> []
      then acc(rec_resource ?r \<mapsto> (lease_offset n (lv_alignment v), rec_updating ?r)) else acc)"
  have n: "n < length recs" using Cons.prems(1) volume_isD(7) [OF assms(1)] by simp
  have un: "unique_names recs" by (rule volume_isD(4) [OF assms(1)])
  have other: "rec_resource (recs ! k) \<noteq> rec_resource ?r" if k: "k \<in> set ns" "rec_resource ?r \<noteq> []" for k
  proof
    assume eq: "rec_resource (recs ! k) = rec_resource ?r"
    have "k < length recs" using Cons.prems(1) k(1) volume_isD(7) [OF assms(1)] by simp
    then have "n = k" by (rule unique_namesD [OF un n _ eq [symmetric] k(2)])
    then show False using Cons.prems(2) k(1) by simp
  qed
  have "\<forall>k \<in> set ns. acc1 (rec_resource (recs ! k)) = None"
    using other Cons.prems(3) by (auto simp: acc1_def)
  then obtain acc' where acc': "leases_loop v ns acc1 = Inr acc'"
    and eq: "\<And>s. acc' s = (if s \<noteq> [] \<and> (\<exists>n \<in> set ns. rec_resource (recs ! n) = s)
       then (let n = the (named s recs) in Some (lease_offset n (lv_alignment v), rec_updating (recs ! n)))
       else acc1 s)"
    using Cons.IH [of acc1] Cons.prems by auto
  have "leases_loop v (n # ns) acc = Inr acc'"
    using acc' volume_read [OF assms(1)] Cons.prems(1) by (simp add: acc1_def)
  moreover have "named (rec_resource ?r) recs = Some n" if "rec_resource ?r \<noteq> []"
    using named_unique [OF un n refl that] .
  ultimately show ?case using eq other by (auto simp: acc1_def Let_def)
qed

lemma leases_is:
  assumes "volume_is v recs"
  shows "\<exists>d. leases v = Inr d \<and> (\<forall>s. s \<noteq> [] \<longrightarrow>
    d s = map_option (\<lambda>n. (lease_offset n (lv_alignment v), rec_updating (recs ! n))) (named s recs))"
proof -
  have len: "length recs = MAX_RECORDS" by (rule volume_isD(7) [OF assms])
  obtain d where d: "leases v = Inr d" and eq: "\<And>s. d s = (if s \<noteq> [] \<and> (\<exists>n \<in> {0..<MAX_RECORDS}. rec_resource (recs ! n) = s)
       then (let n = the (named s recs) in Some (lease_offset n (lv_alignment v), rec_updating (recs ! n)))
       else None)"
    using leases_loop_is [OF assms, of "[0..<MAX_RECORDS]" Map.empty] by (auto simp: leases_def)
  have "d s = map_option (\<lambda>n. (lease_offset n (lv_alignment v), rec_updating (recs ! n))) (named s recs)"
    if "s \<noteq> []" for s
  proof (cases "named s recs")
    case None
    then have "\<not> (\<exists>n \<in> {0..<MAX_RECORDS}. rec_resource (recs ! n) = s)"
      using len by (auto simp: first_idx_None)
    then show ?thesis using None eq by auto
  next
    case (Some n)
    then have "n < MAX_RECORDS \<and> rec_resource (recs ! n) = s" using len by (simp add: first_idx_Some)
    then show ?thesis using Some eq [of s] that by (auto simp: Let_def)
  qed
  then show ?thesis using d by blast
qed

text \<open>
  C6. The listing and the lookup agree: \<open>leases\<close> succeeds, and for every name it reports
  exactly the offset that \<open>lookup\<close> returns, with the updating mark where \<open>lookup\<close> raises
  LeaseUpdating and nothing where it raises NoSuchLease.
\<close>

theorem leases_lookup:
  assumes "volume_inv v"
  shows "\<exists>d. leases v = Inr d \<and> (\<forall>s. valid_id s \<and> s \<noteq> [] \<longrightarrow>
    lookup v s =
      (case d s of
         None \<Rightarrow> Inl (NoSuchLease s)
       | Some (off, updating) \<Rightarrow>
           if updating then Inl (LeaseUpdating s)
           else Inr (LeaseInfo (lv_lockspace v) s (fname (lv_file v)) off)))"
proof -
  obtain recs where vi: "volume_is v recs" using assms by (auto simp: volume_inv_def)
  obtain d where "leases v = Inr d" and "\<And>s. s \<noteq> [] \<Longrightarrow>
      d s = map_option (\<lambda>n. (lease_offset n (lv_alignment v), rec_updating (recs ! n))) (named s recs)"
    using leases_is [OF vi] by blast
  then show ?thesis
    using lookup_is [OF vi] by (auto simp: lease_info_at_def split: option.split)
qed

lemma format_is:
  assumes "valid_id ls" and "0 \<le> t1" "t1 < 10 ^ 10" and "0 \<le> t2" "t2 < 10 ^ 10"
    and "valid_geometry al bs" and "wsched f = []" and "al + INDEX_SIZE \<le> length (content f)"
  obtains f' where "format_index ls al bs t1 t2 f = (Inr (), f')"
    "stored f' al (IndexMetadata INDEX_VERSION ls t2 False) (replicate MAX_RECORDS EMPTY_RECORD)"
    "wsched f' = []" "fname f' = fname f" "drop (al + INDEX_SIZE) (content f') = drop (al + INDEX_SIZE) (content f)"
    "length (content f') = length (content f)"
proof -
  let ?body = "\<lambda>ix. dump_after (write_records (map (\<lambda>n. (n, EMPTY_RECORD)) [0..<MAX_RECORDS]) ix)"
  show ?thesis
    using index_updating_stores [of ls t1 t2 al bs f "\<lambda>_. EMPTY_RECORD" ?body] assms that
    by (auto simp: format_index_def valid_lockspace map_replicate_const)
qed

text \<open>
  C7. Formatting a volume succeeds on working storage and gives an index that opens, has no
  lease and only free records; the areas of the leases are not touched.
\<close>

theorem format_then_open:
  assumes "valid_id ls" and "0 \<le> t1 \<and> t1 < 10 ^ 10" and "0 \<le> t2 \<and> t2 < 10 ^ 10"
    and "valid_geometry al bs" and "wsched f = []" and "al + INDEX_SIZE \<le> length (content f)"
  shows "\<exists>f' v. format_index ls al bs t1 t2 f = (Inr (), f') \<and> open_volume short f' al bs = Inr v \<and>
    volume_inv v \<and> lv_lockspace v = ls \<and> (\<forall>s. valid_id s \<and> s \<noteq> [] \<longrightarrow> lookup v s = Inl (NoSuchLease s)) \<and>
    find_free_record (lv_index v) = Inr (Some 0) \<and>
    drop (al + INDEX_SIZE) (content f') = drop (al + INDEX_SIZE) (content f)"
proof -
  let ?recs = "replicate MAX_RECORDS EMPTY_RECORD" and ?m = "IndexMetadata INDEX_VERSION ls t2 False"
  obtain f' where f': "format_index ls al bs t1 t2 f = (Inr (), f')" "stored f' al ?m ?recs"
    "drop (al + INDEX_SIZE) (content f') = drop (al + INDEX_SIZE) (content f)"
    by (rule format_is [of ls t1 t2 al bs f]) (use assms in auto)
  have wf: "wf_records ?recs" by (simp add: wf_records_def list_all_iff)
  obtain v where v: "open_volume short f' al bs = Inr v" "volume_is v ?recs" "lv_md v = ?m"
    by (rule open_is [OF f'(2) _ wf _ unique_replicate assms(4), of short]) (use assms in \<open>auto simp: valid_lockspace\<close>)
  have "named s ?recs = None" if "s \<noteq> []" for s using that by (simp add: first_idx_None EMPTY_RECORD_def)
  then have "lookup v s = Inl (NoSuchLease s)" if "valid_id s" "s \<noteq> []" for s
    using that lookup_is [OF v(2)] by simp
  moreover have "first_idx (\<lambda>r. r = EMPTY_RECORD) ?recs = Some 0"
    by (simp add: first_idx_Some xlease_consts)
  then have "find_free_record (lv_index v) = Inr (Some 0)" using volume_free [OF v(2)] by simp
  ultimately show ?thesis using f' v by (auto simp: volume_inv_def lv_lockspace_def)
qed

subsection \<open>Rebuilding\<close>

text \<open>
  The record that storage calls for in a slot: empty past the end of the file and where
  sanlock finds no resource, and the resource it finds otherwise.
\<close>

definition slot_resource :: "sanlock_api \<Rightarrow> nat \<Rightarrow> nat \<Rightarrow> bytes \<Rightarrow> nat \<Rightarrow> xlease_error + lease_record" where
  "slot_resource sl al bs c n =
     (let off = lease_offset n al in
      if length c < off + al then Inr EMPTY_RECORD
      else case read_resource sl off al bs c of
             Inl (NoSuchResource _) \<Rightarrow> Inr EMPTY_RECORD
           | Inl e \<Rightarrow> Inl e
           | Inr (_, res, _) \<Rightarrow> Inr (Record res (int off) False))"

lemma rebuild_loop_Cons:
  "rebuild_loop sl al bs c (n # ns) ix =
    rbind (slot_resource sl al bs c n) (\<lambda>r. rbind (write_record n r ix) (rebuild_loop sl al bs c ns))"
proof -
  have "(int (length c) - int al < int (lease_offset n al)) = (length c < lease_offset n al + al)" by linarith
  then show ?thesis
    by (auto simp: slot_resource_def Let_def split: sum.splits xlease_error.splits)
qed

lemma rebuild_loop_writes:
  assumes "\<And>n. n \<in> set ns \<Longrightarrow> slot_resource sl al bs c n = Inr (g n)"
  shows "rebuild_loop sl al bs c ns ix = write_records (map (\<lambda>n. (n, g n)) ns) ix"
  using assms
proof (induction ns arbitrary: ix)
  case (Cons n ns)
  have "rebuild_loop sl al bs c ns = write_records (map (\<lambda>n. (n, g n)) ns)"
    using Cons.IH Cons.prems by auto
  then show ?case using Cons.prems [of n] by (simp add: rebuild_loop_Cons del: rebuild_loop.simps)
qed simp

lemma rebuild_loop_error:
  assumes "valid_metadata m" and "n < MAX_RECORDS" and "slot_resource sl al bs c n = Inl e"
    and g: "\<And>k. k < n \<Longrightarrow> slot_resource sl al bs c k = Inr (g k) \<and> valid_record (g k)"
    and "i \<le> n" and "filled ix m g i"
  shows "rebuild_loop sl al bs c [i..<MAX_RECORDS] ix = Inl e"
  using assms(5,6)
proof (induction "n - i" arbitrary: i ix)
  case 0
  then have "i = n" by simp
  then show ?case using assms(2,3) by (simp add: upt_conv_Cons rebuild_loop_Cons del: rebuild_loop.simps)
next
  case (Suc d)
  then have i: "i < n" "i < MAX_RECORDS" using assms(2) by auto
  obtain ix1 where w: "write_record i (g i) ix = Inr ix1" "filled ix1 m g (Suc i)"
    using filled_step [OF Suc(4) assms(1) _ i(2)] g i(1) by fastforce
  have "rebuild_loop sl al bs c [Suc i..<MAX_RECORDS] ix1 = Inl e"
    using Suc(1) [of "Suc i" ix1] w(2) Suc(2) i(1) by force
  then show ?case
    using g [OF i(1)] w(1) by (simp add: upt_conv_Cons [OF i(2)] rebuild_loop_Cons del: rebuild_loop.simps)
qed

lemma slot_resource_record:
  assumes "slot_resource sl al bs data n = Inr r" and "valid_id (rec_resource r)" and "n < MAX_RECORDS" and "valid_geometry al bs"
  shows "valid_record r \<and> \<not> rec_updating r"
proof -
  have "r = EMPTY_RECORD \<or> (\<exists>res. r = Record res (int (lease_offset n al)) False)"
    using assms(1) unfolding slot_resource_def by (auto simp: Let_def split: if_splits sum.splits xlease_error.splits)
  moreover have "\<not> rec_updating EMPTY_RECORD" by (simp add: EMPTY_RECORD_def)
  ultimately show ?thesis using assms(2) valid_lease_record [OF _ assms(3,4)] by auto
qed

text \<open>When no record is being updated, a name is found exactly in the record that has it.\<close>

lemma lookup_records:
  assumes "volume_is v recs" and "unique_names recs" and "\<forall>r \<in> set recs. \<not> rec_updating r" and "valid_id s" and "s \<noteq> []"
  shows "lookup v s = Inr i \<longleftrightarrow> (\<exists>n < length recs. rec_resource (recs ! n) = s \<and> i = lease_info_at v s n)"
proof -
  have at: "named s recs = Some n \<longleftrightarrow> n < length recs \<and> rec_resource (recs ! n) = s" for n
    using named_unique [OF assms(2), of n s] assms(5) by (auto simp: first_idx_Some)
  show ?thesis
  proof (cases "named s recs")
    case None
    then have "\<not> (\<exists>n < length recs. rec_resource (recs ! n) = s)" using at by simp
    moreover have "lookup v s = Inl (NoSuchLease s)" using lookup_is [OF assms(1,4)] None by simp
    ultimately show ?thesis by auto
  next
    case (Some a)
    then have "recs ! a \<in> set recs" using at [of a] by simp
    then have "lookup v s = Inr (lease_info_at v s a)" using lookup_is [OF assms(1,4)] Some assms(3) by simp
    moreover have "(\<exists>n < length recs. rec_resource (recs ! n) = s \<and> i = lease_info_at v s n) \<longleftrightarrow> i = lease_info_at v s a"
      using at Some by (metis option.inject)
    ultimately show ?thesis by auto
  qed
qed

text \<open>
  C8. Rebuilding restores exactly what sanlock has on storage: when sanlock answers for every
  slot and no name occurs twice, the rebuilt index opens, and it looks up a name precisely
  when some slot holds that resource, at the offset of that slot.
\<close>

theorem rebuild_restores_resources:
  assumes "valid_id ls" and "0 \<le> t1 \<and> t1 < 10 ^ 10" and "0 \<le> t2 \<and> t2 < 10 ^ 10"
    and "valid_geometry al bs" and "wsched f = []" and "al + INDEX_SIZE \<le> length (content f)"
    and slots: "\<And>n. n < MAX_RECORDS \<Longrightarrow> slot_resource sl al bs (content f) n = Inr (g n) \<and> valid_id (rec_resource (g n))"
    and uniq: "unique_names (map g [0..<MAX_RECORDS])"
  shows "\<exists>f' v. rebuild_index sl ls al bs t1 t2 f = (Inr (), f') \<and> open_volume short f' al bs = Inr v \<and>
    volume_inv v \<and>
    (\<forall>s. valid_id s \<and> s \<noteq> [] \<longrightarrow>
       (\<forall>info. lookup v s = Inr info \<longleftrightarrow>
          (\<exists>n < MAX_RECORDS. rec_resource (g n) = s \<and> info = LeaseInfo ls s (fname f) (lease_offset n al))))"
proof -
  let ?recs = "map g [0..<MAX_RECORDS]" and ?m = "IndexMetadata INDEX_VERSION ls t2 False"
  let ?body = "\<lambda>ix. dump_after (rebuild_loop sl al bs (content f) [0..<MAX_RECORDS] ix)"
  have rec: "valid_record (g n) \<and> \<not> rec_updating (g n)" if "n < MAX_RECORDS" for n
    using slot_resource_record [OF _ _ that assms(4)] slots [OF that] by blast
  have body: "?body ix = dump_after (write_records (map (\<lambda>n. (n, g n)) [0..<MAX_RECORDS]) ix)" for ix
    using rebuild_loop_writes [of "[0..<MAX_RECORDS]" sl al bs "content f" g ix] slots by simp
  obtain f' where f': "rebuild_index sl ls al bs t1 t2 f = (Inr (), f')" "stored f' al ?m ?recs" "fname f' = fname f"
    using index_updating_stores [of ls t1 t2 al bs f g ?body] assms(1-6) rec body
    by (auto simp: rebuild_index_def valid_lockspace)
  have wf: "wf_records ?recs" using rec by (simp add: wf_records_def list_all_iff)
  obtain v where v: "open_volume short f' al bs = Inr v" "volume_is v ?recs" "lv_file v = f'" "lv_md v = ?m"
    "lv_alignment v = al"
    by (rule open_is [OF f'(2) _ wf _ uniq assms(4), of short]) (use assms in \<open>auto simp: valid_lockspace\<close>)
  have info: "lease_info_at v s n = LeaseInfo ls s (fname f) (lease_offset n al)" for s n
    using v f'(3) by (simp add: lease_info_at_def lv_lockspace_def)
  have lk: "lookup v s = Inr i \<longleftrightarrow> (\<exists>n < MAX_RECORDS. rec_resource (g n) = s \<and> i = LeaseInfo ls s (fname f) (lease_offset n al))"
    if s: "valid_id s" "s \<noteq> []" for s i
    using lookup_records [OF v(2) uniq _ s, of i] rec by (auto simp: info)
  show ?thesis
  proof (intro exI conjI allI impI)
    show "rebuild_index sl ls al bs t1 t2 f = (Inr (), f')" "open_volume short f' al bs = Inr v" by (fact f'(1) v(1))+
    show "volume_inv v" using v(2) by (auto simp: volume_inv_def)
  qed (simp add: lk)
qed


end
