(* ===== verification/Xlease_Faults.thy ===== *)
theory Xlease_Faults
  imports Xlease_Format
begin

text \<open>
  What \<open>add\<close> and \<open>remove\<close> leave on storage when a step of them fails, for storage that writes a
  block as a whole or not at all, and when they cannot fail.
\<close>

subsection \<open>Reopening after one changed record\<close>

lemma reopen_changed:
  assumes vi: "volume_is v recs" and st: "stored f (lv_alignment v) (lv_md v) (recs[n := r])"
    and fn: "fname f = fname (lv_file v)" and n: "n < MAX_RECORDS" and r: "valid_record r"
    and un: "unique_names (recs[n := r])"
    and names: "rec_resource r = s \<or> rec_resource r = []" "rec_resource (recs ! n) = s \<or> rec_resource (recs ! n) = []"
  obtains w where "open_volume short f (lv_alignment v) (lv_block_size v) = Inr w"
    "volume_is w (recs[n := r])" "same_volume v w"
    "\<And>t. valid_id t \<Longrightarrow> t \<noteq> [] \<Longrightarrow> t \<noteq> s \<Longrightarrow> lookup w t = lookup v t"
proof -
  have wf: "wf_records (recs[n := r])" by (rule wf_records_update [OF volume_isD(6) [OF vi] r])
  obtain w where w: "open_volume short f (lv_alignment v) (lv_block_size v) = Inr w"
    "volume_is w (recs[n := r])" "lv_file w = f" "lv_md w = lv_md v" "lv_alignment w = lv_alignment v"
    "lv_block_size w = lv_block_size v"
    by (rule reopen [OF vi st wf un])
  have sv: "same_volume v w" using w fn by (simp add: same_volume_def)
  show ?thesis
    by (rule that [OF w(1,2) sv], rule lookup_after_write [OF vi w(2) sv n]) (use names in auto)
qed

subsection \<open>A failed add\<close>

lemma add_failed:
  assumes vi: "volume_is v recs" and id: "valid_id s" and ne: "s \<noteq> []" and sl: "sanlock_local sl"
    and at: "atomic_blocks (lv_block_size v) (lv_file v)" and step: "add sl s v = (Inl e, v')"
  shows "fname (lv_file v') = fname (lv_file v) \<and>
    (stored (lv_file v') (lv_alignment v) (lv_md v) recs \<and> (\<forall>k. e \<noteq> SanlockException k) \<or>
     (\<exists>n u. named s recs = None \<and> first_idx (\<lambda>r. r = EMPTY_RECORD) recs = Some n \<and> (\<not> u \<longrightarrow> e = OSError) \<and>
        stored (lv_file v') (lv_alignment v) (lv_md v)
          (recs[n := Record s (int (lease_offset n (lv_alignment v))) u])))"
proof (cases "v' = v \<and> (\<forall>k. e \<noteq> SanlockException k)")
  case True
  then show ?thesis using volume_isD(3) [OF vi] by simp
next
  case False
  then have nm: "named s recs = None"
    using step by (auto simp: add_cases [OF vi id] split: option.splits if_splits)
  then obtain n where n: "first_idx (\<lambda>r. r = EMPTY_RECORD) recs = Some n"
    using step False by (auto simp: add_cases [OF vi id] split: option.splits)
  define off where "off = lease_offset n (lv_alignment v)"
  define u where "u = Record s (int off) True"
  define w where "w = Record s (int off) False"
  have lt: "n < MAX_RECORDS" and emp: "rec_resource (recs ! n) = []" using free_slot [OF vi n] by auto
  have val: "valid_record u" "valid_record w"
    using valid_lease_record [OF id lt volume_isD(1) [OF vi]] by (simp_all add: u_def w_def off_def)
  have len: "length recs = MAX_RECORDS" by (rule volume_isD(7) [OF vi])
  have un1: "unique_names (recs[n := u])"
    using unique_names_update [OF volume_isD(4) [OF vi], of n u] nm lt len by (simp add: u_def)
  have run: "obind (volume_write_record n u) (\<lambda>_.
      obind (write_resource sl (lv_lockspace v) s off) (\<lambda>_.
        obind (volume_write_record n w) (\<lambda>_. ret (lease_info_at v s n)))) v = (Inl e, v')"
    using step nm n by (simp add: add_cases [OF vi id] Let_def off_def u_def w_def)
  obtain r1 v1 where s1: "volume_write_record n u v = (r1, v1)" by fastforce
  note a1 = volume_write_atomic [OF vi lt val(1) at s1]
  show ?thesis
  proof (cases r1)
    case (Inl e1)
    then have "e1 = e" "v1 = v'" using run s1 by (simp_all add: obind_def)
    then show ?thesis using a1 Inl nm n by (auto simp: same_volume_def u_def off_def)
  next
    case (Inr x)
    have v1: "volume_is v1 (recs[n := u])" "same_volume v v1"
      using volume_write_ok [OF vi lt val(1) un1] s1 Inr by blast+
    obtain r2 v2 where s2: "write_resource sl (lv_lockspace v) s off v1 = (r2, v2)" by fastforce
    have v2: "volume_is v2 (recs[n := u])" "same_volume v1 v2" "wsched (lv_file v2) = wsched (lv_file v1)"
      using write_resource_is [OF v1(1) sl _ s2, of n] v1(2) by (auto simp: off_def same_volume_def)
    have sv: "same_volume v v2" by (rule same_volume_trans [OF v1(2) v2(2)])
    show ?thesis
    proof (cases r2)
      case (Inl e2)
      then have "v2 = v'" using run s1 s2 Inr by (simp add: obind_def)
      then show ?thesis using volume_isD(3) [OF v2(1)] sv nm n by (auto simp: same_volume_def u_def off_def)
    next
      case r2: (Inr y)
      then have s3: "volume_write_record n w v2 = (Inl e, v')"
        using run s1 s2 Inr by (auto simp: obind_def ret_def split: prod.splits sum.splits)
      have "atomic_blocks (lv_block_size v2) (lv_file v2)"
        using a1 v2(3) sv by (simp add: same_volume_def atomic_blocks_def)
      note a3 = volume_write_atomic [OF v2(1) lt val(2) this s3]
      then show ?thesis using sv nm n by (auto simp: same_volume_def u_def w_def off_def)
    qed
  qed
qed


subsection \<open>When add succeeds\<close>

text \<open>Sanlock that does not fail inside the file.\<close>

definition sanlock_works :: "sanlock_api \<Rightarrow> bool" where
  "sanlock_works sl \<longleftrightarrow>
     (\<forall>ls res off al bs c. 512 \<le> al \<and> off + al \<le> length c \<longrightarrow> fst (sl_write sl ls res off al bs c) = Inr ())"

lemma volume_write_succeeds:
  assumes vi: "volume_is v recs" and n: "n < MAX_RECORDS" and r: "valid_record r" and ws: "wsched (lv_file v) = []"
  obtains v' where "volume_write_record n r v = (Inr (), v')" "wsched (lv_file v') = []"
    "length (content (lv_file v')) = length (content (lv_file v))"
proof -
  obtain off blk where eq: "volume_write_record n r v =
      (case pwrite off blk (lv_file v) of
         (Inl e, f) \<Rightarrow> (Inl e, v\<lparr>lv_file := f\<rparr>)
       | (Inr _, f) \<Rightarrow> (Inr (), v\<lparr>lv_file := f,
           lv_index := (lv_index v)\<lparr>ix_buf := index_image (lv_md v) (recs[n := r])\<rparr>\<rparr>))"
    and fits: "off + length blk \<le> length (content (lv_file v))"
    by (rule volume_write_record_eq [OF vi n r])
  have "pwrite off blk (lv_file v) = (Inr (), (lv_file v)\<lparr>content := overwrite (content (lv_file v)) off blk\<rparr>)"
    by (rule pwrite_ok [OF ws]) (use fits in simp)
  then show ?thesis using eq that ws fits by simp
qed

lemma sanlock_write_works:
  assumes vi: "volume_is v recs" and sl: "sanlock_local sl" "sanlock_works sl" and ws: "wsched (lv_file v) = []"
    and off: "off = lease_offset n (lv_alignment v)" and fits: "off + lv_alignment v \<le> length (content (lv_file v))"
  obtains v' where "write_resource sl ls res off v = (Inr (), v')" "volume_is v' recs" "wsched (lv_file v') = []"
proof -
  have "512 \<le> lv_alignment v" using volume_isD(1) [OF vi] by (auto simp: valid_geometry_def)
  then have "fst (sl_write sl ls res off (lv_alignment v) (lv_block_size v) (content (lv_file v))) = Inr ()"
    using sl(2) fits unfolding sanlock_works_def by simp
  then obtain v' where v': "write_resource sl ls res off v = (Inr (), v')"
    by (cases "sl_write sl ls res off (lv_alignment v) (lv_block_size v) (content (lv_file v))")
      (auto simp: write_resource_def)
  then show ?thesis using that write_resource_is [OF vi sl(1) off v'] ws by simp
qed

lemma record_then_resource:
  assumes vi: "volume_is v recs" and n: "n < MAX_RECORDS" and r: "valid_record r" "unique_names (recs[n := r])"
    and sl: "sanlock_local sl" "sanlock_works sl" and ws: "wsched (lv_file v) = []"
    and fits: "lease_offset n (lv_alignment v) + lv_alignment v \<le> length (content (lv_file v))"
    and last: "valid_record q"
  obtains v1 v2 v3 where "volume_write_record n r v = (Inr (), v1)"
    "write_resource sl ls res (lease_offset n (lv_alignment v)) v1 = (Inr (), v2)"
    "volume_write_record n q v2 = (Inr (), v3)"
proof -
  obtain v1 where s1: "volume_write_record n r v = (Inr (), v1)" "wsched (lv_file v1) = []"
    "length (content (lv_file v1)) = length (content (lv_file v))"
    by (rule volume_write_succeeds [OF vi n r(1) ws])
  have v1: "volume_is v1 (recs[n := r])" "same_volume v v1" using volume_write_ok [OF vi n r s1(1)] by auto
  have al: "lv_alignment v1 = lv_alignment v" using v1(2) by (simp add: same_volume_def)
  obtain v2 where s2: "write_resource sl ls res (lease_offset n (lv_alignment v)) v1 = (Inr (), v2)"
    "volume_is v2 (recs[n := r])" "wsched (lv_file v2) = []"
    by (rule sanlock_write_works [OF v1(1) sl s1(2), of _ n ls res, unfolded al, OF refl])
      (use fits s1(3) in simp)
  obtain v3 where "volume_write_record n q v2 = (Inr (), v3)"
    by (rule volume_write_succeeds [OF s2(2) n last s2(3)])
  then show ?thesis using that s1(1) s2(1) by blast
qed

lemma add_works:
  assumes vi: "volume_is v recs" and id: "valid_id s" and sl: "sanlock_local sl" "sanlock_works sl"
    and ws: "wsched (lv_file v) = []" and nm: "named s recs = None"
    and n: "first_idx (\<lambda>r. r = EMPTY_RECORD) recs = Some n"
    and fits: "lease_offset n (lv_alignment v) + lv_alignment v \<le> length (content (lv_file v))"
  obtains v' where "add sl s v = (Inr (lease_info_at v s n), v')"
proof -
  define off where "off = lease_offset n (lv_alignment v)"
  have lt: "n < MAX_RECORDS" using free_slot [OF vi n] by simp
  have val: "valid_record (Record s (int off) u)" for u
    using valid_lease_record [OF id lt volume_isD(1) [OF vi]] by (simp add: off_def)
  have un: "unique_names (recs[n := Record s (int off) True])"
    using unique_names_update [OF volume_isD(4) [OF vi], of n "Record s (int off) True"] nm lt
      volume_isD(7) [OF vi] by simp
  obtain v1 v2 v3 where "volume_write_record n (Record s (int off) True) v = (Inr (), v1)"
    "write_resource sl (lv_lockspace v) s off v1 = (Inr (), v2)"
    "volume_write_record n (Record s (int off) False) v2 = (Inr (), v3)"
    by (rule record_then_resource [OF vi lt val un sl ws fits val, folded off_def])
  then have "add sl s v = (Inr (lease_info_at v s n), v3)"
    using nm n by (simp add: add_cases [OF vi id] Let_def obind_def ret_def off_def)
  then show ?thesis by (rule that)
qed

lemma remove_works:
  assumes vi: "volume_is v recs" and id: "valid_id s" and sl: "sanlock_local sl" "sanlock_works sl"
    and ws: "wsched (lv_file v) = []" and nm: "named s recs = Some n"
    and fits: "lease_offset n (lv_alignment v) + lv_alignment v \<le> length (content (lv_file v))"
  obtains v' where "remove sl s v = (Inr (), v')"
proof -
  define off where "off = lease_offset n (lv_alignment v)"
  have lt: "n < MAX_RECORDS" and res: "rec_resource (recs ! n) = s"
    using nm volume_isD(7) [OF vi] by (auto simp: first_idx_Some)
  have val: "valid_record (Record s (int off) True)"
    using valid_lease_record [OF id lt volume_isD(1) [OF vi]] by (simp add: off_def)
  have un: "unique_names (recs[n := Record s (int off) True])"
    using unique_names_update [OF volume_isD(4) [OF vi], of n "Record s (int off) True"] res lt
      volume_isD(7) [OF vi] by simp
  obtain v1 v2 v3 where "volume_write_record n (Record s (int off) True) v = (Inr (), v1)"
    "write_resource sl [] [] off v1 = (Inr (), v2)" "volume_write_record n EMPTY_RECORD v2 = (Inr (), v3)"
    by (rule record_then_resource [OF vi lt val un sl ws fits valid_EMPTY, folded off_def])
  then have "remove sl s v = (Inr (), v3)"
    using nm by (simp add: remove_cases [OF vi id] Let_def obind_def off_def)
  then show ?thesis by (rule that)
qed

text \<open>
  C10. On working storage and with a working sanlock, adding a name that is not in use succeeds
  whenever a record is free and the volume is large enough to hold its area.
\<close>

theorem add_succeeds:
  assumes "volume_inv v" and "valid_id s" and "sanlock_local sl" and "sanlock_works sl"
    and "wsched (lv_file v) = []" and "lookup v s = Inl (NoSuchLease s)"
    and "find_free_record (lv_index v) = Inr (Some n)"
    and "lease_offset n (lv_alignment v) + lv_alignment v \<le> length (content (lv_file v))"
  shows "\<exists>v'. add sl s v =
    (Inr (LeaseInfo (lv_lockspace v) s (fname (lv_file v)) (lease_offset n (lv_alignment v))), v')"
proof -
  obtain recs where vi: "volume_is v recs" using assms(1) by (auto simp: volume_inv_def)
  have nm: "named s recs = None"
    using assms(6) lookup_is [OF vi assms(2)] by (auto split: option.splits if_splits)
  have n: "first_idx (\<lambda>r. r = EMPTY_RECORD) recs = Some n" using assms(7) volume_free [OF vi] by simp
  obtain v' where "add sl s v = (Inr (lease_info_at v s n), v')"
    by (rule add_works [OF vi assms(2-5) nm n assms(8)])
  then show ?thesis by (simp add: lease_info_at_def)
qed

end
