(* ===== verification/Xlease_Samples.thy ===== *)
theory Xlease_Samples
  imports Xlease_Faults
begin

text \<open>
  Concrete volumes, a concrete sanlock, and the theorems on the leases volume applied to them.
\<close>

subsection \<open>A sample volume\<close>

text \<open>
  A sanlock that keeps the two names of a resource at the start of its area, and volumes
  with given records and write schedules, to apply the theorems to.
\<close>

definition sample_sanlock :: sanlock_api where
  "sample_sanlock = \<lparr>
     sl_write = \<lambda>ls res off al bs c.
       if 96 \<le> al \<and> off + al \<le> length c then (Inr (), overwrite c off (pack_s 48 ls @ pack_s 48 res)) else (Inl (-22), c),
     sl_read = \<lambda>off al bs c.
       if off + 96 \<le> length c \<and> c ! off \<noteq> NUL
       then Inr (unpack_s (slice off (off + 48) c), unpack_s (slice (off + 48) (off + 96) c), 0)
       else Inl SANLK_LEADER_MAGIC\<rparr>"

lemma sample_sanlock_ok: "sanlock_local sample_sanlock" "sanlock_works sample_sanlock"
proof -
  have "length (pack_s 48 a @ pack_s 48 b) = 96" for a b by simp
  then show "sanlock_local sample_sanlock"
    by (auto simp: sanlock_local_def sample_sanlock_def take_overwrite drop_overwrite)
  show "sanlock_works sample_sanlock" by (auto simp: sanlock_works_def sample_sanlock_def)
qed

definition sample_md :: index_metadata where
  "sample_md = IndexMetadata INDEX_VERSION ''sd'' 0 False"

definition sample_file :: "lease_record list \<Rightarrow> nat option list \<Rightarrow> leases_file" where
  "sample_file recs sched = \<lparr>fname = ''/rhev/xleases'',
     content = replicate (2 ^ 20) NUL @ index_image sample_md recs @ replicate (2 ^ 22) NUL,
     wsched = sched\<rparr>"

definition sample_volume :: "lease_record list \<Rightarrow> nat option list \<Rightarrow> leases_volume" where
  "sample_volume recs sched = \<lparr>lv_file = sample_file recs sched, lv_alignment = 2 ^ 20, lv_block_size = 512,
     lv_index = \<lparr>ix_offset = 2 ^ 20, ix_block_size = 512, ix_buf = index_image sample_md recs\<rparr>,
     lv_md = sample_md\<rparr>"

definition no_leases :: "lease_record list" where
  "no_leases = replicate MAX_RECORDS EMPTY_RECORD"

definition two_leases :: "lease_record list" where
  "two_leases = no_leases[0 := Record ''a'' (int (lease_offset 0 (2 ^ 20))) False,
                          1 := Record ''b'' (int (lease_offset 1 (2 ^ 20))) False]"

lemma valid_id_names [simp]: "valid_id ''sd''" "valid_id ''a''" "valid_id ''b''"
  by (simp_all add: valid_id_def ascii_def)

lemma sample_md_ok [simp]: "valid_metadata sample_md" "\<not> md_updating sample_md" "md_lockspace sample_md = ''sd''"
  by (simp_all add: sample_md_def valid_lockspace)

lemma no_leases_ok: "wf_records no_leases" "unique_names no_leases" "length no_leases = MAX_RECORDS"
  "named ''a'' no_leases = None" "first_idx (\<lambda>r. r = EMPTY_RECORD) no_leases = Some 0"
  by (simp_all add: no_leases_def wf_records_def list_all_iff unique_replicate first_idx_None first_idx_Some
      xlease_consts) (simp add: EMPTY_RECORD_def)

lemma two_leases_ok: "wf_records two_leases" "unique_names two_leases" "length two_leases = MAX_RECORDS"
  "named ''a'' two_leases = Some 0" "named ''b'' two_leases = Some 1"
proof -
  let ?a = "Record ''a'' (int (lease_offset 0 (2 ^ 20))) False" and ?b = "Record ''b'' (int (lease_offset 1 (2 ^ 20))) False"
  have lt: "0 < MAX_RECORDS" "1 < MAX_RECORDS" by (simp_all add: xlease_consts)
  have geo: "valid_geometry (2 ^ 20) 512" by (simp add: valid_geometry_def)
  have val: "valid_record ?a" "valid_record ?b" by (rule valid_lease_record [OF _ _ geo]; simp add: lt [simplified])+
  show wf: "wf_records two_leases" unfolding two_leases_def by (intro wf_records_update no_leases_ok(1) val)
  show len: "length two_leases = MAX_RECORDS" by (simp add: two_leases_def no_leases_ok)
  have u1: "unique_names (no_leases[0 := ?a])"
    by (rule unique_names_update) (use no_leases_ok lt in simp_all)
  have b: "named ''b'' (no_leases[0 := ?a]) = None"
    using named_update_other [of 0 no_leases ?a "''b''"] lt no_leases_ok
    by (simp add: no_leases_def first_idx_None EMPTY_RECORD_def)
  show un: "unique_names two_leases" unfolding two_leases_def
    by (rule unique_names_update [OF u1]) (use b lt no_leases_ok in simp_all)
  show "named ''a'' two_leases = Some 0" "named ''b'' two_leases = Some 1"
    by (rule named_unique [OF un]; use lt len no_leases_ok in \<open>simp add: two_leases_def\<close>)+
qed

lemma sample_volume_is:
  assumes "wf_records recs" and "unique_names recs"
  shows "volume_is (sample_volume recs sched) recs"
    "3 * 2 ^ 20 + 2 ^ 20 + 2 ^ 20 \<le> length (content (lv_file (sample_volume recs sched)))"
proof -
  have len: "length (index_image sample_md recs) = INDEX_SIZE" using length_index_image assms(1) by simp
  then have "stored (sample_file recs sched) (2 ^ 20) sample_md recs"
    by (simp add: stored_def sample_file_def slice_def)
  then show "volume_is (sample_volume recs sched) recs"
    using assms by (simp add: volume_is_def sample_volume_def index_is_def valid_geometry_def)
  show "3 * 2 ^ 20 + 2 ^ 20 + 2 ^ 20 \<le> length (content (lv_file (sample_volume recs sched)))"
    using len by (simp add: sample_volume_def sample_file_def)
qed

subsection \<open>The theorems on the sample volume\<close>

lemmas sample_empty = sample_volume_is [OF no_leases_ok(1,2)]
lemmas sample_two = sample_volume_is [OF two_leases_ok(1,2)]

lemma sample_fields [simp]:
  "lv_alignment (sample_volume recs sched) = 2 ^ 20" "lv_block_size (sample_volume recs sched) = 512"
  "wsched (lv_file (sample_volume recs sched)) = sched" "lv_lockspace (sample_volume recs sched) = ''sd''"
  by (simp_all add: sample_volume_def sample_file_def lv_lockspace_def)

lemma sample_inv: "volume_inv (sample_volume no_leases sched)" "volume_inv (sample_volume two_leases sched)"
  using sample_empty sample_two by (auto simp: volume_inv_def)

lemma sample_add: obtains info v' where "add sample_sanlock ''a'' (sample_volume no_leases []) = (Inr info, v')"
  by (rule add_works [OF sample_empty(1) _ sample_sanlock_ok _ no_leases_ok(4,5)])
    (use sample_empty(2) [of "[]"] that in \<open>auto simp: lease_offset_def RESERVED_SLOTS_def\<close>)

lemma sample_remove: obtains v' where "remove sample_sanlock ''a'' (sample_volume two_leases []) = (Inr (), v')"
  by (rule remove_works [OF sample_two(1) _ sample_sanlock_ok _ two_leases_ok(4)])
    (use sample_two(2) [of "[]"] that in \<open>auto simp: lease_offset_def RESERVED_SLOTS_def\<close>)

lemma two_leases_at: "two_leases ! 0 = Record ''a'' (int (lease_offset 0 (2 ^ 20))) False"
  "two_leases ! Suc 0 = Record ''b'' (int (lease_offset 1 (2 ^ 20))) False"
  using no_leases_ok(3) by (simp_all add: two_leases_def xlease_consts)

lemma sample_lookup:
  "lookup (sample_volume two_leases sched) ''a'' = Inr (LeaseInfo ''sd'' ''a'' ''/rhev/xleases'' (lease_offset 0 (2 ^ 20)))"
  "lookup (sample_volume two_leases sched) ''b'' = Inr (LeaseInfo ''sd'' ''b'' ''/rhev/xleases'' (lease_offset 1 (2 ^ 20)))"
  using lookup_is [OF sample_two(1)] two_leases_ok(4,5) two_leases_at
  by (simp_all add: lease_info_at_def) (simp_all add: sample_volume_def sample_file_def)

theorem add_lease_witness:
  "\<exists>info v'. add sample_sanlock ''a'' (sample_volume no_leases []) = (Inr info, v') \<and>
    volume_inv v' \<and> lookup v' ''a'' = Inr info"
proof -
  obtain info v' where "add sample_sanlock ''a'' (sample_volume no_leases []) = (Inr info, v')" by (rule sample_add)
  then show ?thesis using add_lease [OF sample_inv(1) _ _ sample_sanlock_ok(1), of "''a''" "[]" info v'] by auto
qed

theorem remove_lease_witness:
  "\<exists>v'. remove sample_sanlock ''a'' (sample_volume two_leases []) = (Inr (), v') \<and>
    volume_inv v' \<and> lookup v' ''a'' = Inl (NoSuchLease ''a'') \<and>
    lookup v' ''b'' = lookup (sample_volume two_leases []) ''b''"
proof -
  obtain v' where "remove sample_sanlock ''a'' (sample_volume two_leases []) = (Inr (), v')" by (rule sample_remove)
  then show ?thesis using remove_lease [OF sample_inv(2) _ _ sample_sanlock_ok(1), of "''a''" "[]" "()" v'] by auto
qed

theorem leases_disjoint_witness:
  "lease_offset 0 (2 ^ 20) + 2 ^ 20 \<le> lease_offset 1 (2 ^ 20) \<or> lease_offset 1 (2 ^ 20) + 2 ^ 20 \<le> lease_offset 0 (2 ^ 20)"
  using leases_disjoint [OF sample_inv(2) _ _ _ _ _ sample_lookup] by simp

theorem reopen_same_leases_witness:
  "\<exists>w. open_volume (\<lambda>_. 7) (lv_file (sample_volume two_leases [])) (2 ^ 20) 512 = Inr w \<and>
    lookup w ''a'' = Inr (LeaseInfo ''sd'' ''a'' ''/rhev/xleases'' (lease_offset 0 (2 ^ 20)))"
  using reopen_same_leases [OF sample_inv(2) [of "[]"], of "\<lambda>_. 7"] sample_lookup(1) [of "[]"] by auto

theorem leases_lookup_witness:
  "\<exists>d. leases (sample_volume two_leases []) = Inr d \<and> d ''b'' = Some (lease_offset 1 (2 ^ 20), False)"
proof -
  obtain d where "leases (sample_volume two_leases []) = Inr d" and
    "lookup (sample_volume two_leases []) ''b'' =
      (case d ''b'' of None \<Rightarrow> Inl (NoSuchLease ''b'')
       | Some (off, updating) \<Rightarrow> if updating then Inl (LeaseUpdating ''b'')
           else Inr (LeaseInfo (lv_lockspace (sample_volume two_leases [])) ''b'' (fname (lv_file (sample_volume two_leases []))) off))"
    using leases_lookup [OF sample_inv(2) [of "[]"]] valid_id_names(3) by blast
  then show ?thesis using sample_lookup(2) [of "[]"] by (auto split: option.splits if_splits prod.splits)
qed

definition blank_file :: leases_file where
  "blank_file = \<lparr>fname = ''/rhev/xleases'', content = replicate (2 ^ 22) NUL, wsched = []\<rparr>"

theorem format_then_open_witness:
  "\<exists>f' v. format_index ''sd'' (2 ^ 20) 512 1 2 blank_file = (Inr (), f') \<and>
    open_volume (\<lambda>_. 1) f' (2 ^ 20) 512 = Inr v \<and> lookup v ''a'' = Inl (NoSuchLease ''a'')"
  using format_then_open [of "''sd''" 1 2 "2 ^ 20" 512 blank_file "\<lambda>_. 1"]
  by (auto simp: valid_geometry_def blank_file_def INDEX_SIZE_def)

definition resource_file :: leases_file where
  "resource_file = \<lparr>fname = ''/rhev/xleases'',
     content = replicate (3 * 2 ^ 20) NUL @ pack_s 48 ''sd'' @ pack_s 48 ''a'' @ replicate (2 ^ 21) NUL, wsched = []\<rparr>"

definition resource_record :: "nat \<Rightarrow> lease_record" where
  "resource_record n = (if n = 0 then Record ''a'' (int (lease_offset 0 (2 ^ 20))) False else EMPTY_RECORD)"

lemma resource_slots:
  "slot_resource sample_sanlock (2 ^ 20) 512 (content resource_file) n = Inr (resource_record n)"
proof (cases "n = 0")
  case True
  have "unpack_s (pack_s 48 ''a'') = ''a''" "unpack_s (pack_s 48 ''sd'') = ''sd''" by (simp_all add: unpack_valid_id)
  moreover have "(pack_s 48 ''sd'' @ pack_s 48 ''a'' @ replicate (2 ^ 21) NUL) ! 0 \<noteq> NUL"
    by (simp add: pack_s_def)
  ultimately show ?thesis
    using True by (simp add: slot_resource_def resource_file_def resource_record_def read_resource_def
        sample_sanlock_def lease_offset_def RESERVED_SLOTS_def slice_def nth_append valid_idD)
next
  case False
  have "(content resource_file) ! lease_offset n (2 ^ 20) = NUL"
    if "lease_offset n (2 ^ 20) + 96 \<le> length (content resource_file)"
    using that False by (auto simp: resource_file_def lease_offset_def RESERVED_SLOTS_def nth_append)
  then have "sl_read sample_sanlock (lease_offset n (2 ^ 20)) (2 ^ 20) 512 (content resource_file) = Inl SANLK_LEADER_MAGIC"
    by (auto simp: sample_sanlock_def)
  then have "read_resource sample_sanlock (lease_offset n (2 ^ 20)) (2 ^ 20) 512 (content resource_file)
      = Inl (NoSuchResource (lease_offset n (2 ^ 20)))"
    by (simp add: read_resource_def)
  then show ?thesis using False by (simp add: slot_resource_def resource_record_def Let_def)
qed

theorem rebuild_restores_resources_witness:
  "\<exists>f' v. rebuild_index sample_sanlock ''sd'' (2 ^ 20) 512 1 2 resource_file = (Inr (), f') \<and>
    open_volume (\<lambda>_. 1) f' (2 ^ 20) 512 = Inr v \<and>
    lookup v ''a'' = Inr (LeaseInfo ''sd'' ''a'' ''/rhev/xleases'' (lease_offset 0 (2 ^ 20)))"
proof -
  have "rec_resource (resource_record n) = (if n = 0 then ''a'' else [])" for n
    by (simp add: resource_record_def EMPTY_RECORD_def)
  then have un: "unique_names (map resource_record [0..<MAX_RECORDS])" by (auto simp: unique_names_def)
  have "wsched resource_file = []" "2 ^ 20 + INDEX_SIZE \<le> length (content resource_file)"
    "fname resource_file = ''/rhev/xleases''"
    by (simp_all add: resource_file_def INDEX_SIZE_def)
  moreover have "slot_resource sample_sanlock (2 ^ 20) 512 (content resource_file) n = Inr (resource_record n) \<and>
      valid_id (rec_resource (resource_record n))" for n
    using resource_slots [of n] by (simp add: resource_record_def EMPTY_RECORD_def valid_id_def ascii_def)
  moreover have "rec_resource (resource_record 0) = ''a'' \<and> 0 < MAX_RECORDS"
    by (simp add: resource_record_def xlease_consts)
  ultimately show ?thesis
    using rebuild_restores_resources [of "''sd''" 1 2 "2 ^ 20" 512 resource_file sample_sanlock resource_record "\<lambda>_. 1", OF _ _ _ _ _ _ _ un]
    by (auto simp: valid_geometry_def)
qed


lemma sample_add_fails:
  "\<exists>v'. add sample_sanlock ''a'' (sample_volume no_leases [None]) = (Inl OSError, v')"
proof -
  let ?v = "sample_volume no_leases [None]" and ?r = "Record ''a'' (int (lease_offset 0 (2 ^ 20))) True"
  have geo: "valid_geometry (2 ^ 20) 512" by (simp add: valid_geometry_def)
  have val: "valid_record ?r" by (rule valid_lease_record [OF _ _ geo]) (simp_all add: xlease_consts)
  have lt: "0 < MAX_RECORDS" by (simp add: xlease_consts)
  obtain off blk where "volume_write_record 0 ?r ?v =
      (case pwrite off blk (lv_file ?v) of
         (Inl e, f) \<Rightarrow> (Inl e, ?v\<lparr>lv_file := f\<rparr>)
       | (Inr _, f) \<Rightarrow> (Inr (), ?v\<lparr>lv_file := f,
           lv_index := (lv_index ?v)\<lparr>ix_buf := index_image (lv_md ?v) (no_leases[0 := ?r])\<rparr>\<rparr>))"
    by (rule volume_write_record_eq [OF sample_empty(1) lt val])
  moreover have "fst (pwrite off blk (lv_file ?v)) = Inl OSError"
    by (simp add: pwrite_def pwrite_loop.simps [of off 0] next_call_def)
  ultimately have "\<exists>v'. volume_write_record 0 ?r ?v = (Inl OSError, v')" by (auto split: prod.splits)
  then show ?thesis
    using no_leases_ok by (auto simp: add_cases [OF sample_empty(1)] Let_def obind_def)
qed


theorem add_succeeds_witness:
  "\<exists>v'. add sample_sanlock ''a'' (sample_volume no_leases []) =
    (Inr (LeaseInfo ''sd'' ''a'' ''/rhev/xleases'' (lease_offset 0 (2 ^ 20))), v')"
proof -
  have "lookup (sample_volume no_leases []) ''a'' = Inl (NoSuchLease ''a'')"
    using lookup_is [OF sample_empty(1)] no_leases_ok(4) by simp
  moreover have "find_free_record (lv_index (sample_volume no_leases [])) = Inr (Some 0)"
    using volume_free [OF sample_empty(1)] no_leases_ok(5) by simp
  moreover have "fname (lv_file (sample_volume no_leases [])) = ''/rhev/xleases''"
    by (simp add: sample_volume_def sample_file_def)
  ultimately show ?thesis
    using add_succeeds [OF sample_inv(1) _ sample_sanlock_ok, of "''a''" "[]" 0] sample_empty(2) [of "[]"]
    by (simp add: lease_offset_def RESERVED_SLOTS_def)
qed

end
