(* ===== verification/Rwlock.thy ===== *)
theory Rwlock
  imports Vdsm_Prelude "HOL-Library.AList"
begin

text \<open>
  \<^verbatim>\<open>lib/vdsm/storage/rwlock.py\<close>: the readers-writer lock. Every critical section of the code is one
  operation; a call that has to wait ends in \<open>Blocked\<close>, and what it does after its event was set
  is the operation \<open>resume\<close>. The steps of the system are the calls of threads that are not
  waiting and the wake-ups of waiters that were granted.
\<close>

subsection \<open>The lock\<close>

type_synonym thread = nat

record waiter =
  w_thread :: thread
  wants_write :: bool
  w_event :: bool

record rwlock =
  rw_waiters :: "waiter list"
  rw_holders :: "(thread \<times> nat) list"
  rw_writer :: "thread option"

datatype rw_result = Acquired | Blocked | Released | LockPromotion | LockDemotion | NotHeld

definition new_lock :: rwlock where
  "new_lock = \<lparr>rw_waiters = [], rw_holders = [], rw_writer = None\<rparr>"

definition holds :: "thread \<Rightarrow> rwlock \<Rightarrow> bool" where
  "holds me l \<longleftrightarrow> me \<in> fst ` set (rw_holders l)"

definition set_holder :: "thread \<Rightarrow> nat \<Rightarrow> rwlock \<Rightarrow> rwlock" where
  "set_holder me n l = l\<lparr>rw_holders := AList.update me n (rw_holders l)\<rparr>"

definition add_waiter :: "thread \<Rightarrow> bool \<Rightarrow> rwlock \<Rightarrow> rwlock" where
  "add_waiter me wr l =
     l\<lparr>rw_waiters := rw_waiters l @ [\<lparr>w_thread = me, wants_write = wr, w_event = False\<rparr>]\<rparr>"

definition grant :: "waiter \<Rightarrow> waiter" where
  "grant w = w\<lparr>w_event := True\<rparr>"

definition grant_next_waiter :: "rwlock \<Rightarrow> rwlock" where
  "grant_next_waiter l =
     (case rw_waiters l of
        [] \<Rightarrow> l
      | w # ws \<Rightarrow> if rw_holders l \<noteq> [] \<and> wants_write w then l else l\<lparr>rw_waiters := grant w # ws\<rparr>)"

definition count :: "thread \<Rightarrow> rwlock \<Rightarrow> nat" where
  "count me l = (case map_of (rw_holders l) me of None \<Rightarrow> 0 | Some n \<Rightarrow> n)"

definition acquire_write :: "thread \<Rightarrow> rwlock \<Rightarrow> rw_result \<times> rwlock" where
  "acquire_write me l =
     (if rw_writer l = Some me then (Acquired, set_holder me (count me l + 1) l)
      else if holds me l then (LockPromotion, l)
      else if rw_holders l \<noteq> [] \<or> rw_waiters l \<noteq> [] then (Blocked, add_waiter me True l)
      else (Acquired, (set_holder me 1 l)\<lparr>rw_writer := Some me\<rparr>))"

definition acquire_read :: "thread \<Rightarrow> rwlock \<Rightarrow> rw_result \<times> rwlock" where
  "acquire_read me l =
     (if rw_writer l = Some me then (LockDemotion, l)
      else if holds me l then (Acquired, set_holder me (count me l + 1) l)
      else if rw_writer l \<noteq> None \<or> rw_waiters l \<noteq> [] then (Blocked, add_waiter me False l)
      else (Acquired, grant_next_waiter (set_holder me 1 l)))"

text \<open>
  The tail of \<open>_wait\<close> and of the acquire method that called it, once the waiter's event is set
  and the inner lock is held again.
\<close>

definition resume :: "thread \<Rightarrow> rwlock \<Rightarrow> rwlock" where
  "resume me l =
     (case find (\<lambda>w. w_thread w = me \<and> w_event w) (rw_waiters l) of
        None \<Rightarrow> l
      | Some w \<Rightarrow>
          (let l' = set_holder me 1 (l\<lparr>rw_waiters := remove1 w (rw_waiters l)\<rparr>)
           in if wants_write w then l'\<lparr>rw_writer := Some me\<rparr> else grant_next_waiter l'))"

definition release :: "thread \<Rightarrow> rwlock \<Rightarrow> rw_result \<times> rwlock" where
  "release me l =
     (if \<not> holds me l then (NotHeld, l)
      else if count me l - 1 > 0 then (Released, set_holder me (count me l - 1) l)
      else (Released, grant_next_waiter (l\<lparr>rw_writer := None, rw_holders := AList.delete me (rw_holders l)\<rparr>)))"

subsection \<open>Executions\<close>

datatype rw_event = AcquireWrite thread | AcquireRead thread | Release thread | Wakeup thread

definition waiting :: "thread \<Rightarrow> rwlock \<Rightarrow> bool" where
  "waiting me l \<longleftrightarrow> me \<in> w_thread ` set (rw_waiters l)"

inductive rw_step :: "rwlock \<Rightarrow> rw_event \<Rightarrow> rwlock \<Rightarrow> bool" where
  step_write: "\<not> waiting t l \<Longrightarrow> rw_step l (AcquireWrite t) (snd (acquire_write t l))"
| step_read: "\<not> waiting t l \<Longrightarrow> rw_step l (AcquireRead t) (snd (acquire_read t l))"
| step_release: "\<not> waiting t l \<Longrightarrow> rw_step l (Release t) (snd (release t l))"
| step_wakeup: "w \<in> set (rw_waiters l) \<Longrightarrow> w_thread w = t \<Longrightarrow> w_event w \<Longrightarrow> rw_step l (Wakeup t) (resume t l)"

inductive rw_reach :: "rwlock \<Rightarrow> bool" where
  reach_new: "rw_reach new_lock"
| reach_step: "rw_reach l \<Longrightarrow> rw_step l e l' \<Longrightarrow> rw_reach l'"

inductive_cases rw_stepE: "rw_step l e l'"
inductive_simps rw_step_wakeup: "rw_step l (Wakeup t) l'"

subsection \<open>The invariant\<close>

text \<open>
  A writer is the only holder; only the waiter at the head of the queue may have its event set,
  and then nothing stands in its way; and a head whose event is not set is really blocked by a
  holder.
\<close>

definition blocked_by_holders :: "rwlock \<Rightarrow> waiter \<Rightarrow> bool" where
  "blocked_by_holders l w \<longleftrightarrow> (if wants_write w then rw_holders l \<noteq> [] else rw_writer l \<noteq> None)"

definition queue_ok :: "rwlock \<Rightarrow> bool" where
  "queue_ok l \<longleftrightarrow>
     (case rw_waiters l of
        [] \<Rightarrow> True
      | w # ws \<Rightarrow> (w_event w \<longleftrightarrow> \<not> blocked_by_holders l w) \<and> (\<forall>x \<in> set ws. \<not> w_event x))"

definition rw_inv :: "rwlock \<Rightarrow> bool" where
  "rw_inv l \<longleftrightarrow>
     distinct (map fst (rw_holders l)) \<and> (\<forall>n \<in> snd ` set (rw_holders l). 0 < n) \<and>
     (\<forall>t. rw_writer l = Some t \<longrightarrow> map fst (rw_holders l) = [t]) \<and>
     distinct (map w_thread (rw_waiters l)) \<and> (\<forall>t. waiting t l \<longrightarrow> \<not> holds t l) \<and> queue_ok l"

lemma rw_invD:
  assumes "rw_inv l"
  shows "distinct (map fst (rw_holders l))" "\<And>n. n \<in> snd ` set (rw_holders l) \<Longrightarrow> 0 < n"
    "\<And>t. rw_writer l = Some t \<Longrightarrow> map fst (rw_holders l) = [t]"
    "distinct (map w_thread (rw_waiters l))" "\<And>t. waiting t l \<Longrightarrow> \<not> holds t l" "queue_ok l"
  using assms by (auto simp: rw_inv_def)

lemma rw_inv_new: "rw_inv new_lock"
  by (simp add: rw_inv_def new_lock_def waiting_def queue_ok_def)

lemma set_holder_keys:
  "fst ` set (rw_holders (set_holder t n l)) = insert t (fst ` set (rw_holders l))"
  by (simp add: set_holder_def dom_update)

lemma set_holder_again:
  "holds t l \<Longrightarrow> map fst (rw_holders (set_holder t n l)) = map fst (rw_holders l)"
  by (auto simp: set_holder_def holds_def update_keys)

lemma set_holder_new:
  "\<not> holds t l \<Longrightarrow> map fst (rw_holders (set_holder t n l)) = map fst (rw_holders l) @ [t]"
  by (auto simp: set_holder_def holds_def update_keys)

lemma update_counts: "snd ` set (AList.update k v al) \<subseteq> insert v (snd ` set al)"
  by (induction al) auto

text \<open>Everything but the state of the events.\<close>

definition holders_ok :: "rwlock \<Rightarrow> bool" where
  "holders_ok l \<longleftrightarrow>
     distinct (map fst (rw_holders l)) \<and> (\<forall>n \<in> snd ` set (rw_holders l). 0 < n) \<and>
     (\<forall>t. rw_writer l = Some t \<longrightarrow> map fst (rw_holders l) = [t]) \<and>
     distinct (map w_thread (rw_waiters l)) \<and> (\<forall>t. waiting t l \<longrightarrow> \<not> holds t l)"

lemma rw_inv_iff: "rw_inv l \<longleftrightarrow> holders_ok l \<and> queue_ok l"
  by (simp add: rw_inv_def holders_ok_def)

lemma holders_ok_set_holder:
  assumes "holders_ok l" and "0 < n" and "\<not> waiting t l" and "holds t l \<or> rw_writer l = None"
  shows "holders_ok (set_holder t n l)"
proof -
  have "distinct (map fst (rw_holders (set_holder t n l)))"
    using assms(1) by (simp add: holders_ok_def set_holder_def distinct_update)
  moreover have "\<forall>m \<in> snd ` set (rw_holders (set_holder t n l)). 0 < m"
    using assms(1,2) update_counts [of t n "rw_holders l"] by (force simp: holders_ok_def set_holder_def)
  moreover have "map fst (rw_holders (set_holder t n l)) = [u]" if "rw_writer l = Some u" for u
    using assms(1,4) that by (auto simp: holders_ok_def set_holder_again)
  ultimately show ?thesis
    using assms(1,3) by (simp add: holders_ok_def waiting_def holds_def set_holder_keys) (auto simp: set_holder_def)
qed

lemma queue_ok_set_holder_again:
  assumes "queue_ok l" and "holds t l"
  shows "queue_ok (set_holder t n l)"
proof -
  have "map fst (rw_holders (set_holder t n l)) = map fst (rw_holders l)" by (rule set_holder_again [OF assms(2)])
  then have "rw_holders (set_holder t n l) = [] \<longleftrightarrow> rw_holders l = []" by (metis map_is_Nil_conv)
  then show ?thesis
    using assms(1)
    by (cases "rw_waiters l") (simp_all add: queue_ok_def blocked_by_holders_def set_holder_def)
qed

lemma inv_again: "rw_inv l \<Longrightarrow> holds t l \<Longrightarrow> 0 < n \<Longrightarrow> \<not> waiting t l \<Longrightarrow> rw_inv (set_holder t n l)"
  by (simp add: rw_inv_iff holders_ok_set_holder queue_ok_set_holder_again)

lemma inv_add_waiter:
  assumes "rw_inv l" and "\<not> waiting t l" and "\<not> holds t l"
    and "rw_waiters l \<noteq> [] \<or> (if wr then rw_holders l \<noteq> [] else rw_writer l \<noteq> None)"
  shows "rw_inv (add_waiter t wr l)"
proof -
  have "queue_ok (add_waiter t wr l)"
    using rw_invD(6) [OF assms(1)] assms(4)
    by (cases "rw_waiters l") (auto simp: queue_ok_def add_waiter_def blocked_by_holders_def)
  then show ?thesis
    using assms by (auto simp: rw_inv_iff holders_ok_def add_waiter_def waiting_def holds_def)
qed

lemma inv_grant_next:
  assumes "holders_ok l" and "rw_writer l = None" and "\<forall>w \<in> set (tl (rw_waiters l)). \<not> w_event w"
    and "\<And>w ws. rw_waiters l = w # ws \<Longrightarrow> w_event w \<Longrightarrow> \<not> blocked_by_holders l w"
  shows "rw_inv (grant_next_waiter l)"
proof (cases "rw_waiters l")
  case Nil
  then show ?thesis using assms(1) by (simp add: grant_next_waiter_def rw_inv_iff queue_ok_def)
next
  case (Cons w ws)
  then show ?thesis
    using assms by (auto simp: grant_next_waiter_def rw_inv_iff holders_ok_def queue_ok_def blocked_by_holders_def
        grant_def waiting_def holds_def)
qed

lemma only_head_granted:
  assumes "rw_inv l" and "w \<in> set (rw_waiters l)" and "w_event w"
  obtains ws where "rw_waiters l = w # ws" "\<forall>x \<in> set ws. \<not> w_event x" "\<not> blocked_by_holders l w"
    "w_thread w \<notin> w_thread ` set ws"
  using rw_invD(4,6) [OF assms(1)] assms(2,3) that by (cases "rw_waiters l") (auto simp: queue_ok_def)

lemma resume_head:
  assumes "rw_inv l" and "w \<in> set (rw_waiters l)" and "w_event w"
  obtains ws where "rw_waiters l = w # ws" "resume (w_thread w) l =
    (let l' = set_holder (w_thread w) 1 (l\<lparr>rw_waiters := ws\<rparr>)
     in if wants_write w then l'\<lparr>rw_writer := Some (w_thread w)\<rparr> else grant_next_waiter l')"
  by (rule only_head_granted [OF assms]) (use assms(3) that in \<open>auto simp: resume_def\<close>)

lemma inv_resume:
  assumes inv: "rw_inv l" and w: "w \<in> set (rw_waiters l)" "w_event w"
  shows "rw_inv (resume (w_thread w) l)"
proof -
  obtain ws where ws: "rw_waiters l = w # ws" "\<forall>x \<in> set ws. \<not> w_event x" "\<not> blocked_by_holders l w"
    "w_thread w \<notin> w_thread ` set ws"
    by (rule only_head_granted [OF assms])
  let ?l = "l\<lparr>rw_waiters := ws\<rparr>" and ?t = "w_thread w"
  have base: "holders_ok ?l" "\<not> waiting ?t ?l" "\<not> holds ?t ?l"
    using inv ws by (auto simp: rw_inv_iff holders_ok_def waiting_def holds_def)
  have nw: "rw_writer l = None"
    using ws(3) rw_invD(3) [OF inv] by (cases "rw_writer l") (auto simp: blocked_by_holders_def split: if_splits)
  have ok: "holders_ok (set_holder ?t 1 ?l)" by (rule holders_ok_set_holder [OF base(1) _ base(2)]) (simp_all add: nw)
  have res: "resume ?t l = (let l' = set_holder ?t 1 ?l
     in if wants_write w then l'\<lparr>rw_writer := Some ?t\<rparr> else grant_next_waiter l')"
    by (rule resume_head [OF assms]) (use ws(1) in simp)
  show ?thesis
  proof (cases "wants_write w")
    case True
    then have "rw_holders l = []" using ws(3) by (simp add: blocked_by_holders_def)
    then have h: "rw_holders (set_holder ?t 1 ?l) = [(?t, 1)]" by (simp add: set_holder_def)
    have "queue_ok ((set_holder ?t 1 ?l)\<lparr>rw_writer := Some ?t\<rparr>)"
      using ws(2) h by (auto simp: queue_ok_def blocked_by_holders_def set_holder_def split: list.splits)
    then show ?thesis using ok h res True by (simp add: rw_inv_iff holders_ok_def waiting_def holds_def)
  next
    case False
    have "\<forall>x \<in> set (tl ws). \<not> w_event x" using ws(2) by (cases ws) auto
    then have "rw_inv (grant_next_waiter (set_holder ?t 1 ?l))"
      by (intro inv_grant_next [OF ok]) (use nw ws(2) in \<open>auto simp: set_holder_def\<close>)
    then show ?thesis using res False by simp
  qed
qed

lemma inv_release:
  assumes inv: "rw_inv l" and "\<not> waiting t l"
  shows "rw_inv (snd (release t l))"
proof (cases "holds t l \<and> \<not> count t l - 1 > 0")
  case False
  then show ?thesis using inv_again [OF inv, of t "count t l - 1"] assms by (auto simp: release_def)
next
  case True
  let ?l = "l\<lparr>rw_writer := None, rw_holders := AList.delete t (rw_holders l)\<rparr>"
  have sub: "set (AList.delete t (rw_holders l)) \<subseteq> set (rw_holders l)" by (auto simp: AList.delete_eq)
  have "distinct (map fst (AList.delete t (rw_holders l)))"
    by (rule distinct_delete [OF rw_invD(1) [OF inv]])
  moreover have "fst ` set (AList.delete t (rw_holders l)) \<subseteq> fst ` set (rw_holders l)"
    by (rule image_mono [OF sub])
  ultimately have ok: "holders_ok ?l"
    using inv sub rw_invD(5) [OF inv] by (simp add: rw_inv_iff holders_ok_def waiting_def holds_def) blast
  have "rw_inv (grant_next_waiter ?l)"
  proof (rule inv_grant_next [OF ok])
    show "\<forall>w \<in> set (tl (rw_waiters ?l)). \<not> w_event w"
      using rw_invD(6) [OF inv] by (cases "rw_waiters l") (auto simp: queue_ok_def)
    show "\<not> blocked_by_holders ?l w" if "rw_waiters ?l = w # ws" "w_event w" for w ws
      using that rw_invD(6) [OF inv] by (auto simp: queue_ok_def blocked_by_holders_def split: if_splits)
  qed simp
  then show ?thesis using True by (simp add: release_def)
qed

lemma writer_holds: "rw_inv l \<Longrightarrow> rw_writer l = Some t \<Longrightarrow> holds t l"
  using rw_invD(3) [of l t] by (metis holds_def list.set_intros(1) list.set_map)

lemma inv_acquire_write:
  assumes "rw_inv l" and "\<not> waiting t l"
  shows "rw_inv (snd (acquire_write t l))"
proof -
  have "rw_inv ((set_holder t 1 l)\<lparr>rw_writer := Some t\<rparr>)" if "rw_holders l = []" "rw_waiters l = []"
    using that by (simp add: rw_inv_def set_holder_def waiting_def queue_ok_def)
  then show ?thesis
    using inv_again [OF assms(1) writer_holds [OF assms(1)]] inv_add_waiter [OF assms, of True] assms
    by (auto simp: acquire_write_def)
qed

lemma inv_acquire_read:
  assumes "rw_inv l" and "\<not> waiting t l"
  shows "rw_inv (snd (acquire_read t l))"
proof -
  have "rw_inv (grant_next_waiter (set_holder t 1 l))" if "rw_writer l = None" "rw_waiters l = []"
    by (rule inv_grant_next [OF holders_ok_set_holder])
      (use assms that in \<open>auto simp: rw_inv_iff set_holder_def\<close>)
  then show ?thesis
    using inv_again [OF assms(1), of t] inv_add_waiter [OF assms, of False] assms
    by (auto simp: acquire_read_def)
qed

lemma inv_step: "rw_step l e l' \<Longrightarrow> rw_inv l \<Longrightarrow> rw_inv l'"
  by (elim rw_stepE) (auto simp: inv_acquire_write inv_acquire_read inv_release inv_resume)

lemma reach_inv: "rw_reach l \<Longrightarrow> rw_inv l"
  by (induction rule: rw_reach.induct) (auto simp: rw_inv_new inv_step)

subsection \<open>What the lock guarantees\<close>

text \<open>
  C12. Mutual exclusion: in every reachable state of the lock, while a thread holds it for
  writing no other thread holds it at all.
\<close>

theorem writer_is_alone:
  assumes "rw_reach l" and "rw_writer l = Some t"
  shows "holds u l \<longleftrightarrow> u = t"
  using rw_invD(3) [OF reach_inv [OF assms(1)] assms(2)] unfolding holds_def
  by (metis list.set_map list.set(1) list.set(2) singleton_iff)

lemma step_result: "\<not> waiting t l \<Longrightarrow> acquire_write t l = (r, l') \<Longrightarrow> rw_step l (AcquireWrite t) l'"
  "\<not> waiting t l \<Longrightarrow> acquire_read t l = (r, l') \<Longrightarrow> rw_step l (AcquireRead t) l'"
  "\<not> waiting t l \<Longrightarrow> release t l = (r, l') \<Longrightarrow> rw_step l (Release t) l'"
  using rw_step.intros(1-3) [of t l] by simp_all

theorem writer_is_alone_witness:
  "rw_writer (snd (acquire_write 1 new_lock)) = Some 1 \<and> \<not> holds 2 (snd (acquire_write 1 new_lock))"
proof -
  let ?l = "snd (acquire_write 1 new_lock)"
  have "rw_reach ?l"
    by (rule reach_step [OF reach_new rw_step.intros(1)]) (simp add: waiting_def new_lock_def)
  moreover have "rw_writer ?l = Some 1" by (simp add: acquire_write_def new_lock_def holds_def)
  ultimately show ?thesis using writer_is_alone [of ?l 1 2] by simp
qed

lemma grant_next_fields [simp]:
  "rw_holders (grant_next_waiter l) = rw_holders l" "rw_writer (grant_next_waiter l) = rw_writer l"
  "map w_thread (rw_waiters (grant_next_waiter l)) = map w_thread (rw_waiters l)"
  by (simp_all add: grant_next_waiter_def grant_def split: list.splits)

lemma holds_set_holder: "holds u (set_holder t n l) \<longleftrightarrow> u = t \<or> holds u l"
  using set_holder_keys [of t n l] by (auto simp: holds_def)

lemma holds_fields [simp]: "holds u (grant_next_waiter l) = holds u l"
  "holds u (l\<lparr>rw_writer := w\<rparr>) = holds u l" "holds u (l\<lparr>rw_waiters := ws\<rparr>) = holds u l"
  "holds u (add_waiter t wr l) = holds u l"
  by (simp_all add: holds_def add_waiter_def)

lemma holds_delete: "holds u (l\<lparr>rw_writer := w, rw_holders := AList.delete t (rw_holders l)\<rparr>) \<Longrightarrow> holds u l"
  by (auto simp: holds_def AList.delete_eq)

text \<open>
  C13. Requests are served in order: when threads are waiting, the only one that can become a
  holder is the one that has waited longest, and only by waking up; the others keep
  their order.
\<close>

theorem served_in_order:
  assumes "rw_reach l" and "rw_step l e l'" and "holds u l'" and "\<not> holds u l" and "rw_waiters l \<noteq> []"
  shows "e = Wakeup u \<and> u = w_thread (hd (rw_waiters l)) \<and>
    map w_thread (rw_waiters l') = tl (map w_thread (rw_waiters l))"
  using assms(2)
proof (cases rule: rw_step.cases)
  case (step_write t)
  then show ?thesis
    using assms(3-5) writer_holds [OF reach_inv [OF assms(1)], of t]
    by (auto simp: acquire_write_def holds_set_holder split: if_splits)
next
  case (step_read t)
  then show ?thesis using assms(3-5) by (auto simp: acquire_read_def holds_set_holder split: if_splits)
next
  case (step_release t)
  then show ?thesis
    using assms(3,4) by (auto simp: release_def holds_set_holder dest: holds_delete split: if_splits)
next
  case (step_wakeup w t)
  obtain ws where ws: "rw_waiters l = w # ws" "resume t l =
      (let l' = set_holder t 1 (l\<lparr>rw_waiters := ws\<rparr>)
       in if wants_write w then l'\<lparr>rw_writer := Some t\<rparr> else grant_next_waiter l')"
    using resume_head [OF reach_inv [OF assms(1)], of w] step_wakeup by metis
  then have "u = t \<and> map w_thread (rw_waiters l') = map w_thread ws"
    using step_wakeup assms(3,4) by (auto simp: Let_def holds_set_holder split: if_splits) (auto simp: set_holder_def)
  then show ?thesis using ws(1) step_wakeup by simp
qed

text \<open>Thread 1 writes, threads 2 and 3 wait to read, thread 1 releases.\<close>

definition sample_lock :: rwlock where
  "sample_lock = snd (release 1 (snd (acquire_read 3 (snd (acquire_read 2 (snd (acquire_write 1 new_lock)))))))"

lemmas rw_simps = acquire_write_def acquire_read_def release_def resume_def new_lock_def waiting_def holds_def
  set_holder_def add_waiter_def count_def grant_next_waiter_def grant_def

lemma sample_lock_eq: "sample_lock = \<lparr>rw_waiters =
    [\<lparr>w_thread = 2, wants_write = False, w_event = True\<rparr>, \<lparr>w_thread = 3, wants_write = False, w_event = False\<rparr>],
  rw_holders = [], rw_writer = None\<rparr>"
  by (simp add: sample_lock_def rw_simps)

lemma sample_lock_reach: "rw_reach sample_lock"
  unfolding sample_lock_def
  by (intro reach_step [OF _ rw_step.intros(3)] reach_step [OF _ rw_step.intros(2)]
      reach_step [OF reach_new rw_step.intros(1)]) (simp_all add: rw_simps)

theorem served_in_order_witness:
  "holds 2 (resume 2 sample_lock) \<and> map w_thread (rw_waiters (resume 2 sample_lock)) = [3]"
proof -
  have "rw_step sample_lock (Wakeup 2) (resume 2 sample_lock)"
    by (rule rw_step.intros(4) [of "\<lparr>w_thread = 2, wants_write = False, w_event = True\<rparr>"]) (simp_all add: sample_lock_eq)
  moreover have "holds 2 (resume 2 sample_lock)" "\<not> holds 2 sample_lock" by (simp_all add: sample_lock_eq rw_simps)
  ultimately show ?thesis
    using served_in_order [OF sample_lock_reach] by (auto simp: sample_lock_eq)
qed

subsubsection \<open>No waiter is forgotten\<close>

fun rw_run :: "rwlock \<Rightarrow> thread list \<Rightarrow> rwlock" where
  "rw_run l [] = l"
| "rw_run l (t # ts) = rw_run (snd (release t l)) ts"

definition load :: "rwlock \<Rightarrow> nat" where
  "load l = sum_list (map snd (rw_holders l))"

lemma release_waiters:
  "map w_thread (rw_waiters (snd (release t l))) = map w_thread (rw_waiters l)"
  by (simp add: release_def set_holder_def)

lemma load_update:
  fixes al :: "(thread \<times> nat) list"
  shows "distinct (map fst al) \<Longrightarrow> map_of al t = Some n \<Longrightarrow> sum_list (map snd (AList.update t m al)) + n = sum_list (map snd al) + m"
  by (induction al) auto

lemma load_delete:
  fixes al :: "(thread \<times> nat) list"
  shows "distinct (map fst al) \<Longrightarrow> map_of al t = Some n \<Longrightarrow> sum_list (map snd (AList.delete t al)) + n = sum_list (map snd al)"
proof (induction al)
  case (Cons a al)
  then show ?case by (cases "fst a = t") (auto simp: AList.delete_id)
qed simp

lemma release_load:
  assumes "rw_inv l" and "holds t l"
  shows "load (snd (release t l)) < load l"
proof -
  obtain n where n: "map_of (rw_holders l) t = Some n" using assms(2) by (auto simp: holds_def map_of_eq_None_iff) (metis domD dom_map_of_conv_image_fst image_eqI fst_conv)
  then have "0 < n" using rw_invD(2) [OF assms(1)] map_of_SomeD by force
  then show ?thesis
    using n assms(2) load_update [OF rw_invD(1) [OF assms(1)] n, of "n - 1"] load_delete [OF rw_invD(1) [OF assms(1)] n]
    by (auto simp: release_def load_def count_def set_holder_def)
qed

lemma releases_wake_head:
  assumes "rw_inv l" and "rw_waiters l \<noteq> []"
  shows "\<exists>ts. w_event (hd (rw_waiters (rw_run l ts))) \<and> map w_thread (rw_waiters (rw_run l ts)) = map w_thread (rw_waiters l)"
  using assms
proof (induction "load l" arbitrary: l rule: less_induct)
  case less
  show ?case
  proof (cases "w_event (hd (rw_waiters l))")
    case True
    then show ?thesis by (intro exI [of _ "[]"]) simp
  next
    case False
    then have "rw_holders l \<noteq> []"
      using rw_invD(3,6) [OF less(2)] less(3)
      by (cases "rw_waiters l"; cases "rw_writer l") (auto simp: queue_ok_def blocked_by_holders_def split: if_splits)
    then obtain t where t: "holds t l" by (cases "rw_holders l") (auto simp: holds_def)
    then have nw: "\<not> waiting t l" using rw_invD(5) [OF less(2)] by blast
    have w: "rw_waiters (snd (release t l)) \<noteq> []" using less(3) release_waiters [of t l] by force
    obtain ts where "w_event (hd (rw_waiters (rw_run (snd (release t l)) ts)))"
      "map w_thread (rw_waiters (rw_run (snd (release t l)) ts)) = map w_thread (rw_waiters (snd (release t l)))"
      using less(1) [OF release_load [OF less(2) t] inv_release [OF less(2) nw] w] by blast
    then show ?thesis using release_waiters [of t l] by (intro exI [of _ "t # ts"]) simp
  qed
qed

text \<open>
  C14. No lost wake-up: in every reachable state with waiting threads, releases by the threads that
  hold the lock are enough to set the event of the thread at the head of the queue, with
  the queue in the same order.
\<close>

theorem head_gets_woken:
  assumes "rw_reach l" and "rw_waiters l \<noteq> []"
  shows "\<exists>ts. w_event (hd (rw_waiters (rw_run l ts))) \<and>
    map w_thread (rw_waiters (rw_run l ts)) = map w_thread (rw_waiters l)"
  by (rule releases_wake_head [OF reach_inv [OF assms(1)] assms(2)])

theorem head_gets_woken_witness:
  "\<exists>ts. w_event (hd (rw_waiters (rw_run sample_lock ts))) \<and>
    map w_thread (rw_waiters (rw_run sample_lock ts)) = [2, 3]"
  using head_gets_woken [OF sample_lock_reach] by (simp add: sample_lock_eq)

text \<open>
  Recursive locking: a thread that holds the lock can take it again in the same mode, and the
  matching release puts the lock back in the state it was in.
\<close>

theorem recursive_acquire_release:
  assumes "rw_reach l" and "holds t l"
  shows "let acquire = (if rw_writer l = Some t then acquire_write else acquire_read)
    in fst (acquire t l) = Acquired \<and> release t (snd (acquire t l)) = (Released, l)"
proof -
  have inv: "rw_inv l" by (rule reach_inv [OF assms(1)])
  obtain n where n: "map_of (rw_holders l) t = Some n"
    using assms(2) by (metis holds_def domD dom_map_of_conv_image_fst)
  then have "0 < n" using rw_invD(2) [OF inv] map_of_SomeD by force
  have "AList.update t n (AList.update t m al) = al" if "map_of al t = Some n" for m and al :: "(nat \<times> nat) list"
    using that by (induction al) (auto split: if_splits)
  then show ?thesis
    using n \<open>0 < n\<close> assms(2)
    by (simp add: acquire_write_def acquire_read_def release_def count_def set_holder_def holds_def dom_update update_conv')
qed

theorem recursive_acquire_release_witness:
  "release 2 (snd (acquire_read 2 (resume 2 sample_lock))) = (Released, resume 2 sample_lock)"
proof -
  have "rw_reach (resume 2 sample_lock)"
    by (rule reach_step [OF sample_lock_reach rw_step.intros(4) [of "\<lparr>w_thread = 2, wants_write = False, w_event = True\<rparr>"]])
      (simp_all add: sample_lock_eq)
  moreover have "holds 2 (resume 2 sample_lock)" "rw_writer (resume 2 sample_lock) = None"
    by (simp_all add: sample_lock_eq rw_simps)
  ultimately show ?thesis using recursive_acquire_release [of "resume 2 sample_lock" 2] by simp
qed

end
