(* ===== verification/Resource_Manager.thy ===== *)
theory Resource_Manager
  imports Vdsm_Prelude
begin

text \<open>
  \<^verbatim>\<open>lib/vdsm/storage/resourceManager.py\<close>: requests, namespaces and the resource manager. The code
  runs every operation on a namespace under its lock, so an operation is one function on the
  state of the manager. Requests live in a table and are named by their position; callbacks are
  the list of events they were called with, in order. The factory of a namespace and the
  objects it makes are arguments.
\<close>

subsection \<open>Requests and the state of the manager\<close>

definition SHARED :: pystr where "SHARED = ''shared''"
definition EXCLUSIVE :: pystr where "EXCLUSIVE = ''exclusive''"
definition STATUS_FREE :: pystr where "STATUS_FREE = ''free''"
definition STATUS_SHARED :: pystr where "STATUS_SHARED = ''shared''"
definition STATUS_LOCKED :: pystr where "STATUS_LOCKED = ''locked''"

lemmas lock_names = SHARED_def EXCLUSIVE_def

datatype rm_error =
    NamespaceRegistered pystr
  | RequestAlreadyProcessed
  | RequestTimedOut
  | ResourceAlreadyAcquired
  | InvalidLockType pystr
  | InvalidNamespace pystr
  | ResourceDoesNotExist
  | InvalidResourceName pystr
  | ResourceAcqusitionFailed
  | ResourceTimeout
  | ResourceException pystr
  | RmValueError
  | RmKeyError
  | FactoryError

record request =
  rq_namespace :: pystr
  rq_name :: pystr
  rq_lockType :: pystr
  rq_isActive :: bool
  rq_isCanceled :: bool
  rq_done :: bool

definition new_request :: "pystr \<Rightarrow> pystr \<Rightarrow> pystr \<Rightarrow> request" where
  "new_request ns name lockType =
     \<lparr>rq_namespace = ns, rq_name = name, rq_lockType = lockType,
      rq_isActive = True, rq_isCanceled = False, rq_done = False\<rparr>"

text \<open>
  A factory tells whether it can make a resource, and makes it or raises; the number says
  which call it is, so that a later call may have another outcome. Objects are numbers; what
  they can do is given by \<open>resource_api\<close>.
\<close>

record factory =
  fa_exists :: "pystr \<Rightarrow> bool"
  fa_create :: "nat \<Rightarrow> pystr \<Rightarrow> pystr \<Rightarrow> unit + nat option"

record resource_api =
  has_switch :: "nat \<Rightarrow> bool"
  switch_ok :: "nat \<Rightarrow> pystr \<Rightarrow> bool"
  has_close :: "nat \<Rightarrow> bool"

definition simple_factory :: factory where
  "simple_factory = \<lparr>fa_exists = \<lambda>_. True, fa_create = \<lambda>_ _ _. Inr None\<rparr>"

record resource_info =
  ri_queue :: "nat list"
  ri_activeUsers :: int
  ri_currentLock :: "pystr option"
  ri_realObj :: "nat option"

definition new_resource_info :: "nat option \<Rightarrow> resource_info" where
  "new_resource_info obj =
     \<lparr>ri_queue = [], ri_activeUsers = 0, ri_currentLock = None, ri_realObj = obj\<rparr>"

record namespace =
  ns_resources :: "pystr \<rightharpoonup> resource_info"
  ns_factory :: factory

definition new_namespace :: "factory \<Rightarrow> namespace" where
  "new_namespace fa = \<lparr>ns_resources = Map.empty, ns_factory = fa\<rparr>"

text \<open>An event is the request and what its callback got: nothing, or a reference to an object.\<close>

record manager =
  m_namespaces :: "pystr \<rightharpoonup> namespace"
  m_requests :: "request list"
  m_events :: "(nat \<times> nat option option) list"
  m_calls :: nat
  m_closed :: "nat list"

definition new_manager :: manager where
  "new_manager = \<lparr>m_namespaces = Map.empty, m_requests = [], m_events = [], m_calls = 0, m_closed = []\<rparr>"

abbreviation req :: "nat \<Rightarrow> manager \<Rightarrow> request" where
  "req i m \<equiv> m_requests m ! i"

definition set_req :: "nat \<Rightarrow> request \<Rightarrow> manager \<Rightarrow> manager" where
  "set_req i r m = m\<lparr>m_requests := (m_requests m)[i := r]\<rparr>"

definition callback :: "nat \<Rightarrow> nat option option \<Rightarrow> manager \<Rightarrow> manager" where
  "callback i res m = m\<lparr>m_events := m_events m @ [(i, res)]\<rparr>"

definition request_cancel :: "nat \<Rightarrow> (manager, rm_error, unit) op" where
  "request_cancel i m =
     (if \<not> rq_isActive (req i m) then (Inl RequestAlreadyProcessed, m)
      else (Inr (), callback i None (set_req i ((req i m)\<lparr>rq_isActive := False, rq_isCanceled := True, rq_done := True\<rparr>) m)))"

definition request_grant :: "nat \<Rightarrow> (manager, rm_error, unit) op" where
  "request_grant i m =
     (if \<not> rq_isActive (req i m) then (Inl RequestAlreadyProcessed, m)
      else (Inr (), set_req i ((req i m)\<lparr>rq_isActive := False, rq_done := True\<rparr>) m))"

definition canceled :: "request \<Rightarrow> bool" where
  "canceled r \<longleftrightarrow> rq_isCanceled r"

definition granted :: "request \<Rightarrow> bool" where
  "granted r \<longleftrightarrow> \<not> rq_isCanceled r \<and> rq_done r"

definition request_status :: "request \<Rightarrow> pystr" where
  "request_status r = (if rq_isCanceled r then ''canceled'' else if rq_done r then ''granted'' else ''waiting'')"

definition emit :: "nat \<Rightarrow> nat option \<Rightarrow> manager \<Rightarrow> manager" where
  "emit i obj m = callback i (Some obj) m"

subsection \<open>Names\<close>

text \<open>
  The validators are \<open>^[\w\d_-]+$\<close> and \<open>^[^\s.]+$\<close>; the dollar also matches before a newline at
  the end of the text. The classes are the ones of Unicode text below 256.
\<close>

definition code_in :: "(nat \<times> nat) list \<Rightarrow> char \<Rightarrow> bool" where
  "code_in rs c \<longleftrightarrow> list_ex (\<lambda>(a, b). a \<le> of_char c \<and> of_char c \<le> b) rs"

definition re_word :: "char \<Rightarrow> bool" where
  "re_word = code_in [(48, 57), (65, 90), (95, 95), (97, 122), (170, 170), (178, 179), (181, 181),
     (185, 186), (188, 190), (192, 214), (216, 246), (248, 255)]"

definition re_space :: "char \<Rightarrow> bool" where
  "re_space = code_in [(9, 13), (28, 32), (133, 133), (160, 160)]"

definition match_all :: "(char \<Rightarrow> bool) \<Rightarrow> pystr \<Rightarrow> bool" where
  "match_all p s \<longleftrightarrow>
     s \<noteq> [] \<and> list_all p s \<or> s \<noteq> [] \<and> last s = NL \<and> butlast s \<noteq> [] \<and> list_all p (butlast s)"

definition valid_namespace :: "pystr \<Rightarrow> bool" where
  "valid_namespace = match_all (\<lambda>c. re_word c \<or> c = CHR ''-'')"

definition valid_resource_name :: "pystr \<Rightarrow> bool" where
  "valid_resource_name = match_all (\<lambda>c. \<not> re_space c \<and> c \<noteq> CHR ''.'')"

subsection \<open>The operations\<close>

definition put_resource :: "pystr \<Rightarrow> pystr \<Rightarrow> resource_info option \<Rightarrow> manager \<Rightarrow> manager" where
  "put_resource ns name ri m =
     (case m_namespaces m ns of
        None \<Rightarrow> m
      | Some nsp \<Rightarrow>
          m\<lparr>m_namespaces := (m_namespaces m)(ns \<mapsto> nsp\<lparr>ns_resources := (ns_resources nsp)(name := ri)\<rparr>)\<rparr>)"

definition registerNamespace :: "pystr \<Rightarrow> factory \<Rightarrow> (manager, rm_error, unit) op" where
  "registerNamespace ns fa m =
     (if \<not> valid_namespace ns then (Inl (InvalidNamespace ns), m)
      else if m_namespaces m ns \<noteq> None then (Inl (NamespaceRegistered ns), m)
      else (Inr (), m\<lparr>m_namespaces := (m_namespaces m)(ns \<mapsto> new_namespace fa)\<rparr>))"

definition statusFromType :: "pystr option \<Rightarrow> rm_error + pystr" where
  "statusFromType lt =
     (if lt = Some SHARED then Inr STATUS_SHARED
      else if lt = Some EXCLUSIVE then Inr STATUS_LOCKED
      else Inl (InvalidLockType (case lt of None \<Rightarrow> ''None'' | Some s \<Rightarrow> s)))"

definition getResourceStatus :: "pystr \<Rightarrow> pystr \<Rightarrow> manager \<Rightarrow> rm_error + pystr" where
  "getResourceStatus ns name m =
     (if \<not> valid_resource_name name then Inl (InvalidResourceName name)
      else case m_namespaces m ns of
             None \<Rightarrow> Inl RmValueError
           | Some nsp \<Rightarrow>
               if \<not> fa_exists (ns_factory nsp) name then Inl RmKeyError
               else (case ns_resources nsp name of
                       None \<Rightarrow> Inr STATUS_FREE
                     | Some ri \<Rightarrow> statusFromType (ri_currentLock ri)))"

definition freeResource :: "resource_api \<Rightarrow> resource_info \<Rightarrow> manager \<Rightarrow> manager" where
  "freeResource api ri m =
     (case ri_realObj ri of
        None \<Rightarrow> m
      | Some obj \<Rightarrow> if has_close api obj then m\<lparr>m_closed := m_closed m @ [obj]\<rparr> else m)"

definition create :: "factory \<Rightarrow> pystr \<Rightarrow> pystr \<Rightarrow> (manager, rm_error, nat option) op" where
  "create fa name lockType m =
     (case fa_create fa (m_calls m) name lockType of
        Inl _ \<Rightarrow> (Inl FactoryError, m\<lparr>m_calls := Suc (m_calls m)\<rparr>)
      | Inr obj \<Rightarrow> (Inr obj, m\<lparr>m_calls := Suc (m_calls m)\<rparr>))"

definition switchLockType ::
  "resource_api \<Rightarrow> factory \<Rightarrow> pystr \<Rightarrow> resource_info \<Rightarrow> pystr \<Rightarrow> manager \<Rightarrow> (rm_error + unit) \<times> resource_info \<times> manager" where
  "switchLockType api fa name ri newLockType m =
     (let switchLock = (ri_currentLock ri \<noteq> Some newLockType);
          ri1 = ri\<lparr>ri_currentLock := Some newLockType\<rparr>
      in case ri_realObj ri1 of
           None \<Rightarrow> (Inr (), ri1, m)
         | Some obj \<Rightarrow>
             if switchLock then
               (if has_switch api obj \<and> switch_ok api obj newLockType then (Inr (), ri1, m)
                else case create fa name newLockType (freeResource api ri1 m) of
                       (Inl e, m') \<Rightarrow> (Inl e, ri1, m')
                     | (Inr obj', m') \<Rightarrow> (Inr (), ri1\<lparr>ri_realObj := obj'\<rparr>, m'))
             else (Inr (), ri1, m))"

definition registerResource ::
  "pystr \<Rightarrow> pystr \<Rightarrow> pystr \<Rightarrow> (manager, rm_error, nat) op" where
  "registerResource ns name lockType m =
     (if \<not> valid_resource_name name then (Inl (InvalidResourceName name), m)
      else if lockType \<noteq> SHARED \<and> lockType \<noteq> EXCLUSIVE then (Inl (InvalidLockType lockType), m)
      else
        let i = length (m_requests m);
            m0 = m\<lparr>m_requests := m_requests m @ [new_request ns name lockType]\<rparr>
        in case m_namespaces m ns of
             None \<Rightarrow> (Inl RmValueError, m)
           | Some nsp \<Rightarrow>
               (case ns_resources nsp name of
                  Some ri \<Rightarrow>
                    if ri_queue ri = [] \<and> ri_currentLock ri = Some SHARED \<and> lockType = SHARED then
                      (case request_grant i (put_resource ns name (Some (ri\<lparr>ri_activeUsers := ri_activeUsers ri + 1\<rparr>)) m0) of
                         (Inl e, m1) \<Rightarrow> (Inl e, m1)
                       | (Inr _, m1) \<Rightarrow> (Inr i, emit i (ri_realObj ri) m1))
                    else (Inr i, put_resource ns name (Some (ri\<lparr>ri_queue := i # ri_queue ri\<rparr>)) m0)
                | None \<Rightarrow>
                    if \<not> fa_exists (ns_factory nsp) name then (Inl RmKeyError, m)
                    else (case create (ns_factory nsp) name lockType m0 of
                            (Inl _, m1) \<Rightarrow>
                              (case request_cancel i m1 of (Inl e, m2) \<Rightarrow> (Inl e, m2) | (Inr _, m2) \<Rightarrow> (Inr i, m2))
                          | (Inr obj, m1) \<Rightarrow>
                              (case request_grant i (put_resource ns name
                                  (Some ((new_resource_info obj)\<lparr>ri_currentLock := Some lockType, ri_activeUsers := 1\<rparr>)) m1) of
                                 (Inl e, m2) \<Rightarrow> (Inl e, m2)
                               | (Inr _, m2) \<Rightarrow> (Inr i, emit i obj m2)))))"

text \<open>
  \<open>releaseResource\<close> takes requests from the end of the queue. The loops get the queue oldest
  request first and give back what is left of it. The first loop looks for a request to grant;
  None says that the queue ran out.
\<close>

fun grant_first ::
  "resource_api \<Rightarrow> factory \<Rightarrow> pystr \<Rightarrow> resource_info \<Rightarrow> nat list \<Rightarrow> manager \<Rightarrow>
   (rm_error + nat option) \<times> resource_info \<times> nat list \<times> manager" where
  "grant_first api fa name ri [] m = (Inr None, ri, [], m)"
| "grant_first api fa name ri (i # q) m =
     (if canceled (req i m) then grant_first api fa name ri q m
      else case switchLockType api fa name ri (rq_lockType (req i m)) m of
             (Inl _, ri1, m1) \<Rightarrow>
               (case request_cancel i m1 of
                  (Inl e, m2) \<Rightarrow> (Inl e, ri1, q, m2)
                | (Inr _, m2) \<Rightarrow> grant_first api fa name ri1 q m2)
           | (Inr _, ri1, m1) \<Rightarrow>
               (case request_grant i m1 of
                  (Inl e, m2) \<Rightarrow> (Inl e, ri1, q, m2)
                | (Inr _, m2) \<Rightarrow> (Inr (Some i), ri1\<lparr>ri_activeUsers := ri_activeUsers ri1 + 1\<rparr>, q, m2)))"

text \<open>The second loop grants the shared requests at the head of the queue.\<close>

fun grant_shared :: "resource_info \<Rightarrow> nat list \<Rightarrow> nat list \<Rightarrow> manager \<Rightarrow> nat list \<times> resource_info \<times> nat list \<times> manager" where
  "grant_shared ri [] acc m = (acc, ri, [], m)"
| "grant_shared ri (i # q) acc m =
     (if canceled (req i m) then grant_shared ri q acc m
      else if rq_lockType (req i m) = EXCLUSIVE then (acc, ri, i # q, m)
      else case request_grant i m of
             (Inl _, m1) \<Rightarrow> grant_shared ri q acc m1
           | (Inr _, m1) \<Rightarrow> grant_shared (ri\<lparr>ri_activeUsers := ri_activeUsers ri + 1\<rparr>) q (acc @ [i]) m1)"

fun emit_all :: "nat list \<Rightarrow> nat option \<Rightarrow> manager \<Rightarrow> manager" where
  "emit_all [] obj m = m"
| "emit_all (i # is) obj m = emit_all is obj (emit i obj m)"

definition releaseResource :: "resource_api \<Rightarrow> pystr \<Rightarrow> pystr \<Rightarrow> (manager, rm_error, unit) op" where
  "releaseResource api ns name m =
     (case m_namespaces m ns of
        None \<Rightarrow> (Inl RmValueError, m)
      | Some nsp \<Rightarrow>
          (case ns_resources nsp name of
             None \<Rightarrow> (Inl RmValueError, m)
           | Some ri0 \<Rightarrow>
               (let ri = ri0\<lparr>ri_activeUsers := ri_activeUsers ri0 - 1\<rparr> in
                if ri_activeUsers ri > 0 then (Inr (), put_resource ns name (Some ri) m)
                else case grant_first api (ns_factory nsp) name ri (rev (ri_queue ri)) m of
                       (Inl e, ri1, q, m1) \<Rightarrow> (Inl e, put_resource ns name (Some (ri1\<lparr>ri_queue := rev q\<rparr>)) m1)
                     | (Inr None, ri1, _, m1) \<Rightarrow> (Inr (), put_resource ns name None (freeResource api ri1 m1))
                     | (Inr (Some i), ri1, q, m1) \<Rightarrow>
                         if ri_currentLock ri1 = Some EXCLUSIVE then
                           (Inr (), emit i (ri_realObj ri1) (put_resource ns name (Some (ri1\<lparr>ri_queue := rev q\<rparr>)) m1))
                         else
                           (let (rest, ri2, q2, m2) = grant_shared ri1 q [] m1
                            in (Inr (), emit_all (i # rest) (ri_realObj ri2)
                                  (put_resource ns name (Some (ri2\<lparr>ri_queue := rev q2\<rparr>)) m2))))))"

text \<open>
  \<open>acquireResource\<close> waits for its request. The two functions are what other threads do to the
  manager until the wait ends, and between the end of the wait and the cancellation.
\<close>

definition acquireResource ::
  "pystr \<Rightarrow> pystr \<Rightarrow> pystr \<Rightarrow> (manager \<Rightarrow> manager) \<Rightarrow> (manager \<Rightarrow> manager) \<Rightarrow> (manager, rm_error, nat) op" where
  "acquireResource ns name lockType while_waiting before_cancel m =
     (case registerResource ns name lockType m of
        (Inl e, m1) \<Rightarrow> (Inl e, m1)
      | (Inr i, m1) \<Rightarrow>
          (let m2 = while_waiting m1 in
           if granted (req i m2) then (Inr i, m2)
           else
             let m3 = before_cancel m2
             in case request_cancel i m3 of
                  (Inr _, m4) \<Rightarrow> (Inl RequestTimedOut, m4)
                | (Inl _, m4) \<Rightarrow> if canceled (req i m4) then (Inl ResourceAcqusitionFailed, m4) else (Inr i, m4)))"

definition getNamespace :: "pystr list \<Rightarrow> pystr" where
  "getNamespace parts = (case parts of [] \<Rightarrow> [] | p # ps \<Rightarrow> p @ concat (map (\<lambda>s. ''_'' @ s) ps))"

subsection \<open>Requests keep their identity\<close>

definition req_ok :: "request \<Rightarrow> bool" where
  "req_ok r \<longleftrightarrow> (rq_lockType r = SHARED \<or> rq_lockType r = EXCLUSIVE) \<and>
     (if rq_isActive r then \<not> rq_isCanceled r \<and> \<not> rq_done r else rq_done r)"

definition same_name :: "request \<Rightarrow> request \<Rightarrow> bool" where
  "same_name r r' \<longleftrightarrow> rq_namespace r' = rq_namespace r \<and> rq_name r' = rq_name r \<and> rq_lockType r' = rq_lockType r"

text \<open>Only the requests in the set may have changed, and only in their state.\<close>

definition req_frame :: "nat set \<Rightarrow> manager \<Rightarrow> manager \<Rightarrow> bool" where
  "req_frame S m m' \<longleftrightarrow>
     length (m_requests m') = length (m_requests m) \<and> m_namespaces m' = m_namespaces m \<and>
     (\<forall>j < length (m_requests m). req_ok (req j m) \<longrightarrow> req_ok (req j m') \<and> same_name (req j m) (req j m')) \<and>
     (\<forall>j. j \<notin> S \<longrightarrow> req j m' = req j m)"

lemma req_frame_refl [simp, intro]: "req_frame S m m"
  by (simp add: req_frame_def same_name_def)

lemma req_frame_trans:
  "req_frame S m m1 \<Longrightarrow> req_frame S' m1 m2 \<Longrightarrow> S \<union> S' \<subseteq> S'' \<Longrightarrow> req_frame S'' m m2"
  unfolding req_frame_def same_name_def by (auto simp: subset_iff) metis

lemma freeResource_frame [simp]: "req_frame S m (freeResource api ri m)"
  by (simp add: freeResource_def req_frame_def same_name_def split: option.splits)

lemma create_frame: "create fa name lt m = (r, m') \<Longrightarrow> req_frame S m m'"
  by (auto simp: create_def req_frame_def same_name_def split: sum.splits)

lemma switch_frame:
  assumes "switchLockType api fa name ri lt m = (r, ri', m')"
  shows "req_frame S m m' \<and> ri_currentLock ri' = Some lt \<and> ri_activeUsers ri' = ri_activeUsers ri \<and> ri_queue ri' = ri_queue ri"
proof -
  have "req_frame S m m''" if "create fa name lt (freeResource api ri1 m) = (x, m'')" for x m'' ri1
    by (rule req_frame_trans [OF freeResource_frame create_frame [OF that]]) auto
  then show ?thesis
    using assms by (auto simp: switchLockType_def Let_def split: option.splits if_splits prod.splits sum.splits)
qed

lemma cancel_active:
  assumes "rq_isActive (req i m)" and "i < length (m_requests m)"
  obtains m' where "request_cancel i m = (Inr (), m')" "req_frame {i} m m'" "canceled (req i m')"
  using assms that
  by (auto simp: request_cancel_def callback_def set_req_def req_frame_def same_name_def req_ok_def canceled_def nth_list_update)

lemma grant_active:
  assumes "rq_isActive (req i m)" and "i < length (m_requests m)" and "req_ok (req i m)"
  obtains m' where "request_grant i m = (Inr (), m')" "req_frame {i} m m'" "granted (req i m')"
  using assms that
  by (auto simp: request_grant_def set_req_def req_frame_def same_name_def req_ok_def granted_def nth_list_update)

text \<open>A queue of requests that are waiting or canceled.\<close>

definition queue_of :: "manager \<Rightarrow> nat list \<Rightarrow> bool" where
  "queue_of m q \<longleftrightarrow> distinct q \<and>
     (\<forall>i \<in> set q. i < length (m_requests m) \<and> req_ok (req i m) \<and> \<not> granted (req i m))"

lemma queue_of_active:
  "queue_of m q \<Longrightarrow> i \<in> set q \<Longrightarrow> \<not> canceled (req i m) \<Longrightarrow> rq_isActive (req i m)"
  by (auto simp: queue_of_def req_ok_def granted_def canceled_def split: if_splits)

lemma queue_of_frame:
  assumes "queue_of m (i # q)" and "req_frame {i} m m'"
  shows "queue_of m' q"
proof -
  have "req j m' = req j m" if "j \<in> set q" for j
    using assms that by (auto simp: queue_of_def req_frame_def)
  then show ?thesis using assms by (simp add: queue_of_def req_frame_def)
qed

lemma queue_of_same: "queue_of m q \<Longrightarrow> req_frame {} m m' \<Longrightarrow> queue_of m' q"
  by (simp add: queue_of_def req_frame_def)

text \<open>
  The outcome of the search for a request to grant: the requests that were passed over are
  canceled, and the one that was found, if any, is granted.
\<close>

lemma grant_first_spec:
  assumes "queue_of m q" and "grant_first api fa name ri q m = (res, ri', q', m')"
  shows "\<exists>p. q = p @ q' \<and> req_frame (set p) m m' \<and> ri_queue ri' = ri_queue ri \<and>
    (case res of
       Inl _ \<Rightarrow> False
     | Inr None \<Rightarrow> q' = [] \<and> (\<forall>j \<in> set p. canceled (req j m'))
     | Inr (Some i) \<Rightarrow> p \<noteq> [] \<and> i = last p \<and> (\<forall>j \<in> set (butlast p). canceled (req j m')) \<and> granted (req i m') \<and>
         ri_activeUsers ri' = ri_activeUsers ri + 1 \<and> ri_currentLock ri' = Some (rq_lockType (req i m')))"
  using assms
proof (induction q arbitrary: ri m)
  case Nil
  then show ?case by (auto intro!: exI [of _ "[]"])
next
  case (Cons i q)
  have i: "i < length (m_requests m)" "req_ok (req i m)" "i \<notin> set q" using Cons.prems(1) by (auto simp: queue_of_def)
  text \<open>What the rest of the queue gives, once \<open>i\<close> is canceled.\<close>
  have skip: ?case if fr: "req_frame {i} m m1" and ca: "canceled (req i m1)" and sub: "queue_of m1 q"
    and eq: "grant_first api fa name ri1 q m1 = (res, ri', q', m')" and riq: "ri_queue ri1 = ri_queue ri"
    and act: "ri_activeUsers ri1 = ri_activeUsers ri" for m1 ri1
  proof -
    obtain p where p: "q = p @ q'" "req_frame (set p) m1 m'" "ri_queue ri' = ri_queue ri1"
      and out: "case res of Inl _ \<Rightarrow> False
        | Inr None \<Rightarrow> q' = [] \<and> (\<forall>j \<in> set p. canceled (req j m'))
        | Inr (Some i) \<Rightarrow> p \<noteq> [] \<and> i = last p \<and> (\<forall>j \<in> set (butlast p). canceled (req j m')) \<and> granted (req i m') \<and>
            ri_activeUsers ri' = ri_activeUsers ri1 + 1 \<and> ri_currentLock ri' = Some (rq_lockType (req i m'))"
      using Cons.IH [OF sub eq] by blast
    have "req i m' = req i m1" using p(1,2) i(3) by (auto simp: req_frame_def)
    then have "canceled (req i m')" using ca by simp
    moreover have "req_frame (set (i # p)) m m'" by (rule req_frame_trans [OF fr p(2)]) auto
    ultimately show ?case
      using p out riq act
      by (intro exI [of _ "i # p"]) (auto split: sum.splits option.splits)
  qed
  show ?case
  proof (cases "canceled (req i m)")
    case True
    have "queue_of m q" using Cons.prems(1) by (auto simp: queue_of_def)
    then show ?thesis using skip [of m ri] True Cons.prems(2) by simp
  next
    case False
    have act: "rq_isActive (req i m)" using queue_of_active [OF Cons.prems(1)] False by simp
    obtain sw ri1 m1 where sw: "switchLockType api fa name ri (rq_lockType (req i m)) m = (sw, ri1, m1)"
      by (metis prod_cases3)
    have s1: "req_frame {} m m1" "ri_currentLock ri1 = Some (rq_lockType (req i m))"
      "ri_activeUsers ri1 = ri_activeUsers ri" "ri_queue ri1 = ri_queue ri"
      using switch_frame [OF sw] by auto
    have r1: "req i m1 = req i m" "i < length (m_requests m1)" using s1(1) i(1) by (auto simp: req_frame_def)
    show ?thesis
    proof (cases sw)
      case (Inl e)
      obtain m2 where m2: "request_cancel i m1 = (Inr (), m2)" "req_frame {i} m1 m2" "canceled (req i m2)"
        by (rule cancel_active [of m1 i]) (use act r1 in auto)
      have fr: "req_frame {i} m m2" by (rule req_frame_trans [OF s1(1) m2(2)]) auto
      have "grant_first api fa name ri1 q m2 = (res, ri', q', m')"
        using Cons.prems(2) False sw Inl m2(1) by simp
      then show ?thesis
        by (rule skip [OF fr m2(3) queue_of_frame [OF Cons.prems(1) fr] _ s1(4) s1(3)])
    next
      case (Inr u)
      obtain m2 where m2: "request_grant i m1 = (Inr (), m2)" "req_frame {i} m1 m2" "granted (req i m2)"
        by (rule grant_active [of m1 i]) (use act r1 i in auto)
      have fr: "req_frame {i} m m2" by (rule req_frame_trans [OF s1(1) m2(2)]) auto
      have out: "res = Inr (Some i)" "ri' = ri1\<lparr>ri_activeUsers := ri_activeUsers ri1 + 1\<rparr>" "q' = q" "m' = m2"
        using Cons.prems(2) False sw Inr m2(1) by auto
      have "rq_lockType (req i m2) = rq_lockType (req i m)"
        using fr i by (auto simp: req_frame_def same_name_def)
      then show ?thesis
        using out fr m2(3) s1 by (intro exI [of _ "[i]"]) auto
    qed
  qed
qed

lemma grant_shared_spec:
  assumes "queue_of m q" and "grant_shared ri q acc m = (acc', ri', q', m')"
  shows "\<exists>p new. q = p @ q' \<and> acc' = acc @ new \<and> req_frame (set p) m m' \<and> distinct new \<and> set new \<subseteq> set p \<and>
    ri' = ri\<lparr>ri_activeUsers := ri_activeUsers ri + int (length new)\<rparr> \<and>
    (\<forall>j \<in> set new. granted (req j m') \<and> rq_lockType (req j m') = SHARED) \<and>
    (\<forall>j \<in> set p - set new. canceled (req j m')) \<and>
    (case q' of [] \<Rightarrow> True | i # _ \<Rightarrow> rq_isActive (req i m') \<and> rq_lockType (req i m') = EXCLUSIVE)"
  using assms
proof (induction q arbitrary: ri acc m)
  case Nil
  then show ?case by (intro exI [of _ "[]"]) auto
next
  case (Cons i q)
  have i: "i < length (m_requests m)" "req_ok (req i m)" "i \<notin> set q" using Cons.prems(1) by (auto simp: queue_of_def)
  show ?case
  proof (cases "\<not> canceled (req i m) \<and> rq_lockType (req i m) = EXCLUSIVE")
    case True
    then show ?thesis
      using Cons.prems queue_of_active [OF Cons.prems(1), of i] by (intro exI [of _ "[]"]) auto
  next
    case False
    obtain m1 ri1 acc1 new1 where step: "grant_shared ri1 q acc1 m1 = (acc', ri', q', m')"
      "req_frame {i} m m1" "acc1 = acc @ new1" "new1 = (if canceled (req i m) then [] else [i])"
      "ri1 = ri\<lparr>ri_activeUsers := ri_activeUsers ri + int (length new1)\<rparr>"
      "if new1 = [] then canceled (req i m1) else granted (req i m1) \<and> rq_lockType (req i m1) = SHARED"
    proof (cases "canceled (req i m)")
      case True
      then show thesis using Cons.prems(2) by (intro that [of ri acc m "[]"]) auto
    next
      case nc: False
      then have "rq_isActive (req i m)" using queue_of_active [OF Cons.prems(1)] by simp
      then obtain m1 where m1: "request_grant i m = (Inr (), m1)" "req_frame {i} m m1" "granted (req i m1)"
        using grant_active [of m i] i by blast
      moreover have "rq_lockType (req i m1) = SHARED"
        using m1(2) i False nc by (auto simp: req_frame_def same_name_def req_ok_def)
      ultimately show thesis
        using Cons.prems(2) False nc by (intro that [of "ri\<lparr>ri_activeUsers := ri_activeUsers ri + 1\<rparr>" "acc @ [i]" m1 "[i]"]) auto
    qed
    obtain p new where p: "q = p @ q'" "acc' = acc1 @ new" "req_frame (set p) m1 m'" "distinct new" "set new \<subseteq> set p"
      "ri' = ri1\<lparr>ri_activeUsers := ri_activeUsers ri1 + int (length new)\<rparr>"
      "\<forall>j \<in> set new. granted (req j m') \<and> rq_lockType (req j m') = SHARED"
      "\<forall>j \<in> set p - set new. canceled (req j m')"
      "case q' of [] \<Rightarrow> True | i # _ \<Rightarrow> rq_isActive (req i m') \<and> rq_lockType (req i m') = EXCLUSIVE"
      using Cons.IH [OF queue_of_frame [OF Cons.prems(1) step(2)] step(1)] by blast
    have same: "req i m' = req i m1" using p(1,3) i(3) by (auto simp: req_frame_def)
    have "req_frame (set (i # p)) m m'" by (rule req_frame_trans [OF step(2) p(3)]) auto
    then show ?thesis
      using p step(3-6) same i(3)
      by (intro exI [of _ "i # p"] exI [of _ "new1 @ new"]) (auto split: if_splits)
  qed
qed

subsection \<open>The invariant\<close>

text \<open>
  \<open>held\<close> are the granted requests of a resource that were not released; \<open>R\<close> are the ones that
  were. The count of active users is the number of holders, all holders have the current lock
  type, and an exclusive holder is alone. Every active request waits in the queue of a
  resource that is in use.
\<close>

definition resource_at :: "pystr \<Rightarrow> pystr \<Rightarrow> manager \<Rightarrow> resource_info option" where
  "resource_at ns name m = (case m_namespaces m ns of None \<Rightarrow> None | Some nsp \<Rightarrow> ns_resources nsp name)"

definition req_at :: "pystr \<Rightarrow> pystr \<Rightarrow> manager \<Rightarrow> nat set" where
  "req_at ns name m = {i. i < length (m_requests m) \<and> rq_namespace (req i m) = ns \<and> rq_name (req i m) = name}"

definition held :: "manager \<Rightarrow> nat set \<Rightarrow> pystr \<Rightarrow> pystr \<Rightarrow> nat set" where
  "held m R ns name = {i \<in> req_at ns name m. granted (req i m) \<and> i \<notin> R}"

definition info_ok :: "manager \<Rightarrow> nat set \<Rightarrow> pystr \<Rightarrow> pystr \<Rightarrow> resource_info \<Rightarrow> bool" where
  "info_ok m R ns name ri \<longleftrightarrow>
     ri_activeUsers ri = int (card (held m R ns name)) \<and> 0 < ri_activeUsers ri \<and>
     (ri_currentLock ri = Some SHARED \<or> ri_currentLock ri = Some EXCLUSIVE \<and> ri_activeUsers ri = 1) \<and>
     (\<forall>i \<in> held m R ns name. ri_currentLock ri = Some (rq_lockType (req i m))) \<and>
     queue_of m (ri_queue ri) \<and> set (ri_queue ri) \<subseteq> req_at ns name m"

definition rm_inv :: "manager \<Rightarrow> nat set \<Rightarrow> bool" where
  "rm_inv m R \<longleftrightarrow>
     (\<forall>i < length (m_requests m). req_ok (req i m)) \<and> R \<subseteq> {i. i < length (m_requests m) \<and> granted (req i m)} \<and>
     (\<forall>ns name. resource_at ns name m = None \<longrightarrow> held m R ns name = {}) \<and>
     (\<forall>ns name ri. resource_at ns name m = Some ri \<longrightarrow> info_ok m R ns name ri) \<and>
     (\<forall>i < length (m_requests m). rq_isActive (req i m) \<longrightarrow>
        (\<exists>ri. resource_at (rq_namespace (req i m)) (rq_name (req i m)) m = Some ri \<and> i \<in> set (ri_queue ri)))"

lemma rm_invD:
  assumes "rm_inv m R"
  shows "\<And>i. i < length (m_requests m) \<Longrightarrow> req_ok (req i m)" "\<And>i. i \<in> R \<Longrightarrow> i < length (m_requests m) \<and> granted (req i m)"
    "\<And>ns name. resource_at ns name m = None \<Longrightarrow> held m R ns name = {}"
    "\<And>ns name ri. resource_at ns name m = Some ri \<Longrightarrow> info_ok m R ns name ri"
    "\<And>i. i < length (m_requests m) \<Longrightarrow> rq_isActive (req i m) \<Longrightarrow>
       \<exists>ri. resource_at (rq_namespace (req i m)) (rq_name (req i m)) m = Some ri \<and> i \<in> set (ri_queue ri)"
  using assms by (auto simp: rm_inv_def)

lemma rm_inv_new: "rm_inv new_manager {}"
  by (simp add: rm_inv_def new_manager_def resource_at_def held_def req_at_def)

lemma finite_held [simp]: "finite (held m R ns name)"
  by (rule finite_subset [of _ "{i. i < length (m_requests m)}"]) (auto simp: held_def req_at_def)

lemma resource_at_put:
  assumes "resource_at ns name m = Some ri \<or> m_namespaces m ns \<noteq> None"
  shows "resource_at ns' name' (put_resource ns name x m) = (if ns' = ns \<and> name' = name then x else resource_at ns' name' m)"
  using assms by (auto simp: resource_at_def put_resource_def split: option.splits)

lemma put_resource_requests [simp]: "m_requests (put_resource ns name x m) = m_requests m"
  by (simp add: put_resource_def split: option.splits)

lemma held_put [simp]: "held (put_resource ns name x m) = held m"
  by (simp add: held_def req_at_def fun_eq_iff)

lemma info_ok_requests: "m_requests m' = m_requests m \<Longrightarrow> info_ok m' = info_ok m"
  by (simp add: info_ok_def held_def req_at_def queue_of_def fun_eq_iff)

lemma emit_fields [simp]:
  "m_requests (emit i obj m) = m_requests m" "m_namespaces (emit i obj m) = m_namespaces m"
  by (simp_all add: emit_def callback_def)

lemma emit_all_fields [simp]:
  "m_requests (emit_all is obj m) = m_requests m" "m_namespaces (emit_all is obj m) = m_namespaces m"
  by (induction "is" arbitrary: m) simp_all

lemma rm_inv_same:
  assumes "m_requests m' = m_requests m" and "\<And>ns name. resource_at ns name m' = resource_at ns name m"
  shows "rm_inv m' R = rm_inv m R"
proof -
  have "held m' = held m" using assms(1) by (simp add: held_def req_at_def fun_eq_iff)
  then show ?thesis using assms by (simp add: rm_inv_def info_ok_requests [OF assms(1)])
qed

subsection \<open>A change to one resource\<close>

abbreviation named_as :: "pystr \<Rightarrow> pystr \<Rightarrow> request \<Rightarrow> bool" where
  "named_as ns name r \<equiv> rq_namespace r = ns \<and> rq_name r = name"

text \<open>Only the resource and its requests may change; requests may be added to it.\<close>

definition local_change :: "pystr \<Rightarrow> pystr \<Rightarrow> manager \<Rightarrow> nat set \<Rightarrow> manager \<Rightarrow> nat set \<Rightarrow> bool" where
  "local_change ns name m R m' R' \<longleftrightarrow>
     length (m_requests m) \<le> length (m_requests m') \<and> R' \<subseteq> {i. i < length (m_requests m') \<and> granted (req i m')} \<and>
     (\<forall>j < length (m_requests m'). req_ok (req j m')) \<and>
     (\<forall>j < length (m_requests m). same_name (req j m) (req j m')) \<and>
     (\<forall>j < length (m_requests m'). \<not> named_as ns name (req j m') \<longrightarrow>
        j < length (m_requests m) \<and> req j m' = req j m \<and> (j \<in> R' \<longleftrightarrow> j \<in> R)) \<and>
     (\<forall>ns' name'. (ns', name') \<noteq> (ns, name) \<longrightarrow> resource_at ns' name' m' = resource_at ns' name' m)"

definition local_ok :: "pystr \<Rightarrow> pystr \<Rightarrow> manager \<Rightarrow> nat set \<Rightarrow> bool" where
  "local_ok ns name m R \<longleftrightarrow>
     (case resource_at ns name m of
        None \<Rightarrow> held m R ns name = {} \<and>
          (\<forall>i < length (m_requests m). named_as ns name (req i m) \<longrightarrow> \<not> rq_isActive (req i m))
      | Some ri \<Rightarrow> info_ok m R ns name ri \<and>
          (\<forall>i < length (m_requests m). named_as ns name (req i m) \<and> rq_isActive (req i m) \<longrightarrow> i \<in> set (ri_queue ri)))"

lemma rm_inv_local:
  assumes inv: "rm_inv m R" and ch: "local_change ns name m R m' R'" and ok: "local_ok ns name m' R'"
  shows "rm_inv m' R'"
proof -
  have lc: "length (m_requests m) \<le> length (m_requests m')" "R' \<subseteq> {i. i < length (m_requests m') \<and> granted (req i m')}"
    "\<And>j. j < length (m_requests m') \<Longrightarrow> req_ok (req j m')"
    "\<And>j. j < length (m_requests m) \<Longrightarrow> same_name (req j m) (req j m')"
    "\<And>j. j < length (m_requests m') \<Longrightarrow> \<not> named_as ns name (req j m') \<Longrightarrow>
        j < length (m_requests m) \<and> req j m' = req j m \<and> (j \<in> R' \<longleftrightarrow> j \<in> R)"
    "\<And>ns' name'. (ns', name') \<noteq> (ns, name) \<Longrightarrow> resource_at ns' name' m' = resource_at ns' name' m"
    using ch unfolding local_change_def by blast+
  have at: "req_at ns' name' m' = req_at ns' name' m" if "(ns', name') \<noteq> (ns, name)" for ns' name'
  proof (intro set_eqI iffI)
    fix j assume "j \<in> req_at ns' name' m'"
    then show "j \<in> req_at ns' name' m" using lc(5) [of j] that by (auto simp: req_at_def)
  next
    fix j assume "j \<in> req_at ns' name' m"
    then show "j \<in> req_at ns' name' m'" using lc(1) lc(4) [of j] by (simp add: req_at_def same_name_def)
  qed
  have same: "req j m' = req j m \<and> (j \<in> R' \<longleftrightarrow> j \<in> R)" if "(ns', name') \<noteq> (ns, name)" "j \<in> req_at ns' name' m" for j ns' name'
  proof -
    have "j \<in> req_at ns' name' m'" using at [OF that(1)] that(2) by simp
    then have "j < length (m_requests m')" "\<not> named_as ns name (req j m')" using that(1) by (auto simp: req_at_def)
    then show ?thesis using lc(5) by blast
  qed
  have held: "held m' R' ns' name' = held m R ns' name'" if "(ns', name') \<noteq> (ns, name)" for ns' name'
    unfolding held_def at [OF that] using same [OF that] by (intro Collect_cong) auto
  have info: "info_ok m' R' ns' name' ri" if ne: "(ns', name') \<noteq> (ns, name)" and ok: "info_ok m R ns' name' ri" for ns' name' ri
  proof -
    have sub: "set (ri_queue ri) \<subseteq> req_at ns' name' m" using ok by (simp add: info_ok_def)
    have "queue_of m' (ri_queue ri)"
      unfolding queue_of_def
    proof (intro conjI ballI)
      show "distinct (ri_queue ri)" using ok by (simp add: info_ok_def queue_of_def)
      fix j assume j: "j \<in> set (ri_queue ri)"
      then have "req j m' = req j m" using same [OF ne, of j] sub by blast
      moreover have "j < length (m_requests m) \<and> req_ok (req j m) \<and> \<not> granted (req j m)"
        using ok j by (simp add: info_ok_def queue_of_def)
      ultimately show "j < length (m_requests m')" "req_ok (req j m')" "\<not> granted (req j m')" using lc(1) by auto
    qed
    moreover have "rq_lockType (req j m') = rq_lockType (req j m)" if "j \<in> held m R ns' name'" for j
      using same [OF ne, of j] that by (simp add: held_def)
    then have "\<forall>j \<in> held m R ns' name'. ri_currentLock ri = Some (rq_lockType (req j m'))"
      using ok by (simp add: info_ok_def)
    ultimately show ?thesis using ok sub unfolding info_ok_def held [OF ne] at [OF ne] by blast
  qed
  show ?thesis
    unfolding rm_inv_def
  proof (intro conjI allI impI)
    show "req_ok (req i m')" if "i < length (m_requests m')" for i using lc(3) that .
    show "R' \<subseteq> {i. i < length (m_requests m') \<and> granted (req i m')}" by (rule lc(2))
    show "held m' R' ns' name' = {}" if "resource_at ns' name' m' = None" for ns' name'
      using that ok rm_invD(3) [OF inv, of ns' name'] held [of ns' name'] lc(6) [of ns' name']
      by (cases "(ns', name') = (ns, name)") (auto simp: local_ok_def)
    show "info_ok m' R' ns' name' ri" if "resource_at ns' name' m' = Some ri" for ns' name' ri
      using that ok rm_invD(4) [OF inv, of ns' name'] info [of ns' name'] lc(6) [of ns' name']
      by (cases "(ns', name') = (ns, name)") (auto simp: local_ok_def)
    show "\<exists>ri. resource_at (rq_namespace (req i m')) (rq_name (req i m')) m' = Some ri \<and> i \<in> set (ri_queue ri)"
      if i: "i < length (m_requests m')" "rq_isActive (req i m')" for i
    proof (cases "named_as ns name (req i m')")
      case True
      then show ?thesis using ok i by (auto simp: local_ok_def split: option.splits)
    next
      case False
      then have same: "i < length (m_requests m)" "req i m' = req i m" using lc(5) [OF i(1)] by auto
      have "(rq_namespace (req i m), rq_name (req i m)) \<noteq> (ns, name)" using False same(2) by auto
      then show ?thesis using rm_invD(5) [OF inv same(1)] i(2) same(2) lc(6) by auto
    qed
  qed
qed

end
