(* ===== verification/Resource_Steps.thy ===== *)
theory Resource_Steps
  imports Resource_Manager
begin

text \<open>
  The operations of the resource manager keep its invariant; executions of clients that release
  what they were granted; and what follows for the holders of a resource.
\<close>

subsection \<open>The operations keep the invariant\<close>

lemma inv_registerNamespace: "rm_inv m R \<Longrightarrow> rm_inv (snd (registerNamespace ns fa m)) R"
proof (cases "valid_namespace ns \<and> m_namespaces m ns = None")
  case True
  let ?m = "m\<lparr>m_namespaces := (m_namespaces m)(ns \<mapsto> new_namespace fa)\<rparr>"
  have "resource_at ns' name ?m = resource_at ns' name m" for ns' name
    using True by (simp add: resource_at_def new_namespace_def)
  then show "rm_inv m R \<Longrightarrow> ?thesis" using True rm_inv_same [of ?m m R] by (simp add: registerNamespace_def)
qed (auto simp: registerNamespace_def)

lemma frame_local_change:
  assumes inv: "rm_inv m R" and fr: "req_frame S m m1" and S: "S \<subseteq> req_at ns name m"
    and req: "m_requests m' = m_requests m1" and T: "T \<subseteq> req_at ns name m"
    and gr: "\<And>j. j \<in> S \<Longrightarrow> \<not> granted (req j m)" "\<And>j. j \<in> T \<Longrightarrow> granted (req j m)"
    and res: "\<And>ns' name'. (ns', name') \<noteq> (ns, name) \<Longrightarrow> resource_at ns' name' m' = resource_at ns' name' m"
  shows "local_change ns name m R m' (R \<union> T)"
proof -
  have len: "length (m_requests m') = length (m_requests m)" using fr req by (simp add: req_frame_def)
  have ok: "req_ok (req j m') \<and> same_name (req j m) (req j m')" if "j < length (m_requests m)" for j
    using fr req that rm_invD(1) [OF inv that] by (simp add: req_frame_def)
  have out: "req j m' = req j m \<and> j \<notin> T" if "j < length (m_requests m)" "\<not> named_as ns name (req j m')" for j
  proof -
    have "j \<notin> req_at ns name m" using ok [OF that(1)] that(2) by (auto simp: req_at_def same_name_def)
    then show ?thesis using fr S T req by (auto simp: req_frame_def)
  qed
  have "granted (req j m') \<and> j < length (m_requests m)" if "j \<in> R \<union> T" for j
  proof -
    have "granted (req j m)" "j < length (m_requests m)" using that rm_invD(2) [OF inv, of j] gr(2) [of j] T by (auto simp: req_at_def)
    moreover from this have "req j m' = req j m" using gr(1) [of j] fr req by (auto simp: req_frame_def)
    ultimately show ?thesis by simp
  qed
  then have "R \<union> T \<subseteq> {i. i < length (m_requests m') \<and> granted (req i m')}" by (auto simp: len)
  then show ?thesis
    unfolding local_change_def len using ok out res by auto
qed

lemma req_at_frame: "rm_inv m R \<Longrightarrow> req_frame S m m' \<Longrightarrow> req_at ns name m' = req_at ns name m"
  using rm_invD(1) [of m R] by (auto simp: req_at_def req_frame_def same_name_def)

lemma not_granted_active: "req_ok r \<Longrightarrow> rq_isActive r \<Longrightarrow> \<not> granted r"
  by (simp add: req_ok_def granted_def)

lemma not_granted_canceled: "canceled r \<Longrightarrow> \<not> granted r"
  by (simp add: canceled_def granted_def)

lemma not_active_canceled: "req_ok r \<Longrightarrow> canceled r \<Longrightarrow> \<not> rq_isActive r"
  by (auto simp: req_ok_def canceled_def)

lemma not_active_granted: "req_ok r \<Longrightarrow> granted r \<Longrightarrow> \<not> rq_isActive r"
  by (auto simp: req_ok_def granted_def)

lemma inv_cancel:
  assumes inv: "rm_inv m R" and i: "i < length (m_requests m)"
  shows "rm_inv (snd (request_cancel i m)) R"
proof (cases "rq_isActive (req i m)")
  case False
  then show ?thesis using inv by (simp add: request_cancel_def)
next
  case True
  obtain m' where m': "request_cancel i m = (Inr (), m')" "req_frame {i} m m'" "canceled (req i m')"
    using cancel_active [OF True i] by blast
  let ?ns = "rq_namespace (req i m)" and ?name = "rq_name (req i m)"
  have res: "resource_at a b m' = resource_at a b m" for a b using m'(2) by (simp add: resource_at_def req_frame_def)
  obtain ri where ri: "resource_at ?ns ?name m = Some ri" "i \<in> set (ri_queue ri)" using rm_invD(5) [OF inv i True] by blast
  have at: "req_at ?ns ?name m' = req_at ?ns ?name m" by (rule req_at_frame [OF inv m'(2)])
  have same: "req j m' = req j m" if "j \<noteq> i" for j using m'(2) that by (simp add: req_frame_def)
  have ok': "req_ok (req j m')" if "j < length (m_requests m)" for j
    using m'(2) rm_invD(1) [OF inv that] that by (simp add: req_frame_def)
  have "granted (req j m') = granted (req j m)" for j
    using same [of j] not_granted_canceled [OF m'(3)] not_granted_active [OF rm_invD(1) [OF inv i] True] by (cases "j = i") auto
  then have held: "held m' R ?ns ?name = held m R ?ns ?name" by (simp add: held_def at)
  have info: "info_ok m R ?ns ?name ri" by (rule rm_invD(4) [OF inv ri(1)])
  have lt: "rq_lockType (req j m') = rq_lockType (req j m)" if "j < length (m_requests m)" for j
    using m'(2) rm_invD(1) [OF inv that] that by (simp add: req_frame_def same_name_def)
  have "queue_of m' (ri_queue ri)"
    using info ok' \<open>\<And>j. granted (req j m') = granted (req j m)\<close> m'(2) by (simp add: info_ok_def queue_of_def req_frame_def)
  then have "info_ok m' R ?ns ?name ri"
    using info lt by (auto simp: info_ok_def held at) (auto simp: held_def req_at_def)
  moreover have "j \<in> set (ri_queue ri)" if "j < length (m_requests m')" "named_as ?ns ?name (req j m')" "rq_isActive (req j m')" for j
  proof (cases "j = i")
    case False
    then show ?thesis using same that rm_invD(5) [OF inv, of j] ri(1) m'(2) by (auto simp: req_frame_def)
  qed (simp add: ri(2))
  ultimately have "local_ok ?ns ?name m' R" using res ri(1) by (simp add: local_ok_def)
  moreover have "local_change ?ns ?name m R m' (R \<union> {})"
    by (rule frame_local_change [OF inv m'(2)])
      (use i res not_granted_active [OF rm_invD(1) [OF inv i] True] in \<open>auto simp: req_at_def\<close>)
  ultimately show ?thesis using rm_inv_local [OF inv] m'(1) by simp
qed

text \<open>What a release that finds no other user does to the queue of the resource.\<close>

lemma release_grants:
  assumes q: "queue_of m q" and users: "ri_activeUsers ri = 0"
    and gf: "grant_first api fa name ri q m = (Inr (Some i), ri1, q1, m1)"
    and gs: "(rest, ri2, q2, m2) =
      (if ri_currentLock ri1 = Some EXCLUSIVE then ([], ri1, q1, m1) else grant_shared ri1 q1 [] m1)"
  shows "\<exists>p. q = p @ q2 \<and> req_frame (set p) m m2 \<and> distinct (i # rest) \<and> set (i # rest) \<subseteq> set p \<and>
    ri_activeUsers ri2 = int (length (i # rest)) \<and> (ri_currentLock ri2 = Some EXCLUSIVE \<longrightarrow> rest = []) \<and>
    (ri_currentLock ri2 = Some SHARED \<or> ri_currentLock ri2 = Some EXCLUSIVE) \<and>
    (\<forall>j \<in> set (i # rest). granted (req j m2) \<and> ri_currentLock ri2 = Some (rq_lockType (req j m2))) \<and>
    (\<forall>j \<in> set p - set (i # rest). canceled (req j m2))"
proof -
  obtain p1 where p1: "q = p1 @ q1" "req_frame (set p1) m m1" "p1 \<noteq> []" "i = last p1"
    "\<forall>j \<in> set (butlast p1). canceled (req j m1)" "granted (req i m1)" "ri_activeUsers ri1 = 1"
    "ri_currentLock ri1 = Some (rq_lockType (req i m1))"
    using grant_first_spec [OF q gf] users by auto
  have p1': "set p1 = insert i (set (butlast p1))" "i \<in> set p1"
    using p1(3,4) by (metis append_butlast_last_id list.simps(15) list.set(1) set_append Un_insert_right sup_bot.right_neutral insertI1)+
  have dist: "distinct (p1 @ q1)" and ok: "\<forall>j \<in> set q. j < length (m_requests m) \<and> req_ok (req j m) \<and> \<not> granted (req j m)"
    using q p1(1) by (auto simp: queue_of_def)
  have ok1: "req_ok (req i m1)" using p1(1,2) p1'(2) ok by (auto simp: req_frame_def)
  show ?thesis
  proof (cases "ri_currentLock ri1 = Some EXCLUSIVE")
    case True
    then show ?thesis
      using gs p1 p1' by (intro exI [of _ p1]) auto
  next
    case False
    then have sh: "ri_currentLock ri1 = Some SHARED" using p1(8) ok1 by (auto simp: req_ok_def)
    have "queue_of m1 q1"
      using q p1(1,2) dist by (auto simp: queue_of_def req_frame_def)
    then obtain p2 new where p2: "q1 = p2 @ q2" "rest = new" "req_frame (set p2) m1 m2" "distinct new" "set new \<subseteq> set p2"
      "ri2 = ri1\<lparr>ri_activeUsers := ri_activeUsers ri1 + int (length new)\<rparr>"
      "\<forall>j \<in> set new. granted (req j m2) \<and> rq_lockType (req j m2) = SHARED"
      "\<forall>j \<in> set p2 - set new. canceled (req j m2)"
      using grant_shared_spec [of m1 q1 ri1 "[]" rest ri2 q2 m2] gs False by auto
    have same: "req j m2 = req j m1" if "j \<in> set p1" for j
      using p2(1,3) dist that by (auto simp: req_frame_def)
    have fr: "req_frame (set (p1 @ p2)) m m2" by (rule req_frame_trans [OF p1(2) p2(3)]) auto
    have "i \<notin> set new" using p2(1,5) dist p1'(2) by auto
    moreover have "\<forall>j \<in> set (p1 @ p2) - set (i # new). canceled (req j m2)"
      using p1(5) p1' p2(8) same by auto
    ultimately show ?thesis
      using p1 p1' p2 fr sh same by (intro exI [of _ "p1 @ p2"]) (auto simp: EXCLUSIVE_def SHARED_def)
  qed
qed

lemma inv_release_aux:
  assumes inv: "rm_inv m R" and ri: "resource_at ns name m = Some ri" and i0: "held m R ns name = {i0}"
    and p: "rev (ri_queue ri) = p @ q2" and fr: "req_frame (set p) m m2" and N: "distinct N" "set N \<subseteq> set p"
    and gr: "\<forall>j \<in> set N. granted (req j m2)" and ca: "\<forall>j \<in> set p - set N. canceled (req j m2)"
    and m': "m_requests m' = m_requests m2"
    and others: "\<And>ns' name'. (ns', name') \<noteq> (ns, name) \<Longrightarrow> resource_at ns' name' m' = resource_at ns' name' m"
  shows "local_change ns name m R m' (insert i0 R)" "held m' (insert i0 R) ns name = set N" "queue_of m' (rev q2)"
    "set q2 \<subseteq> req_at ns name m'"
    "\<And>j. j < length (m_requests m') \<Longrightarrow> named_as ns name (req j m') \<Longrightarrow> rq_isActive (req j m') \<Longrightarrow> j \<in> set q2"
proof -
  have info: "info_ok m R ns name ri" by (rule rm_invD(4) [OF inv ri])
  have sub: "set p \<union> set q2 \<subseteq> req_at ns name m" "queue_of m (rev (ri_queue ri))"
    using info arg_cong [OF p, of set] by (auto simp: info_ok_def queue_of_def)
  have dist: "distinct (p @ q2)" using sub(2) p by (simp add: queue_of_def)
  have i0': "i0 \<in> req_at ns name m" using i0 by (auto simp: held_def)
  have at: "req_at ns name m' = req_at ns name m" using req_at_frame [OF inv fr, of ns name] m' by (simp add: req_at_def)
  have same: "req j m' = req j m" if "j \<notin> set p" for j using fr m' that by (simp add: req_frame_def)
  have ok': "req_ok (req j m')" if "j < length (m_requests m)" for j
    using fr m' rm_invD(1) [OF inv that] that by (simp add: req_frame_def)
  have len: "length (m_requests m') = length (m_requests m)" using fr m' by (simp add: req_frame_def)
  show "local_change ns name m R m' (insert i0 R)"
  proof -
    have "\<not> granted (req j m)" if "j \<in> set p" for j using sub(2) p that by (auto simp: queue_of_def)
    moreover have "granted (req i0 m)" using i0 by (auto simp: held_def)
    ultimately show ?thesis using frame_local_change [OF inv fr _ m' _ _ _ others, of ns name "{i0}"] sub(1) i0' by simp
  qed
  have qm: "queue_of m q2" using sub(2) p dist by (auto simp: queue_of_def)
  have same2: "req j m' = req j m" if "j \<in> set q2" for j using same dist that by auto
  show "queue_of m' (rev q2)" using qm same2 len by (simp add: queue_of_def)
  show "set q2 \<subseteq> req_at ns name m'" using sub(1) at by simp
  show "held m' (insert i0 R) ns name = set N"
  proof (intro set_eqI iffI)
    fix j assume j: "j \<in> held m' (insert i0 R) ns name"
    then have j': "j \<in> req_at ns name m" "granted (req j m')" "j \<notin> R" "j \<noteq> i0" by (auto simp: held_def at)
    show "j \<in> set N"
    proof (rule ccontr)
      assume n: "j \<notin> set N"
      have "j \<in> set p"
      proof (rule ccontr)
        assume "j \<notin> set p"
        then have "j \<in> held m R ns name" using same [of j] j' by (simp add: held_def)
        then show False using i0 j'(4) by simp
      qed
      then show False using ca n j'(2) m' not_granted_canceled by auto
    qed
  next
    fix j assume j: "j \<in> set N"
    then have "j \<in> set p" "granted (req j m')" using N gr m' by auto
    moreover have "\<not> granted (req j m)" using sub(2) \<open>j \<in> set p\<close> p by (auto simp: queue_of_def)
    moreover have "j \<notin> R" using rm_invD(2) [OF inv, of j] calculation(3) by blast
    moreover have "granted (req i0 m)" using i0 by (auto simp: held_def)
    then have "j \<noteq> i0" using calculation(3) by blast
    ultimately show "j \<in> held m' (insert i0 R) ns name" using sub(1) by (auto simp: held_def at)
  qed
  show "j \<in> set q2" if j: "j < length (m_requests m')" "named_as ns name (req j m')" "rq_isActive (req j m')" for j
  proof (cases "j \<in> set p")
    case True
    then have "granted (req j m') \<or> canceled (req j m')" using gr ca m' by auto
    then show ?thesis using j(3) ok' [of j] not_active_canceled not_active_granted j(1) len by auto
  next
    case False
    then have "rq_isActive (req j m)" "named_as ns name (req j m)" using same j by auto
    then have "j \<in> set (ri_queue ri)" using rm_invD(5) [OF inv, of j] ri j(1) len by auto
    then show ?thesis using False arg_cong [OF p, of set] by auto
  qed
qed

lemma resource_at_namespace:
  assumes "resource_at ns name m = Some ri"
  obtains nsp where "m_namespaces m ns = Some nsp" "ns_resources nsp name = Some ri"
  using assms that by (auto simp: resource_at_def split: option.splits)

lemma resource_at_same: "m_namespaces m' = m_namespaces m \<Longrightarrow> resource_at ns name m' = resource_at ns name m"
  by (simp add: resource_at_def)

lemma freeResource_fields [simp]:
  "m_requests (freeResource api ri m) = m_requests m" "m_namespaces (freeResource api ri m) = m_namespaces m"
  by (simp_all add: freeResource_def split: option.splits)

text \<open>One user fewer.\<close>

lemma inv_release_shared:
  assumes inv: "rm_inv m R" and i0: "i0 \<in> held m R ns name" and ri: "resource_at ns name m = Some ri"
    and users: "1 < ri_activeUsers ri"
  shows "rm_inv (put_resource ns name (Some (ri\<lparr>ri_activeUsers := ri_activeUsers ri - 1\<rparr>)) m) (insert i0 R)"
proof -
  let ?ri = "ri\<lparr>ri_activeUsers := ri_activeUsers ri - 1\<rparr>" and ?m = "put_resource ns name (Some (ri\<lparr>ri_activeUsers := ri_activeUsers ri - 1\<rparr>)) m"
  have info: "info_ok m R ns name ri" by (rule rm_invD(4) [OF inv ri])
  have res: "resource_at ns' name' ?m = (if ns' = ns \<and> name' = name then Some ?ri else resource_at ns' name' m)" for ns' name'
    using resource_at_put [of ns name m ri] ri by simp
  have held: "held m (insert i0 R) ns name = held m R ns name - {i0}" by (auto simp: held_def)
  have "card (held m R ns name - {i0}) = card (held m R ns name) - 1" using i0 by (simp add: card_Diff_singleton)
  then have "info_ok m (insert i0 R) ns name ?ri"
    using info users i0 unfolding info_ok_def held by (auto simp: of_nat_diff Suc_leI card_gt_0_iff)
  then have "info_ok ?m (insert i0 R) ns name ?ri" using info_ok_requests [of ?m m] by simp
  moreover have "i \<in> set (ri_queue ri)" if "i < length (m_requests m)" "named_as ns name (req i m)" "rq_isActive (req i m)" for i
    using rm_invD(5) [OF inv that(1,3)] that(2) ri by auto
  ultimately have "local_ok ns name ?m (insert i0 R)" using res by (simp add: local_ok_def)
  moreover have "local_change ns name m R ?m (R \<union> {i0})"
    by (rule frame_local_change [OF inv req_frame_refl [of "{}"]]) (use i0 res in \<open>auto simp: held_def\<close>)
  ultimately show ?thesis using rm_inv_local [OF inv] by simp
qed

text \<open>
  The last user leaves: the requests \<open>p\<close> at the old end of the queue are dealt with, \<open>N\<close> of them
  are granted and the others are canceled, and the queue \<open>q\<close> is left. \<open>x\<close> is what becomes of the
  resource.
\<close>

definition next_info :: "manager \<Rightarrow> nat list \<Rightarrow> nat list \<Rightarrow> resource_info option \<Rightarrow> bool" where
  "next_info m N q x \<longleftrightarrow>
     (case x of
        None \<Rightarrow> N = [] \<and> q = []
      | Some ri \<Rightarrow> N \<noteq> [] \<and> ri_queue ri = rev q \<and> ri_activeUsers ri = int (length N) \<and>
          (ri_currentLock ri = Some SHARED \<or> ri_currentLock ri = Some EXCLUSIVE \<and> length N = 1) \<and>
          (\<forall>j \<in> set N. ri_currentLock ri = Some (rq_lockType (req j m))))"

definition release_effect ::
  "pystr \<Rightarrow> pystr \<Rightarrow> manager \<Rightarrow> nat list \<Rightarrow> nat list \<Rightarrow> nat list \<Rightarrow> resource_info option \<Rightarrow> manager \<Rightarrow> bool" where
  "release_effect ns name m p q N x m' \<longleftrightarrow>
     (\<exists>m2. req_frame (set p) m m2 \<and> m_requests m' = m_requests m2) \<and> distinct N \<and> set N \<subseteq> set p \<and>
     (\<forall>j \<in> set N. granted (req j m')) \<and> (\<forall>j \<in> set p - set N. canceled (req j m')) \<and> next_info m' N q x \<and>
     (\<forall>ns' name'. resource_at ns' name' m' = (if (ns', name') = (ns, name) then x else resource_at ns' name' m))"

lemma release_effectI:
  assumes "req_frame (set p) m m2" and "m_requests m' = m_requests m2" and "distinct N" and "set N \<subseteq> set p"
    and "\<forall>j \<in> set N. granted (req j m2)" and "\<forall>j \<in> set p - set N. canceled (req j m2)" and "next_info m2 N q x"
    and "m_namespaces m' = m_namespaces (put_resource ns name x m2)" and "m_namespaces m ns = Some nsp"
  shows "release_effect ns name m p q N x m'"
proof -
  have ns2: "m_namespaces m2 = m_namespaces m" using assms(1) by (simp add: req_frame_def)
  have "resource_at ns' name' m' = resource_at ns' name' (put_resource ns name x m2)" for ns' name'
    by (rule resource_at_same [OF assms(8)])
  also have "\<dots> ns' name' = (if (ns', name') = (ns, name) then x else resource_at ns' name' m)" for ns' name'
    using resource_at_put [of ns name m2] resource_at_same [OF ns2] ns2 assms(9) by simp
  moreover have "next_info m' N q x" using assms(2,7) by (simp add: next_info_def split: option.splits)
  ultimately show ?thesis using assms(1-6) by (auto simp: release_effect_def)
qed

lemma release_none:
  assumes q: "queue_of m q" and users: "ri_activeUsers ri = 1" and nsp: "m_namespaces m ns = Some nsp" "ns_resources nsp name = Some ri"
    and rev: "q = rev (ri_queue ri)"
    and gf: "grant_first api (ns_factory nsp) name (ri\<lparr>ri_activeUsers := 0\<rparr>) q m = (Inr None, ri1, q1, m1)"
  shows "\<exists>m'. releaseResource api ns name m = (Inr (), m') \<and> release_effect ns name m q [] [] None m'"
proof -
  have p: "q1 = []" "req_frame (set q) m m1" "\<forall>j \<in> set q. canceled (req j m1)"
    using grant_first_spec [OF q gf] by auto
  let ?m = "put_resource ns name None (freeResource api ri1 m1)"
  have "releaseResource api ns name m = (Inr (), ?m)"
    using nsp users gf rev by (simp add: releaseResource_def)
  moreover have "release_effect ns name m q [] [] None ?m"
    using p by (intro release_effectI [OF p(2) _ _ _ _ _ _ _ nsp(1)]) (auto simp: next_info_def put_resource_def split: option.splits)
  ultimately show ?thesis by blast
qed

lemma release_some:
  assumes q: "queue_of m q" and users: "ri_activeUsers ri = 1" and nsp: "m_namespaces m ns = Some nsp" "ns_resources nsp name = Some ri"
    and rev: "q = rev (ri_queue ri)"
    and gf: "grant_first api (ns_factory nsp) name (ri\<lparr>ri_activeUsers := 0\<rparr>) q m = (Inr (Some i), ri1, q1, m1)"
  shows "\<exists>m' p q2 N x. releaseResource api ns name m = (Inr (), m') \<and> q = p @ q2 \<and> release_effect ns name m p q2 N x m'"
proof -
  obtain rest ri2 q2 m2 where gs: "(rest, ri2, q2, m2) =
      (if ri_currentLock ri1 = Some EXCLUSIVE then ([], ri1, q1, m1) else grant_shared ri1 q1 [] m1)"
    by (metis prod_cases4)
  obtain p where p: "q = p @ q2" "req_frame (set p) m m2" "distinct (i # rest)" "set (i # rest) \<subseteq> set p"
    "ri_activeUsers ri2 = int (length (i # rest))" "ri_currentLock ri2 = Some EXCLUSIVE \<longrightarrow> rest = []"
    "ri_currentLock ri2 = Some SHARED \<or> ri_currentLock ri2 = Some EXCLUSIVE"
    "\<forall>j \<in> set (i # rest). granted (req j m2) \<and> ri_currentLock ri2 = Some (rq_lockType (req j m2))"
    "\<forall>j \<in> set p - set (i # rest). canceled (req j m2)"
    using release_grants [OF q _ gf gs] by auto
  let ?x = "Some (ri2\<lparr>ri_queue := rev q2\<rparr>)"
  obtain "is" obj where rel: "releaseResource api ns name m = (Inr (), emit_all is obj (put_resource ns name ?x m2))"
  proof (cases "ri_currentLock ri1 = Some EXCLUSIVE")
    case True
    then show thesis using nsp users gf gs rev by (intro that [of "[i]" "ri_realObj ri1"]) (simp add: releaseResource_def)
  next
    case False
    then show thesis
      using nsp users gf gs [symmetric] rev by (intro that [of "i # rest" "ri_realObj ri2"]) (simp add: releaseResource_def)
  qed
  have "next_info m2 (i # rest) q2 ?x" using p(5-8) by (auto simp: next_info_def)
  then have "release_effect ns name m p q2 (i # rest) ?x (emit_all is obj (put_resource ns name ?x m2))"
    using p(3,4,8,9) by (intro release_effectI [OF p(2) _ _ _ _ _ _ _ nsp(1)]) auto
  then show ?thesis using rel p(1) by blast
qed

lemma release_last:
  assumes inv: "rm_inv m R" and ri: "resource_at ns name m = Some ri" and users: "\<not> 1 < ri_activeUsers ri"
  shows "\<exists>m' p q N x. releaseResource api ns name m = (Inr (), m') \<and> rev (ri_queue ri) = p @ q \<and>
    release_effect ns name m p q N x m'"
proof -
  obtain nsp where nsp: "m_namespaces m ns = Some nsp" "ns_resources nsp name = Some ri"
    by (rule resource_at_namespace [OF ri])
  have info: "info_ok m R ns name ri" by (rule rm_invD(4) [OF inv ri])
  have one: "ri_activeUsers ri = 1" using info users by (auto simp: info_ok_def)
  have q: "queue_of m (rev (ri_queue ri))" using info by (simp add: info_ok_def queue_of_def)
  obtain res ri1 q1 m1 where gf: "grant_first api (ns_factory nsp) name (ri\<lparr>ri_activeUsers := 0\<rparr>) (rev (ri_queue ri)) m = (res, ri1, q1, m1)"
    by (metis prod_cases4)
  show ?thesis
  proof (cases res)
    case (Inl e)
    then show ?thesis using grant_first_spec [OF q gf] by auto
  next
    case (Inr o')
    show ?thesis
    proof (cases o')
      case None
      obtain m' where "releaseResource api ns name m = (Inr (), m')" "release_effect ns name m (rev (ri_queue ri)) [] [] None m'"
        using release_none [OF q one nsp refl, of api ri1 q1 m1] gf Inr None by auto
      then show ?thesis by (intro exI [of _ m'] exI [of _ "rev (ri_queue ri)"] exI [of _ "[]"] exI [of _ None]) simp
    next
      case (Some i)
      show ?thesis by (rule release_some [OF q one nsp refl gf [unfolded Inr Some]])
    qed
  qed
qed

lemma inv_releaseResource:
  assumes inv: "rm_inv m R" and i0: "i0 \<in> held m R ns name"
  shows "fst (releaseResource api ns name m) = Inr () \<and> rm_inv (snd (releaseResource api ns name m)) (insert i0 R)"
proof -
  have "resource_at ns name m \<noteq> None" using rm_invD(3) [OF inv, of ns name] i0 by auto
  then obtain ri where ri: "resource_at ns name m = Some ri" by auto
  show ?thesis
  proof (cases "1 < ri_activeUsers ri")
    case True
    obtain nsp where "m_namespaces m ns = Some nsp" "ns_resources nsp name = Some ri"
      by (rule resource_at_namespace [OF ri])
    then show ?thesis using inv_release_shared [OF inv i0 ri True] True by (simp add: releaseResource_def)
  next
    case False
    have "card (held m R ns name) = 1" using rm_invD(4) [OF inv ri] False by (auto simp: info_ok_def)
    then have h: "held m R ns name = {i0}" using i0 by (metis card_1_singletonE singletonD)
    obtain m' p q N x where rel: "releaseResource api ns name m = (Inr (), m')" "rev (ri_queue ri) = p @ q"
      "release_effect ns name m p q N x m'"
      using release_last [OF inv ri False] by blast
    obtain m2 where m2: "req_frame (set p) m m2" "m_requests m' = m_requests m2" "distinct N" "set N \<subseteq> set p"
      "\<forall>j \<in> set N. granted (req j m2)" "\<forall>j \<in> set p - set N. canceled (req j m2)" "next_info m' N q x"
      "\<And>ns' name'. resource_at ns' name' m' = (if (ns', name') = (ns, name) then x else resource_at ns' name' m)"
      using rel(3) by (auto simp: release_effect_def)
    have oth: "(ns', name') \<noteq> (ns, name) \<Longrightarrow> resource_at ns' name' m' = resource_at ns' name' m" for ns' name'
      using m2(8) by auto
    note aux = inv_release_aux [OF inv ri h rel(2) m2(1,3,4,5,6,2) oth]
    have "resource_at ns name m' = x" using m2(8) by simp
    then have "local_ok ns name m' (insert i0 R)"
      using m2(7) aux(2-5) distinct_card [OF m2(3)]
      by (cases x) (auto simp: local_ok_def info_ok_def next_info_def)
    then show ?thesis using rm_inv_local [OF inv aux(1)] rel(1) by simp
  qed
qed

text \<open>What a release leaves alone: the requests that hold a resource.\<close>

lemma release_prefix:
  assumes inv: "rm_inv m R" and ri: "resource_at ns name m = Some ri" and rel: "releaseResource api ns name m = (r, m')"
  shows "\<exists>p q. rev (ri_queue ri) = p @ q \<and> (\<forall>j \<in> set p. granted (req j m') \<or> canceled (req j m')) \<and>
    (\<forall>j. j \<notin> set p \<longrightarrow> req j m' = req j m) \<and> length (m_requests m') = length (m_requests m)"
proof (cases "1 < ri_activeUsers ri")
  case True
  obtain nsp where "m_namespaces m ns = Some nsp" "ns_resources nsp name = Some ri"
    by (rule resource_at_namespace [OF ri])
  then have "m' = put_resource ns name (Some (ri\<lparr>ri_activeUsers := ri_activeUsers ri - 1\<rparr>)) m"
    using rel True by (simp add: releaseResource_def)
  then show ?thesis by (intro exI [of _ "[]"] exI [of _ "rev (ri_queue ri)"]) simp
next
  case False
  obtain p q N x where "rev (ri_queue ri) = p @ q" and eff: "release_effect ns name m p q N x m'"
    using release_last [OF inv ri False, of api] rel by auto
  moreover obtain m2 where "req_frame (set p) m m2" "m_requests m' = m_requests m2"
    using eff by (auto simp: release_effect_def)
  ultimately show ?thesis
    by (intro exI [of _ p] exI [of _ q]) (auto simp: release_effect_def req_frame_def)
qed

lemma release_keeps_holders:
  assumes inv: "rm_inv m R" and i0: "i0 \<in> held m R ns name" and j: "j \<in> held m R ns' name'" "j \<noteq> i0"
  shows "j \<in> held (snd (releaseResource api ns name m)) (insert i0 R) ns' name'"
proof -
  obtain ri where ri: "resource_at ns name m = Some ri"
    using rm_invD(3) [OF inv, of ns name] i0 by (cases "resource_at ns name m") auto
  obtain p q where p: "rev (ri_queue ri) = p @ q" "\<forall>j. j \<notin> set p \<longrightarrow> req j (snd (releaseResource api ns name m)) = req j m"
    "length (m_requests (snd (releaseResource api ns name m))) = length (m_requests m)"
    using release_prefix [OF inv ri, of api] by (metis prod.collapse)
  have "queue_of m (ri_queue ri)" using rm_invD(4) [OF inv ri] by (simp add: info_ok_def)
  then have "j \<notin> set p" using j(1) arg_cong [OF p(1), of set] by (auto simp: queue_of_def held_def)
  then show ?thesis using p j by (simp add: held_def req_at_def)
qed

subsubsection \<open>Registering\<close>

lemma append_local_change:
  assumes inv: "rm_inv m R" and req: "m_requests m' = m_requests m @ [r]" and r: "req_ok r" "named_as ns name r"
    and res: "\<And>ns' name'. (ns', name') \<noteq> (ns, name) \<Longrightarrow> resource_at ns' name' m' = resource_at ns' name' m"
  shows "local_change ns name m R m' R"
  using rm_invD(1,2) [OF inv] r res
  by (auto simp: local_change_def req nth_append same_name_def less_Suc_eq)

lemma append_req_at:
  assumes "m_requests m' = m_requests m @ [r]" and "named_as ns name r"
  shows "req_at ns name m' = insert (length (m_requests m)) (req_at ns name m)"
  using assms by (auto simp: req_at_def nth_append less_Suc_eq)

lemma append_held:
  assumes inv: "rm_inv m R" and req: "m_requests m' = m_requests m @ [r]" and "named_as ns name r"
  shows "held m' R ns name = held m R ns name \<union> (if granted r then {length (m_requests m)} else {})"
proof -
  have "length (m_requests m) \<notin> R" using rm_invD(2) [OF inv] by blast
  moreover have "req j m' = req j m" if "j \<in> req_at ns name m" for j
    using that req by (simp add: req_at_def nth_append)
  ultimately show ?thesis
    unfolding held_def append_req_at [OF req assms(3)] using req by (auto simp: req_at_def nth_append)
qed

lemma append_queue_of:
  "m_requests m' = m_requests m @ [r] \<Longrightarrow> queue_of m q \<Longrightarrow> queue_of m' q"
  by (auto simp: queue_of_def nth_append)

text \<open>The parts of the invariant for a resource that gets one more request.\<close>

lemma register_local:
  assumes inv: "rm_inv m R" and req: "m_requests m' = m_requests m @ [r]" and r: "req_ok r" "named_as ns name r"
    and ns: "m_namespaces m ns \<noteq> None" and ns': "m_namespaces m' = m_namespaces (put_resource ns name x m)"
    and ok: "case x of
        None \<Rightarrow> resource_at ns name m = None \<and> canceled r
      | Some ri' \<Rightarrow>
          ri_activeUsers ri' = int (card (held m R ns name)) + (if granted r then 1 else 0) \<and> 0 < ri_activeUsers ri' \<and>
          (ri_currentLock ri' = Some SHARED \<or> ri_currentLock ri' = Some EXCLUSIVE \<and> ri_activeUsers ri' = 1) \<and>
          (\<forall>i \<in> held m R ns name. ri_currentLock ri' = Some (rq_lockType (req i m))) \<and>
          (granted r \<longrightarrow> ri_currentLock ri' = Some (rq_lockType r)) \<and>
          ri_queue ri' = (if granted r then [] else [length (m_requests m)]) @
            (case resource_at ns name m of None \<Rightarrow> [] | Some ri \<Rightarrow> ri_queue ri) \<and> \<not> canceled r"
  shows "rm_inv m' R"
proof -
  have res: "resource_at ns2 name2 m' = (if ns2 = ns \<and> name2 = name then x else resource_at ns2 name2 m)" for ns2 name2
    using resource_at_put [of ns name m] resource_at_same [OF ns'] ns by simp
  have ch: "local_change ns name m R m' R" by (rule append_local_change [OF inv req r]) (use res in auto)
  note held = append_held [OF inv req r(2)] and at = append_req_at [OF req r(2)]
  have fresh: "length (m_requests m) \<notin> held m R ns name" by (simp add: held_def req_at_def)
  have old: "req j m' = req j m" if "j < length (m_requests m)" for j using req that by (simp add: nth_append)
  have new: "req (length (m_requests m)) m' = r" using req by simp
  have "local_ok ns name m' R"
  proof (cases x)
    case None
    then have "resource_at ns name m = None" "canceled r" using ok by auto
    moreover from this have "held m' R ns name = {}"
      using held rm_invD(3) [OF inv] not_granted_canceled by simp
    moreover have "\<not> rq_isActive (req i m')" if i: "i < length (m_requests m')" "named_as ns name (req i m')" for i
    proof (cases "i < length (m_requests m)")
      case True
      then show ?thesis using rm_invD(5) [OF inv True] i(2) old [OF True] calculation(1) by auto
    next
      case False
      then show ?thesis using i(1) req new not_active_canceled [OF r(1)] calculation(2) by (auto simp: less_Suc_eq)
    qed
    ultimately show ?thesis using res None by (simp add: local_ok_def)
  next
    case (Some ri')
    define q where "q = (case resource_at ns name m of None \<Rightarrow> [] | Some ri \<Rightarrow> ri_queue ri)"
    have q: "queue_of m q" "set q \<subseteq> req_at ns name m"
      using rm_invD(4) [OF inv, of ns name] by (cases "resource_at ns name m"; simp add: q_def info_ok_def queue_of_def)+
    have ri': "ri_queue ri' = (if granted r then [] else [length (m_requests m)]) @ q" using ok Some by (simp add: q_def)
    have "length (m_requests m) \<notin> set q" using q(2) by (auto simp: req_at_def)
    then have qo: "queue_of m' (ri_queue ri')"
      using append_queue_of [OF req q(1)] ri' new r(1) req by (auto simp: queue_of_def)
    have card: "int (card (held m' R ns name)) = int (card (held m R ns name)) + (if granted r then 1 else 0)"
      using held fresh by simp
    have lts: "\<forall>i \<in> held m' R ns name. ri_currentLock ri' = Some (rq_lockType (req i m'))"
      using held ok Some old new by (auto simp: held_def req_at_def split: if_splits)
    have "info_ok m' R ns name ri'"
      using ok Some qo ri' q(2) at card lts by (auto simp: info_ok_def)
    moreover have "i \<in> set (ri_queue ri')" if i: "i < length (m_requests m')" "named_as ns name (req i m')" "rq_isActive (req i m')" for i
    proof (cases "i < length (m_requests m)")
      case True
      then show ?thesis using rm_invD(5) [OF inv True] i(2,3) old [OF True] ri' by (auto simp: q_def)
    next
      case False
      then have "i = length (m_requests m)" using i(1) req by simp
      then show ?thesis using i(3) new ri' not_active_granted [OF r(1)] by auto
    qed
    ultimately show ?thesis using res Some by (simp add: local_ok_def)
  qed
  then show ?thesis by (rule rm_inv_local [OF inv ch])
qed

lemma put_namespaces [simp]:
  "m_namespaces (put_resource ns name x (m\<lparr>m_requests := q\<rparr>)) = m_namespaces (put_resource ns name x m)"
  "m_namespaces (put_resource ns name x (m\<lparr>m_requests := q, m_calls := n\<rparr>)) = m_namespaces (put_resource ns name x m)"
  by (simp_all add: put_resource_def split: option.splits)

lemma new_request_fields [simp]:
  "rq_isActive (new_request ns name lt)" "\<not> rq_isCanceled (new_request ns name lt)" "\<not> rq_done (new_request ns name lt)"
  "rq_namespace (new_request ns name lt) = ns" "rq_name (new_request ns name lt) = name" "rq_lockType (new_request ns name lt) = lt"
  by (simp_all add: new_request_def)

lemma put_same: "resource_at ns name m = x \<Longrightarrow> m_namespaces m ns \<noteq> None \<Longrightarrow> m_namespaces (put_resource ns name x m) = m_namespaces m"
  by (auto simp: put_resource_def resource_at_def)

lemma inv_registerResource:
  assumes inv: "rm_inv m R"
  shows "rm_inv (snd (registerResource ns name lt m)) R"
proof (cases "valid_resource_name name \<and> (lt = SHARED \<or> lt = EXCLUSIVE) \<and> m_namespaces m ns \<noteq> None")
  case False
  then show ?thesis using inv by (auto simp: registerResource_def Let_def)
next
  case True
  then obtain nsp where nsp: "m_namespaces m ns = Some nsp" by blast
  have at: "resource_at ns name m = ns_resources nsp name" using nsp by (simp add: resource_at_def)
  let ?i = "length (m_requests m)" and ?r = "new_request ns name lt"
  let ?base = "m\<lparr>m_requests := m_requests m @ [?r]\<rparr>"
  let ?g = "?r\<lparr>rq_isActive := False, rq_done := True\<rparr>"
  have ok: "req_ok ?r" "req_ok ?g" "granted ?g" "\<not> canceled ?g" "\<not> granted ?r" "\<not> canceled ?r"
    using True by (auto simp: req_ok_def granted_def canceled_def)
  have nsne: "m_namespaces m ns \<noteq> None" using nsp by simp
  show ?thesis
  proof (cases "ns_resources nsp name")
    case (Some ri)
    then have ri: "resource_at ns name m = Some ri" using at by simp
    have info: "info_ok m R ns name ri" by (rule rm_invD(4) [OF inv ri])
    show ?thesis
    proof (cases "ri_queue ri = [] \<and> ri_currentLock ri = Some SHARED \<and> lt = SHARED")
      case join: True
      let ?m = "emit ?i (ri_realObj ri) (set_req ?i ?g (put_resource ns name (Some (ri\<lparr>ri_activeUsers := ri_activeUsers ri + 1\<rparr>)) ?base))"
      have "snd (registerResource ns name lt m) = ?m"
        using True nsp Some join by (simp add: registerResource_def Let_def request_grant_def)
      moreover have "rm_inv ?m R"
        by (rule register_local [OF inv _ ok(2) _ nsne, where x = "Some (ri\<lparr>ri_activeUsers := ri_activeUsers ri + 1\<rparr>)"])
          (use info join ri ok in \<open>auto simp: set_req_def info_ok_def\<close>)
      ultimately show ?thesis by simp
    next
      case queue: False
      let ?m = "put_resource ns name (Some (ri\<lparr>ri_queue := ?i # ri_queue ri\<rparr>)) ?base"
      have "snd (registerResource ns name lt m) = ?m"
        using True nsp Some queue by (auto simp: registerResource_def Let_def)
      moreover have "rm_inv ?m R"
        by (rule register_local [OF inv _ ok(1) _ nsne, where x = "Some (ri\<lparr>ri_queue := ?i # ri_queue ri\<rparr>)"])
          (use info ri ok in \<open>auto simp: info_ok_def\<close>)
      ultimately show ?thesis by simp
    qed
  next
    case None
    then have none: "resource_at ns name m = None" using at by simp
    have empty: "held m R ns name = {}" by (rule rm_invD(3) [OF inv none])
    show ?thesis
    proof (cases "fa_exists (ns_factory nsp) name")
      case False
      then show ?thesis using True nsp None inv by (auto simp: registerResource_def Let_def)
    next
      case ex: True
      let ?called = "?base\<lparr>m_calls := Suc (m_calls m)\<rparr>"
      show ?thesis
      proof (cases "fa_create (ns_factory nsp) (m_calls m) name lt")
        case (Inl e)
        let ?c = "?r\<lparr>rq_isActive := False, rq_isCanceled := True, rq_done := True\<rparr>"
        let ?m = "callback ?i None (set_req ?i ?c ?called)"
        have "snd (registerResource ns name lt m) = ?m"
          using True nsp None ex Inl by (auto simp: registerResource_def Let_def create_def request_cancel_def)
        moreover have "rm_inv ?m R"
          by (rule register_local [OF inv, where x = None and r = ?c])
            (use True nsne none put_same [OF none nsne] in \<open>auto simp: set_req_def callback_def req_ok_def canceled_def\<close>)
        ultimately show ?thesis by simp
      next
        case (Inr obj)
        let ?ri = "(new_resource_info obj)\<lparr>ri_currentLock := Some lt, ri_activeUsers := 1\<rparr>"
        let ?m = "emit ?i obj (set_req ?i ?g (put_resource ns name (Some ?ri) ?called))"
        have "snd (registerResource ns name lt m) = ?m"
          using True nsp None ex Inr by (auto simp: registerResource_def Let_def create_def request_grant_def)
        moreover have "rm_inv ?m R"
          by (rule register_local [OF inv _ ok(2) _ nsne, where x = "Some ?ri"])
            (use True empty none ok in \<open>auto simp: set_req_def new_resource_info_def\<close>)
        ultimately show ?thesis by simp
      qed
    qed
  qed
qed

subsection \<open>Executions\<close>

text \<open>
  Clients register namespaces and requests, cancel requests, and release each granted request
  once, as a resource reference does. \<open>R\<close> are the requests released so far.
\<close>

inductive rm_reach :: "resource_api \<Rightarrow> manager \<Rightarrow> nat set \<Rightarrow> bool" for api where
  rm_init: "rm_reach api new_manager {}"
| rm_namespace: "rm_reach api m R \<Longrightarrow> rm_reach api (snd (registerNamespace ns fa m)) R"
| rm_register: "rm_reach api m R \<Longrightarrow> rm_reach api (snd (registerResource ns name lt m)) R"
| rm_cancel: "rm_reach api m R \<Longrightarrow> i < length (m_requests m) \<Longrightarrow> rm_reach api (snd (request_cancel i m)) R"
| rm_release: "rm_reach api m R \<Longrightarrow> i \<in> held m R ns name \<Longrightarrow>
    rm_reach api (snd (releaseResource api ns name m)) (insert i R)"

lemma rm_reach_inv: "rm_reach api m R \<Longrightarrow> rm_inv m R"
  by (induction rule: rm_reach.induct)
    (auto simp: rm_inv_new inv_registerNamespace inv_registerResource inv_cancel inv_releaseResource)

end
