(* ===== verification/Resource_Properties.thy ===== *)
theory Resource_Properties
  imports Resource_Steps
begin

text \<open>
  What the resource manager guarantees to its clients, with executions to apply the theorems to.
\<close>

subsection \<open>A sample execution\<close>

definition closable :: resource_api where
  "closable = \<lparr>has_switch = \<lambda>_. False, switch_ok = \<lambda>_ _. False, has_close = \<lambda>_. True\<rparr>"

text \<open>Two shared holders of a resource, and a request for exclusive use that waits.\<close>

definition two_readers :: manager where
  "two_readers =
     snd (registerResource ''ns'' ''res'' EXCLUSIVE (snd (registerResource ''ns'' ''res'' SHARED
       (snd (registerResource ''ns'' ''res'' SHARED (snd (registerNamespace ''ns'' simple_factory new_manager)))))))"

lemma names_ok [simp]: "valid_namespace ''ns''" "valid_resource_name ''res''" "SHARED \<noteq> EXCLUSIVE" "EXCLUSIVE \<noteq> SHARED"
  by (simp_all add: valid_namespace_def valid_resource_name_def match_all_def re_word_def re_space_def code_in_def lock_names)

lemmas rm_simps = registerNamespace_def registerResource_def new_manager_def new_namespace_def simple_factory_def create_def
  put_resource_def request_grant_def request_cancel_def set_req_def emit_def callback_def new_resource_info_def new_request_def

lemma two_readers_eq: "two_readers =
  \<lparr>m_namespaces = [''ns'' \<mapsto> \<lparr>ns_resources = [''res'' \<mapsto>
      \<lparr>ri_queue = [2], ri_activeUsers = 2, ri_currentLock = Some SHARED, ri_realObj = None\<rparr>], ns_factory = simple_factory\<rparr>],
    m_requests = [\<lparr>rq_namespace = ''ns'', rq_name = ''res'', rq_lockType = SHARED, rq_isActive = False, rq_isCanceled = False, rq_done = True\<rparr>,
      \<lparr>rq_namespace = ''ns'', rq_name = ''res'', rq_lockType = SHARED, rq_isActive = False, rq_isCanceled = False, rq_done = True\<rparr>,
      \<lparr>rq_namespace = ''ns'', rq_name = ''res'', rq_lockType = EXCLUSIVE, rq_isActive = True, rq_isCanceled = False, rq_done = False\<rparr>],
    m_events = [(0, Some None), (1, Some None)], m_calls = 1, m_closed = []\<rparr>"
  by (simp add: two_readers_def rm_simps Let_def numeral_2_eq_2)

lemma two_readers_reach: "rm_reach api two_readers {}"
  unfolding two_readers_def by (intro rm_register rm_namespace rm_init)

lemma two_readers_held: "held two_readers {} ''ns'' ''res'' = {0, 1}"
  by (auto simp: held_def req_at_def two_readers_eq granted_def less_Suc_eq numeral_3_eq_3 nth_Cons' split: if_splits)

subsection \<open>Holders\<close>

text \<open>
  C15. Mutual exclusion of resources: whatever clients do, two different requests that hold the
  same resource at the same time are both shared; an exclusive holder is alone.
\<close>

theorem holders_compatible:
  assumes "rm_reach api m R" and "i \<in> held m R ns name" and "j \<in> held m R ns name" and "i \<noteq> j"
  shows "rq_lockType (req i m) = SHARED \<and> rq_lockType (req j m) = SHARED"
proof -
  have inv: "rm_inv m R" by (rule rm_reach_inv [OF assms(1)])
  obtain ri where ri: "resource_at ns name m = Some ri"
    using rm_invD(3) [OF inv, of ns name] assms(2) by (cases "resource_at ns name m") auto
  have info: "info_ok m R ns name ri" by (rule rm_invD(4) [OF inv ri])
  have "card {i, j} \<le> card (held m R ns name)" by (rule card_mono) (use assms in auto)
  then have "ri_activeUsers ri \<noteq> 1" using info assms(4) by (auto simp: info_ok_def)
  then have "ri_currentLock ri = Some SHARED" using info by (simp add: info_ok_def)
  then show ?thesis using info assms(2,3) by (auto simp: info_ok_def)
qed

theorem holders_compatible_witness:
  "rq_lockType (req 0 two_readers) = SHARED \<and> rq_lockType (req 1 two_readers) = SHARED"
  using holders_compatible [OF two_readers_reach [of closable], of 0 "''ns''" "''res''" 1] by (simp add: two_readers_held)

text \<open>
  C16. No request is forgotten: a request that is waiting is in the queue of its resource, and
  the resource has a holder whose release will look at the queue.
\<close>

theorem waiting_behind_holder:
  assumes "rm_reach api m R" and "i < length (m_requests m)" and "request_status (req i m) = ''waiting''"
  shows "\<exists>ri. resource_at (rq_namespace (req i m)) (rq_name (req i m)) m = Some ri \<and> i \<in> set (ri_queue ri) \<and>
    held m R (rq_namespace (req i m)) (rq_name (req i m)) \<noteq> {}"
proof -
  have inv: "rm_inv m R" by (rule rm_reach_inv [OF assms(1)])
  have "rq_isActive (req i m)"
    using rm_invD(1) [OF inv assms(2)] assms(3) by (auto simp: request_status_def req_ok_def split: if_splits)
  then obtain ri where ri: "resource_at (rq_namespace (req i m)) (rq_name (req i m)) m = Some ri" "i \<in> set (ri_queue ri)"
    using rm_invD(5) [OF inv assms(2)] by blast
  then show ?thesis using rm_invD(4) [OF inv ri(1)] by (auto simp: info_ok_def)
qed

theorem waiting_behind_holder_witness:
  "\<exists>ri. resource_at ''ns'' ''res'' two_readers = Some ri \<and> 2 \<in> set (ri_queue ri) \<and> held two_readers {} ''ns'' ''res'' \<noteq> {}"
  using waiting_behind_holder [OF two_readers_reach [of closable], of 2] by (simp add: two_readers_eq request_status_def)

text \<open>
  C17. Releasing what one holds never raises, and it keeps the count: afterwards the active users
  of the resource are exactly its remaining and newly granted holders, and the record of the
  resource is dropped exactly when there are none.
\<close>

theorem release_counts_holders:
  assumes "rm_reach api m R" and "i \<in> held m R ns name" and "releaseResource api ns name m = (r, m')"
  shows "r = Inr () \<and>
    (case resource_at ns name m' of
       None \<Rightarrow> held m' (insert i R) ns name = {}
     | Some ri \<Rightarrow> ri_activeUsers ri = int (card (held m' (insert i R) ns name)) \<and> held m' (insert i R) ns name \<noteq> {})"
proof -
  have inv: "r = Inr ()" "rm_inv m' (insert i R)"
    using inv_releaseResource [OF rm_reach_inv [OF assms(1)] assms(2), of api] assms(3) by auto
  show ?thesis
  proof (cases "resource_at ns name m'")
    case None
    then show ?thesis using inv(1) rm_invD(3) [OF inv(2) None] by simp
  next
    case (Some ri)
    then show ?thesis using inv(1) rm_invD(4) [OF inv(2) Some] by (auto simp: info_ok_def)
  qed
qed

theorem release_counts_holders_witness:
  "fst (releaseResource closable ''ns'' ''res'' two_readers) = Inr ()"
  using release_counts_holders [OF two_readers_reach [of closable], of 0 "''ns''" "''res''"
      "fst (releaseResource closable ''ns'' ''res'' two_readers)" "snd (releaseResource closable ''ns'' ''res'' two_readers)"]
  by (simp add: two_readers_held)

text \<open>
  C18. The reported status is the status of the holders: free when there are none, locked when
  an exclusive request holds the resource, and shared otherwise.
\<close>

theorem status_of_holders:
  assumes "rm_reach api m R" and "valid_resource_name name" and "m_namespaces m ns = Some nsp"
    and "fa_exists (ns_factory nsp) name"
  shows "getResourceStatus ns name m =
    Inr (if held m R ns name = {} then STATUS_FREE
         else if \<exists>i \<in> held m R ns name. rq_lockType (req i m) = EXCLUSIVE then STATUS_LOCKED else STATUS_SHARED)"
proof -
  have inv: "rm_inv m R" by (rule rm_reach_inv [OF assms(1)])
  have at: "resource_at ns name m = ns_resources nsp name" using assms(3) by (simp add: resource_at_def)
  show ?thesis
  proof (cases "ns_resources nsp name")
    case None
    then show ?thesis using rm_invD(3) [OF inv, of ns name] assms at by (simp add: getResourceStatus_def)
  next
    case (Some ri)
    have info: "info_ok m R ns name ri" using rm_invD(4) [OF inv, of ns name] at Some by simp
    then have ne: "held m R ns name \<noteq> {}" by (auto simp: info_ok_def)
    have "(\<exists>i \<in> held m R ns name. rq_lockType (req i m) = EXCLUSIVE) \<longleftrightarrow> ri_currentLock ri = Some EXCLUSIVE"
      using info ne by (auto simp: info_ok_def)
    then show ?thesis
      using assms Some ne info by (auto simp: getResourceStatus_def statusFromType_def info_ok_def)
  qed
qed

theorem status_of_holders_witness: "getResourceStatus ''ns'' ''res'' two_readers = Inr STATUS_SHARED"
proof -
  have "\<not> (\<exists>i \<in> held two_readers {} ''ns'' ''res''. rq_lockType (req i two_readers) = EXCLUSIVE)"
    unfolding two_readers_held by (simp add: two_readers_eq)
  moreover have "\<exists>nsp. m_namespaces two_readers ''ns'' = Some nsp \<and> fa_exists (ns_factory nsp) ''res''"
    by (simp add: two_readers_eq simple_factory_def)
  ultimately show ?thesis
    using status_of_holders [OF two_readers_reach [of closable], of "''res''" "''ns''"] two_readers_held by auto
qed

subsection \<open>Switching the lock type\<close>


definition fails_once :: factory where
  "fails_once = \<lparr>fa_exists = \<lambda>_. True, fa_create = \<lambda>n _ _. if n = 1 then Inl () else Inr (Some 7)\<rparr>"


subsection \<open>Order of the queue\<close>

text \<open>
  C20. Requests are not overtaken: when a release grants a request, no request for the same
  resource that was queued before it is left waiting.
\<close>

theorem no_overtaking:
  assumes "rm_reach api m R" and "i \<in> held m R ns name" and "resource_at ns name m = Some ri"
    and "ri_queue ri = newer @ k # between @ j # older" and "releaseResource api ns name m = (r, m')"
    and "granted (req k m')"
  shows "granted (req j m') \<or> canceled (req j m')"
proof -
  have inv: "rm_inv m R" by (rule rm_reach_inv [OF assms(1)])
  obtain p q where pq: "rev (ri_queue ri) = p @ q" "\<forall>j \<in> set p. granted (req j m') \<or> canceled (req j m')"
    "\<forall>j. j \<notin> set p \<longrightarrow> req j m' = req j m"
    using release_prefix [OF inv assms(3,5)] by blast
  have queue: "queue_of m (ri_queue ri)" using rm_invD(4) [OF inv assms(3)] by (simp add: info_ok_def)
  have k: "k \<in> set p"
  proof (rule ccontr)
    assume "k \<notin> set p"
    then have "granted (req k m)" using pq(3) assms(6) by simp
    then show False using queue assms(4) by (simp add: queue_of_def)
  qed
  have "rev older @ j # rev between @ k # rev newer = p @ q" using pq(1) assms(4) by simp
  moreover have "distinct (p @ q)" using queue pq(1) by (metis distinct_rev queue_of_def)
  ultimately have "j \<in> set p"
    using k by (auto simp: append_eq_append_conv2 Cons_eq_append_conv append_eq_Cons_conv)
  then show ?thesis using pq(2) by blast
qed

text \<open>A holder, and two shared requests behind it.\<close>

definition two_waiting :: manager where
  "two_waiting =
     snd (registerResource ''ns'' ''res'' SHARED (snd (registerResource ''ns'' ''res'' SHARED
       (snd (registerResource ''ns'' ''res'' EXCLUSIVE (snd (registerNamespace ''ns'' simple_factory new_manager)))))))"

lemma two_waiting_reach: "rm_reach api two_waiting {}"
  unfolding two_waiting_def by (intro rm_register rm_namespace rm_init)

lemma two_waiting_at: "resource_at ''ns'' ''res'' two_waiting =
    Some \<lparr>ri_queue = [2, 1], ri_activeUsers = 1, ri_currentLock = Some EXCLUSIVE, ri_realObj = None\<rparr>"
  "m_requests two_waiting = [(new_request ''ns'' ''res'' EXCLUSIVE)\<lparr>rq_isActive := False, rq_done := True\<rparr>,
     new_request ''ns'' ''res'' SHARED, new_request ''ns'' ''res'' SHARED]"
  "m_namespaces two_waiting ''ns'' = Some \<lparr>ns_resources = [''res'' \<mapsto>
      \<lparr>ri_queue = [2, 1], ri_activeUsers = 1, ri_currentLock = Some EXCLUSIVE, ri_realObj = None\<rparr>], ns_factory = simple_factory\<rparr>"
  by (simp_all add: two_waiting_def rm_simps Let_def resource_at_def numeral_2_eq_2)

theorem no_overtaking_witness:
  "granted (req 2 (snd (releaseResource closable ''ns'' ''res'' two_waiting))) \<and>
   (granted (req 1 (snd (releaseResource closable ''ns'' ''res'' two_waiting))) \<or>
    canceled (req 1 (snd (releaseResource closable ''ns'' ''res'' two_waiting))))"
proof -
  let ?rel = "releaseResource closable ''ns'' ''res'' two_waiting"
  have held: "0 \<in> held two_waiting {} ''ns'' ''res''"
    by (simp add: held_def req_at_def two_waiting_at granted_def)
  have g: "granted (req 2 (snd ?rel))"
    by (simp add: releaseResource_def two_waiting_at switchLockType_def request_grant_def set_req_def emit_def callback_def
        put_resource_def canceled_def granted_def nth_list_update)
  have "?rel = (fst ?rel, snd ?rel)" by simp
  then show ?thesis
    using no_overtaking [OF two_waiting_reach [of closable] held two_waiting_at(1), of "[]" 2 "[]" 1 "[]" "fst ?rel" "snd ?rel"] g by simp
qed

subsection \<open>Acquiring\<close>

text \<open>
  C21. \<open>acquireResource\<close> returns only with a granted request and times out only with a canceled one,
  whatever other threads did while it waited and in the gap before it cancels: a grant that
  comes in the gap is returned and not lost.
\<close>

theorem acquire_outcome:
  assumes "acquireResource ns name lt wait gap m = (out, m')"
    and "registerResource ns name lt m = (Inr i, m1)"
    and "rm_reach api (wait m1) R1" and "rm_reach api (gap (wait m1)) R2"
    and "i < length (m_requests (gap (wait m1)))"
  shows "(out = Inr i \<and> granted (req i m') \<or> out = Inl RequestTimedOut \<and> canceled (req i m') \<or>
     out = Inl ResourceAcqusitionFailed \<and> canceled (req i m')) \<and>
    (granted (req i (wait m1)) \<or> granted (req i (gap (wait m1))) \<longrightarrow> out = Inr i)"
proof -
  let ?gap = "gap (wait m1)"
  have ok: "req_ok (req i ?gap)" by (rule rm_invD(1) [OF rm_reach_inv [OF assms(4)] assms(5)])
  show ?thesis
  proof (cases "rq_isActive (req i ?gap)")
    case True
    obtain m4 where "request_cancel i ?gap = (Inr (), m4)" "canceled (req i m4)"
      using cancel_active [OF True assms(5)] by blast
    then show ?thesis
      using assms(1,2) not_granted_active [OF ok True] by (auto simp: acquireResource_def Let_def split: if_splits)
  next
    case False
    then have "request_cancel i ?gap = (Inl RequestAlreadyProcessed, ?gap)" by (simp add: request_cancel_def)
    moreover have "granted (req i ?gap) \<longleftrightarrow> \<not> canceled (req i ?gap)"
      using ok False by (auto simp: req_ok_def granted_def canceled_def)
    ultimately show ?thesis
      using assms(1,2) by (auto simp: acquireResource_def Let_def split: if_splits)
  qed
qed

theorem acquire_outcome_witness:
  "fst (acquireResource ''ns'' ''res'' EXCLUSIVE (\<lambda>m. m) (\<lambda>m. m)
     (snd (registerNamespace ''ns'' simple_factory new_manager))) = Inr 0"
proof -
  let ?m = "snd (registerNamespace ''ns'' simple_factory new_manager)"
  let ?reg = "registerResource ''ns'' ''res'' EXCLUSIVE ?m"
  have reg: "?reg = (Inr 0, snd ?reg)" "granted (req 0 (snd ?reg))" "0 < length (m_requests (snd ?reg))"
    by (simp_all add: rm_simps Let_def granted_def)
  have "rm_reach closable (snd ?reg) {}" by (intro rm_register rm_namespace rm_init)
  then show ?thesis
    using acquire_outcome [OF _ reg(1), of "\<lambda>m. m" "\<lambda>m. m" _ _ closable "{}" "{}"] reg(2,3) by (metis (no_types) prod.collapse)
qed

end
