(* ===== verification/Guarded.thy ===== *)
theory Guarded
  imports Vdsm_Prelude "HOL-Library.Char_ord" "HOL-Library.List_Lexorder" "HOL-Library.Product_Lexorder"
begin

text \<open>
  \<^verbatim>\<open>lib/vdsm/storage/guarded.py\<close>: the context that takes the locks of several storage entities in a
  fixed order. The lock operations are arguments, as the code calls them through
  \<open>AbstractLock\<close>; the locale \<open>abstract_lock\<close> states what a provider promises.
\<close>

subsection \<open>Locks and the context\<close>

datatype lock_class = ResourceLock | VolumeLease

record guard_lock =
  gl_type :: lock_class
  gl_ns :: pystr
  gl_name :: pystr
  gl_mode :: pystr

definition lock_key :: "guard_lock \<Rightarrow> pystr \<times> pystr" where
  "lock_key l = (gl_ns l, gl_name l)"

definition lock_less :: "guard_lock \<Rightarrow> guard_lock \<Rightarrow> bool" where
  "lock_less a b \<longleftrightarrow> lock_key a < lock_key b"

datatype 'e guard_error = Deadlock "guard_lock list" | AcquireError 'e | ReleaseError "'e list"

text \<open>\<open>itertools.groupby\<close>: runs of neighbours with the same key.\<close>

fun groupby :: "guard_lock list \<Rightarrow> guard_lock list list" where
  "groupby [] = []"
| "groupby (l # ls) =
     (case groupby ls of
        (k # g) # gs \<Rightarrow> if lock_key l = lock_key k then (l # k # g) # gs else [l] # (k # g) # gs
      | _ \<Rightarrow> [[l]])"

definition validate :: "guard_lock list \<Rightarrow> 'e guard_error + guard_lock list" where
  "validate locks =
     (let sorted_locks = sort_key lock_key (remdups locks)
      in case filter (\<lambda>g. 1 < length g) (groupby sorted_locks) of
           g # _ \<Rightarrow> Inl (Deadlock g)
         | [] \<Rightarrow> Inr sorted_locks)"

text \<open>The loop of \<open>_release\<close>: the locks in the order they are popped, and the errors so far.\<close>

fun release_loop :: "(guard_lock \<Rightarrow> ('s, 'e, unit) op) \<Rightarrow> guard_lock list \<Rightarrow> 'e list \<Rightarrow> 's \<Rightarrow> 'e list \<times> 's" where
  "release_loop rel [] errors s = (errors, s)"
| "release_loop rel (l # ls) errors s =
     (case rel l s of
        (Inl e, s') \<Rightarrow> release_loop rel ls (errors @ [e]) s'
      | (Inr _, s') \<Rightarrow> release_loop rel ls errors s')"

definition release_held :: "(guard_lock \<Rightarrow> ('s, 'e, unit) op) \<Rightarrow> guard_lock list \<Rightarrow> ('s, 'e guard_error, unit) op" where
  "release_held rel held s =
     (case release_loop rel (rev held) [] s of
        ([], s') \<Rightarrow> (Inr (), s')
      | (errors, s') \<Rightarrow> (Inl (ReleaseError errors), s'))"

text \<open>\<open>__enter__\<close>: the locks still to take and the ones held; the result is what is held.\<close>

fun enter_loop ::
  "(guard_lock \<Rightarrow> ('s, 'e, unit) op) \<Rightarrow> (guard_lock \<Rightarrow> ('s, 'e, unit) op) \<Rightarrow> guard_lock list \<Rightarrow> guard_lock list \<Rightarrow>
   ('s, 'e guard_error, guard_lock list) op" where
  "enter_loop acq rel [] held s = (Inr held, s)"
| "enter_loop acq rel (l # ls) held s =
     (case acq l s of
        (Inl e, s') \<Rightarrow> (Inl (AcquireError e), snd (release_held rel held s'))
      | (Inr _, s') \<Rightarrow> enter_loop acq rel ls (held @ [l]) s')"

definition enter ::
  "(guard_lock \<Rightarrow> ('s, 'e, unit) op) \<Rightarrow> (guard_lock \<Rightarrow> ('s, 'e, unit) op) \<Rightarrow> guard_lock list \<Rightarrow>
   ('s, 'e guard_error, guard_lock list) op" where
  "enter acq rel locks s = enter_loop acq rel locks [] s"

text \<open>\<open>__exit__\<close>: an error of the body hides the errors of releasing.\<close>

definition exit_context ::
  "(guard_lock \<Rightarrow> ('s, 'e, unit) op) \<Rightarrow> guard_lock list \<Rightarrow> bool \<Rightarrow> ('s, 'e guard_error, unit) op" where
  "exit_context rel held body_failed s =
     (case release_held rel held s of
        (Inl e, s') \<Rightarrow> (if body_failed then Inr () else Inl e, s')
      | (Inr _, s') \<Rightarrow> (Inr (), s'))"

subsection \<open>The order of the locks\<close>

lemma groupby_nonempty: "g \<in> set (groupby ls) \<Longrightarrow> g \<noteq> []"
  by (induction ls arbitrary: g) (auto split: list.splits if_splits)

lemma groupby_concat: "concat (groupby ls) = ls"
proof (induction ls)
  case (Cons l ls)
  then show ?case using groupby_nonempty [of "[]" ls] by (auto split: list.splits)
qed simp

lemma groupby_keys: "\<forall>g \<in> set (groupby ls). \<forall>a \<in> set g. lock_key a = lock_key (hd g)"
  by (induction ls) (auto split: list.splits)

lemma groupby_same_key:
  assumes "g \<in> set (groupby ls)" and "a \<in> set g" and "b \<in> set g"
  shows "lock_key a = lock_key b"
proof -
  have "lock_key a = lock_key (hd g)" "lock_key b = lock_key (hd g)" using groupby_keys [of ls] assms by blast+
  then show ?thesis by simp
qed

lemma groupby_singletons:
  assumes "\<forall>g \<in> set (groupby ls). length g \<le> 1"
  shows "groupby ls = map (\<lambda>l. [l]) ls \<and> successively (\<lambda>a b. lock_key a \<noteq> lock_key b) ls"
  using assms
proof (induction ls)
  case (Cons l ls)
  show ?case
  proof (cases "groupby ls")
    case Nil
    then have "ls = []" using groupby_concat [of ls] by simp
    then show ?thesis by simp
  next
    case (Cons h gs)
    then obtain k g' where h: "h = k # g'" using groupby_nonempty [of h ls] by (cases h) auto
    have ne: "lock_key l \<noteq> lock_key k" using Cons.prems Cons h by (auto split: if_splits)
    then have IH: "groupby ls = map (\<lambda>l. [l]) ls \<and> successively (\<lambda>a b. lock_key a \<noteq> lock_key b) ls"
      using Cons.IH Cons.prems Cons h by auto
    then obtain ls' where "ls = k # ls'" using Cons h by (cases ls) auto
    then show ?thesis using IH ne by (auto simp: successively_Cons)
  qed
qed simp

lemma sorted_successively:
  assumes "sorted (map f xs)" and "successively (\<lambda>a b. f a \<noteq> f b) xs"
  shows "distinct (map f xs)"
  using assms
proof (induction xs)
  case (Cons x xs)
  have "f x \<noteq> f y" if "y \<in> set xs" for y
  proof (cases xs)
    case (Cons z zs)
    then have "f x < f z" using Cons.prems by (auto simp: successively_Cons order.strict_iff_order)
    moreover have "f z \<le> f y" using Cons.prems(1) Cons that by auto
    ultimately show ?thesis by auto
  qed (use that in simp)
  then show ?case using Cons by (auto simp: successively_Cons split: list.splits)
qed simp

lemma validate_ok:
  assumes "validate locks = Inr ls"
  shows "set ls = set locks \<and> sorted (map lock_key ls) \<and> distinct (map lock_key ls)"
proof -
  have ls: "ls = sort_key lock_key (remdups locks)" "\<forall>g \<in> set (groupby ls). length g \<le> 1"
    using assms by (auto simp: validate_def Let_def filter_empty_conv not_less split: list.splits)
  have sorted: "sorted (map lock_key ls)" by (simp add: ls(1))
  have "distinct (map lock_key ls)"
    by (rule sorted_successively [OF sorted conjunct2 [OF groupby_singletons [OF ls(2)]]])
  then show ?thesis using sorted ls(1) by simp
qed

lemma validate_conflict:
  assumes "validate locks = Inl err"
  shows "\<exists>g a b. err = Deadlock g \<and> set g \<subseteq> set locks \<and> a \<in> set g \<and> b \<in> set g \<and> a \<noteq> b \<and> lock_key a = lock_key b"
proof -
  define ls where "ls = sort_key lock_key (remdups locks)"
  obtain g where g: "err = Deadlock g" "g \<in> set (groupby ls)" "1 < length g"
    using assms by (auto simp: validate_def Let_def ls_def filter_eq_Cons_iff split: list.splits)
  obtain xs ys where "groupby ls = xs @ g # ys" using g(2) by (meson split_list)
  then have eq: "ls = concat xs @ g @ concat ys" using groupby_concat [of ls] by simp
  have "distinct ls" by (simp add: ls_def)
  then have dist: "distinct g" using eq by simp
  obtain a b g' where ab: "g = a # b # g'" using g(3) by (cases g; cases "tl g") auto
  have "set g \<subseteq> set locks" using eq by (metis ls_def set_append set_remdups set_sort Un_subset_iff order_refl)
  then show ?thesis
    using g(1) dist ab groupby_same_key [OF g(2), of a b] by (intro exI [of _ g] exI [of _ a] exI [of _ b]) auto
qed

text \<open>
  C23. The locks of a context are the given locks, each once, in strictly increasing order of
  namespace and name; Deadlock is raised exactly when two different locks of one resource are
  asked for, and reports such locks.
\<close>

theorem validate_spec:
  "case (validate locks :: 'e guard_error + guard_lock list) of
     Inr ls \<Rightarrow> set ls = set locks \<and> sorted_wrt lock_less ls
   | Inl err \<Rightarrow> \<exists>g a b. err = Deadlock g \<and> set g \<subseteq> set locks \<and> a \<in> set g \<and> b \<in> set g \<and> a \<noteq> b \<and> lock_key a = lock_key b"
proof (cases "validate locks :: 'e guard_error + guard_lock list")
  case (Inl err)
  then show ?thesis using validate_conflict [OF Inl] by simp
next
  case (Inr ls)
  have "sorted_wrt (\<lambda>a b. a < b) (map lock_key ls)"
    using validate_ok [OF Inr] by (simp add: strict_sorted_iff)
  then have "sorted_wrt lock_less ls" by (simp add: sorted_wrt_map lock_less_def [abs_def])
  then show ?thesis using Inr validate_ok [OF Inr] by simp
qed

subsection \<open>All or nothing\<close>

text \<open>
  Lock operations that write a journal; \<open>bad\<close> says which calls raise, given the journal so far.
\<close>

datatype lock_call = Acquire guard_lock | Release guard_lock

definition journal_op :: "(guard_lock \<Rightarrow> lock_call) \<Rightarrow> (lock_call \<Rightarrow> bool) \<Rightarrow> guard_lock \<Rightarrow> (lock_call list, lock_call, unit) op" where
  "journal_op call bad l log = (if bad (call l) then Inl (call l) else Inr (), log @ [call l])"

lemma release_loop_journal:
  "release_loop (journal_op Release bad) ls errors log =
    (errors @ filter bad (map Release ls), log @ map Release ls)"
  by (induction ls arbitrary: errors log) (auto simp: journal_op_def)

lemma enter_loop_journal:
  "enter_loop (journal_op Acquire bad) (journal_op Release bad) ls held log =
    (let ok = takeWhile (\<lambda>l. \<not> bad (Acquire l)) ls in
     case dropWhile (\<lambda>l. \<not> bad (Acquire l)) ls of
       [] \<Rightarrow> (Inr (held @ ls), log @ map Acquire ls)
     | l # _ \<Rightarrow> (Inl (AcquireError (Acquire l)), log @ map Acquire (ok @ [l]) @ map Release (rev (held @ ok))))"
proof (induction ls arbitrary: held log)
  case (Cons l ls)
  show ?case
  proof (cases "bad (Acquire l)")
    case True
    have "snd (release_held (journal_op Release bad) held (log @ [Acquire l])) = log @ [Acquire l] @ map Release (rev held)"
      by (simp add: release_held_def release_loop_journal split: list.splits prod.splits)
    then show ?thesis using True by (simp add: journal_op_def [of Acquire])
  next
    case False
    then show ?thesis using Cons.IH [of "held @ [l]" "log @ [Acquire l]"]
      by (cases "dropWhile (\<lambda>l. \<not> bad (Acquire l)) ls")
        (simp_all add: journal_op_def [of Acquire] Let_def del: dropWhile_eq_Nil_conv)
  qed
qed simp

text \<open>
  C24. Entering a context takes all its locks in order, or none: when a lock cannot be taken, the
  error is raised after the locks taken so far were released in reverse order, each
  exactly once, even when releasing raises too.
\<close>

theorem enter_all_or_nothing:
  "enter (journal_op Acquire bad) (journal_op Release bad) ls [] =
    (case dropWhile (\<lambda>l. \<not> bad (Acquire l)) ls of
       [] \<Rightarrow> (Inr ls, map Acquire ls)
     | l # _ \<Rightarrow>
         (let ok = takeWhile (\<lambda>l. \<not> bad (Acquire l)) ls
          in (Inl (AcquireError (Acquire l)), map Acquire ok @ [Acquire l] @ map Release (rev ok))))"
  by (cases "dropWhile (\<lambda>l. \<not> bad (Acquire l)) ls") (simp_all add: enter_def enter_loop_journal Let_def del: dropWhile_eq_Nil_conv)

subsection \<open>Contexts do not deadlock\<close>

text \<open>
  Several contexts at once. A context has the locks it holds and the ones it still has to take,
  in its order; it can move when its next lock is not held by another context in a way that
  excludes it, or when it has all its locks.
\<close>

record guard_process =
  gp_held :: "guard_lock list"
  gp_next :: "guard_lock list"

definition process_ok :: "guard_process \<Rightarrow> bool" where
  "process_ok p \<longleftrightarrow> sorted_wrt lock_less (gp_held p @ gp_next p)"

definition can_move :: "(guard_lock \<Rightarrow> guard_lock \<Rightarrow> bool) \<Rightarrow> guard_process list \<Rightarrow> nat \<Rightarrow> bool" where
  "can_move compatible ps i \<longleftrightarrow>
     (case gp_next (ps ! i) of
        [] \<Rightarrow> True
      | l # _ \<Rightarrow> \<forall>j < length ps. j \<noteq> i \<longrightarrow>
          (\<forall>k \<in> set (gp_held (ps ! j)). lock_key k = lock_key l \<longrightarrow> compatible k l))"

lemma blocked_by_larger:
  assumes "\<forall>p \<in> set ps. process_ok p" and "i < length ps" and "\<not> can_move compatible ps i"
  shows "gp_next (ps ! i) \<noteq> []"
    "\<exists>j < length ps. gp_next (ps ! j) = [] \<or> lock_key (hd (gp_next (ps ! i))) < lock_key (hd (gp_next (ps ! j)))"
proof -
  obtain l ls where l: "gp_next (ps ! i) = l # ls" using assms(3) by (cases "gp_next (ps ! i)") (auto simp: can_move_def)
  obtain j k where j: "j < length ps" "k \<in> set (gp_held (ps ! j))" "lock_key k = lock_key l"
    using assms(3) l by (auto simp: can_move_def)
  have "process_ok (ps ! j)" using assms(1) j(1) by simp
  then have "gp_next (ps ! j) = [] \<or> lock_key l < lock_key (hd (gp_next (ps ! j)))"
    using j(2,3) by (cases "gp_next (ps ! j)") (auto simp: process_ok_def sorted_wrt_append lock_less_def)
  then show "\<exists>j < length ps. gp_next (ps ! j) = [] \<or> lock_key (hd (gp_next (ps ! i))) < lock_key (hd (gp_next (ps ! j)))"
    using l j(1) by auto
  show "gp_next (ps ! i) \<noteq> []" using l by simp
qed

lemma validated_process:
  assumes "validate locks = Inr (gp_held p @ gp_next p)"
  shows "process_ok p"
proof -
  have "sorted_wrt (<) (map lock_key (gp_held p @ gp_next p))"
    using validate_ok [OF assms] by (simp add: strict_sorted_iff del: map_append)
  then show ?thesis
    by (simp add: process_ok_def lock_less_def [abs_def] sorted_wrt_map del: map_append)
qed

text \<open>
  C25. No deadlock: contexts that take their locks in the order \<open>validate\<close> gives can never all be
  blocked by each other. Whatever they hold, and whichever lock modes exclude each other, some
  context can take its next lock or has all its locks.
\<close>

theorem contexts_never_deadlock:
  assumes "ps \<noteq> []"
    and "\<forall>p \<in> set ps. \<exists>locks. (validate locks :: 'e guard_error + guard_lock list) = Inr (gp_held p @ gp_next p)"
  shows "\<exists>i < length ps. can_move compatible ps i"
proof (rule ccontr)
  have ok: "\<forall>p \<in> set ps. process_ok p" using assms(2) validated_process by blast
  assume "\<not> ?thesis"
  then have stuck: "\<not> can_move compatible ps i" if "i < length ps" for i using that by blast
  define keys where "keys = (\<lambda>i. lock_key (hd (gp_next (ps ! i)))) ` {i. i < length ps}"
  have "finite keys" "keys \<noteq> {}" using assms(1) by (auto simp: keys_def)
  then have "Max keys \<in> keys" by (rule Max_in)
  then obtain i where i: "i < length ps" "lock_key (hd (gp_next (ps ! i))) = Max keys"
    unfolding keys_def by (elim imageE) simp
  obtain j where j: "j < length ps" "gp_next (ps ! j) = [] \<or> lock_key (hd (gp_next (ps ! i))) < lock_key (hd (gp_next (ps ! j)))"
    using blocked_by_larger(2) [OF ok i(1) stuck [OF i(1)]] by blast
  have "gp_next (ps ! j) \<noteq> []" by (rule blocked_by_larger(1) [OF ok j(1) stuck [OF j(1)]])
  then have "Max keys < lock_key (hd (gp_next (ps ! j)))" using j(2) i(2) by simp
  moreover have "lock_key (hd (gp_next (ps ! j))) \<in> keys" using j(1) by (auto simp: keys_def)
  ultimately show False using Max_ge [OF \<open>finite keys\<close>] by (meson leD)
qed

definition sample_guard :: "pystr \<Rightarrow> guard_lock" where
  "sample_guard name = \<lparr>gl_type = ResourceLock, gl_ns = ''ns'', gl_name = name, gl_mode = ''exclusive''\<rparr>"

theorem contexts_never_deadlock_witness:
  "\<exists>i < 2. can_move (\<lambda>_ _. False)
     [\<lparr>gp_held = [sample_guard ''a''], gp_next = [sample_guard ''b'']\<rparr>, \<lparr>gp_held = [sample_guard ''b''], gp_next = []\<rparr>] i"
proof -
  let ?ps = "[\<lparr>gp_held = [sample_guard ''a''], gp_next = [sample_guard ''b'']\<rparr>, \<lparr>gp_held = [sample_guard ''b''], gp_next = []\<rparr>]"
  have "(validate [sample_guard ''b'', sample_guard ''a''] :: unit guard_error + guard_lock list) = Inr [sample_guard ''a'', sample_guard ''b'']"
    "(validate [sample_guard ''b''] :: unit guard_error + guard_lock list) = Inr [sample_guard ''b'']"
    by (simp_all add: validate_def lock_key_def sample_guard_def less_char_def)
  then have "\<forall>p \<in> set ?ps. \<exists>locks. (validate locks :: unit guard_error + guard_lock list) = Inr (gp_held p @ gp_next p)"
    by auto
  then show ?thesis
    using contexts_never_deadlock [of ?ps "\<lambda>_ _. False", where ?'e = unit] by (simp add: numeral_2_eq_2)
qed

subsection \<open>What a lock provider promises\<close>

text \<open>
  For states that satisfy \<open>inv\<close>: a lock that is free can be taken, a lock that is taken by this
  context can be released and is free again, and both leave the locks of other resources alone.
\<close>

definition untouched ::
  "('s \<Rightarrow> guard_lock \<Rightarrow> bool) \<Rightarrow> ('s \<Rightarrow> guard_lock \<Rightarrow> bool) \<Rightarrow> (pystr \<times> pystr) set \<Rightarrow> 's \<Rightarrow> 's \<Rightarrow> bool" where
  "untouched free mine K s s' \<longleftrightarrow> (\<forall>k. lock_key k \<notin> K \<longrightarrow> free s' k = free s k \<and> mine s' k = mine s k)"

lemma untouched_refl [simp]: "untouched free mine K s s"
  by (simp add: untouched_def)

lemma untouched_trans:
  "untouched free mine K s s1 \<Longrightarrow> untouched free mine K' s1 s2 \<Longrightarrow> untouched free mine (K \<union> K') s s2"
  by (simp add: untouched_def)

lemma untouched_free: "untouched free mine K s s' \<Longrightarrow> lock_key k \<notin> K \<Longrightarrow> free s k \<Longrightarrow> free s' k"
  and untouched_mine: "untouched free mine K s s' \<Longrightarrow> lock_key k \<notin> K \<Longrightarrow> mine s k \<Longrightarrow> mine s' k"
  by (simp_all add: untouched_def)

locale abstract_lock =
  fixes acq rel :: "guard_lock \<Rightarrow> ('s, 'e, unit) op"
    and inv :: "'s \<Rightarrow> bool"
    and free mine :: "'s \<Rightarrow> guard_lock \<Rightarrow> bool"
  assumes acq_free: "inv s \<Longrightarrow> free s l \<Longrightarrow>
      \<exists>s'. acq l s = (Inr (), s') \<and> inv s' \<and> mine s' l \<and> untouched free mine {lock_key l} s s'"
    and rel_mine: "inv s \<Longrightarrow> mine s l \<Longrightarrow>
      \<exists>s'. rel l s = (Inr (), s') \<and> inv s' \<and> free s' l \<and> untouched free mine {lock_key l} s s'"
begin

lemma enter_loop_free:
  assumes "inv s" and "\<forall>l \<in> set ls. free s l" and "distinct (map lock_key ls)"
  shows "\<exists>s'. enter_loop acq rel ls held s = (Inr (held @ ls), s') \<and> inv s' \<and> (\<forall>l \<in> set ls. mine s' l) \<and>
    untouched free mine (lock_key ` set ls) s s'"
  using assms
proof (induction ls arbitrary: held s)
  case (Cons l ls)
  obtain s1 where s1: "acq l s = (Inr (), s1)" "inv s1" "mine s1 l" "untouched free mine {lock_key l} s s1"
    using acq_free [of s l] Cons.prems by auto
  have "\<forall>k \<in> set ls. free s1 k"
    using Cons.prems(2,3) by (auto intro!: untouched_free [OF s1(4)] rev_image_eqI)
  then obtain s2 where s2: "enter_loop acq rel ls (held @ [l]) s1 = (Inr ((held @ [l]) @ ls), s2)" "inv s2" "\<forall>l \<in> set ls. mine s2 l"
    "untouched free mine (lock_key ` set ls) s1 s2"
    using Cons.IH [OF s1(2), of "held @ [l]"] Cons.prems(3) by auto
  have "mine s2 l" using untouched_mine [OF s2(4) _ s1(3)] Cons.prems(3) by simp
  then show ?case using s1(1) s2(1-3) untouched_trans [OF s1(4) s2(4)] by simp
qed simp

lemma release_loop_mine:
  assumes "inv s" and "\<forall>l \<in> set ls. mine s l" and "distinct (map lock_key ls)"
  shows "\<exists>s'. release_loop rel ls errors s = (errors, s') \<and> inv s' \<and> (\<forall>l \<in> set ls. free s' l) \<and>
    untouched free mine (lock_key ` set ls) s s'"
  using assms
proof (induction ls arbitrary: s)
  case (Cons l ls)
  obtain s1 where s1: "rel l s = (Inr (), s1)" "inv s1" "free s1 l" "untouched free mine {lock_key l} s s1"
    using rel_mine [of s l] Cons.prems by auto
  have "\<forall>k \<in> set ls. mine s1 k"
    using Cons.prems(2,3) by (auto intro!: untouched_mine [OF s1(4)] rev_image_eqI)
  then obtain s2 where s2: "release_loop rel ls errors s1 = (errors, s2)" "inv s2" "\<forall>l \<in> set ls. free s2 l"
    "untouched free mine (lock_key ` set ls) s1 s2"
    using Cons.IH [OF s1(2)] Cons.prems(3) by auto
  have "free s2 l" using untouched_free [OF s2(4) _ s1(3)] Cons.prems(3) by simp
  then show ?case using s1(1) s2(1-3) untouched_trans [OF s1(4) s2(4)] by simp
qed simp

text \<open>A context on free locks takes them all, and leaving it frees them again.\<close>

lemma guarded_round_trip:
  assumes "inv s" and "(validate locks :: 'e guard_error + guard_lock list) = Inr ls" and "\<forall>l \<in> set locks. free s l"
  shows "\<exists>s1 s2. enter acq rel ls s = (Inr ls, s1) \<and> (\<forall>l \<in> set locks. mine s1 l) \<and>
    exit_context rel ls failed s1 = (Inr (), s2) \<and> inv s2 \<and> (\<forall>l \<in> set locks. free s2 l)"
proof -
  have ls: "set ls = set locks" "distinct (map lock_key ls)" using validate_ok [OF assms(2)] by auto
  obtain s1 where s1: "enter acq rel ls s = (Inr ls, s1)" "inv s1" "\<forall>l \<in> set ls. mine s1 l"
    using enter_loop_free [OF assms(1) _ ls(2), of "[]"] assms(3) ls(1) by (auto simp: enter_def)
  have "distinct (map lock_key (rev ls))" using ls(2) by (simp add: rev_map [symmetric])
  then obtain s2 where "release_loop rel (rev ls) [] s1 = ([], s2)" "inv s2" "\<forall>l \<in> set ls. free s2 l"
    using release_loop_mine [OF s1(2), of "rev ls" "[]"] s1(3) by auto
  then show ?thesis using s1 ls(1) by (auto simp: exit_context_def release_held_def)
qed

end

end
