(* ===== verification/Resource_Owner.thy ===== *)
theory Resource_Owner
  imports Resource_Steps Guarded
begin

text \<open>
  \<^verbatim>\<open>lib/vdsm/storage/resourceManager.py\<close>: the clients of the manager. \<open>ResourceRef\<close> releases a
  resource once, \<open>Owner\<close> keeps the resources of a task, and \<open>Lock\<close> provides the manager's
  resources to \<^verbatim>\<open>guarded.context\<close>: it is an interpretation of \<open>abstract_lock\<close>.
\<close>

subsection \<open>References and owners\<close>

record resource_ref =
  rr_namespace :: pystr
  rr_name :: pystr
  rr_isValid :: bool

definition new_ref :: "pystr \<Rightarrow> pystr \<Rightarrow> resource_ref" where
  "new_ref ns name = \<lparr>rr_namespace = ns, rr_name = name, rr_isValid = True\<rparr>"

definition full_name :: "pystr \<Rightarrow> pystr \<Rightarrow> pystr" where
  "full_name ns name = ns @ ''.'' @ name"

abbreviation ref_full_name :: "resource_ref \<Rightarrow> pystr" where
  "ref_full_name r \<equiv> full_name (rr_namespace r) (rr_name r)"

definition ref_release :: "resource_api \<Rightarrow> resource_ref \<Rightarrow> manager \<Rightarrow> (rm_error + unit) \<times> resource_ref \<times> manager" where
  "ref_release api r m =
     (if \<not> rr_isValid r then (Inr (), r, m)
      else case releaseResource api (rr_namespace r) (rr_name r) m of
             (Inl e, m') \<Rightarrow> (Inl e, r, m')
           | (Inr _, m') \<Rightarrow> (Inr (), r\<lparr>rr_isValid := False\<rparr>, m'))"

text \<open>
  The dict of an owner in its order. The hooks are the methods that the owner object may have;
  a hook returns, or raises the error it gives.
\<close>

record owner =
  ow_resources :: "(pystr \<times> resource_ref) list"
  ow_raiseonfailure :: bool

record owner_hooks =
  resourceAcquired :: "(pystr \<Rightarrow> pystr \<Rightarrow> pystr \<Rightarrow> rm_error option) option"
  resourceReleased :: "(pystr \<Rightarrow> pystr \<Rightarrow> rm_error option) option"

definition new_owner :: "bool \<Rightarrow> owner" where
  "new_owner raiseonfailure = \<lparr>ow_resources = [], ow_raiseonfailure = raiseonfailure\<rparr>"

definition acquire_error :: "pystr \<Rightarrow> pystr \<Rightarrow> rm_error \<Rightarrow> rm_error" where
  "acquire_error ns name e =
     (case e of
        RequestTimedOut \<Rightarrow> ResourceTimeout
      | RmValueError \<Rightarrow> InvalidResourceName name
      | RmKeyError \<Rightarrow> ResourceDoesNotExist
      | _ \<Rightarrow> ResourceException (full_name ns name))"

text \<open>
  A timeout of None leaves the local variable \<open>timeout\<close> unset: reading it raises inside the
  block that turns every other exception into ResourceException.
\<close>

definition owner_try ::
  "owner_hooks \<Rightarrow> pystr \<Rightarrow> pystr \<Rightarrow> pystr \<Rightarrow> int option \<Rightarrow> (manager \<Rightarrow> manager) \<Rightarrow> (manager \<Rightarrow> manager) \<Rightarrow>
   (owner \<times> manager, rm_error, unit) op" where
  "owner_try hooks ns name lockType timeout_ms wait gap = (\<lambda>(ow, m).
     if map_of (ow_resources ow) (full_name ns name) \<noteq> None then (Inl ResourceAlreadyAcquired, ow, m)
     else if timeout_ms = None then (Inl (ResourceException (full_name ns name)), ow, m)
     else case acquireResource ns name lockType wait gap m of
            (Inl e, m') \<Rightarrow> (Inl (acquire_error ns name e), ow, m')
          | (Inr _, m') \<Rightarrow>
              let ow' = ow\<lparr>ow_resources := ow_resources ow @ [(full_name ns name, new_ref ns name)]\<rparr>
              in case resourceAcquired hooks of
                   None \<Rightarrow> (Inr (), ow', m')
                 | Some hook \<Rightarrow>
                     (case hook ns name lockType of
                        None \<Rightarrow> (Inr (), ow', m')
                      | Some e \<Rightarrow> (Inl (acquire_error ns name e), ow', m')))"

definition owner_acquire ::
  "owner_hooks \<Rightarrow> pystr \<Rightarrow> pystr \<Rightarrow> pystr \<Rightarrow> int option \<Rightarrow> bool option \<Rightarrow> (manager \<Rightarrow> manager) \<Rightarrow> (manager \<Rightarrow> manager) \<Rightarrow>
   (owner \<times> manager, rm_error, bool) op" where
  "owner_acquire hooks ns name lockType timeout_ms raiseonfailure wait gap s =
     (let do_raise = (case raiseonfailure of None \<Rightarrow> ow_raiseonfailure (fst s) | Some b \<Rightarrow> b)
      in case owner_try hooks ns name lockType timeout_ms wait gap s of
           (Inl e, s') \<Rightarrow> (if do_raise then Inl e else Inr False, s')
         | (Inr _, s') \<Rightarrow> (Inr True, s'))"

definition owner_release :: "resource_api \<Rightarrow> owner_hooks \<Rightarrow> pystr \<Rightarrow> pystr \<Rightarrow> (owner \<times> manager, rm_error, unit) op" where
  "owner_release api hooks ns name = (\<lambda>(ow, m).
     case map_of (ow_resources ow) (full_name ns name) of
       None \<Rightarrow> (Inl RmValueError, ow, m)
     | Some r \<Rightarrow>
         if \<not> rr_isValid r then (Inr (), ow, m)
         else case ref_release api r m of
                (Inl e, _, m') \<Rightarrow> (Inl e, ow, m')
              | (Inr _, r', m') \<Rightarrow>
                  let ow' = ow\<lparr>ow_resources := filter (\<lambda>(k, _). k \<noteq> ref_full_name r') (ow_resources ow)\<rparr>
                  in case resourceReleased hooks of
                       None \<Rightarrow> (Inr (), ow', m')
                     | Some hook \<Rightarrow>
                         (case hook (rr_namespace r') (rr_name r') of
                            None \<Rightarrow> (Inr (), ow', m')
                          | Some e \<Rightarrow> (Inl e, ow', m')))"

fun release_each :: "resource_api \<Rightarrow> owner_hooks \<Rightarrow> resource_ref list \<Rightarrow> (owner \<times> manager, rm_error, unit) op" where
  "release_each api hooks [] s = (Inr (), s)"
| "release_each api hooks (r # rs) s =
     (case owner_release api hooks (rr_namespace r) (rr_name r) s of
        (Inl e, s') \<Rightarrow> (Inl e, s')
      | (Inr _, s') \<Rightarrow> release_each api hooks rs s')"

definition releaseAll :: "resource_api \<Rightarrow> owner_hooks \<Rightarrow> (owner \<times> manager, rm_error, unit) op" where
  "releaseAll api hooks s = release_each api hooks (map snd (ow_resources (fst s))) s"

subsection \<open>An owner releases what it holds\<close>

text \<open>The dict of an owner that holds its resources: keys are full names, all references valid.\<close>

definition owner_ok :: "owner \<Rightarrow> bool" where
  "owner_ok ow \<longleftrightarrow> distinct (map fst (ow_resources ow)) \<and>
     (\<forall>(k, r) \<in> set (ow_resources ow). k = ref_full_name r \<and> rr_isValid r)"

lemma release_valid:
  assumes "rm_inv m R" and "i \<in> held m R (rr_namespace r) (rr_name r)" and "rr_isValid r"
  shows "ref_release api r m = (Inr (), r\<lparr>rr_isValid := False\<rparr>, snd (releaseResource api (rr_namespace r) (rr_name r) m))"
  using inv_releaseResource [OF assms(1,2), of api] assms(3)
  by (cases "releaseResource api (rr_namespace r) (rr_name r) m") (simp add: ref_release_def)

lemma owner_release_first:
  assumes "owner_ok \<lparr>ow_resources = (k, r) # rs, ow_raiseonfailure = b\<rparr>" and "rm_inv m R"
    and "i \<in> held m R (rr_namespace r) (rr_name r)" and "resourceReleased hooks = None"
  shows "owner_release api hooks (rr_namespace r) (rr_name r) (\<lparr>ow_resources = (k, r) # rs, ow_raiseonfailure = b\<rparr>, m) =
    (Inr (), \<lparr>ow_resources = rs, ow_raiseonfailure = b\<rparr>, snd (releaseResource api (rr_namespace r) (rr_name r) m))"
proof -
  have k: "k = ref_full_name r" "rr_isValid r" "ref_full_name r \<notin> fst ` set rs" using assms(1) by (auto simp: owner_ok_def)
  then have "filter (\<lambda>(k, _). k \<noteq> ref_full_name r) rs = rs" by (force simp: filter_id_conv)
  then show ?thesis using k release_valid [OF assms(2,3) k(2)] assms(4) by (simp add: owner_release_def)
qed

lemma release_each_all:
  assumes "owner_ok \<lparr>ow_resources = rs, ow_raiseonfailure = b\<rparr>" and "rm_reach api m R" and "resourceReleased hooks = None"
    and "\<forall>r \<in> snd ` set rs. h r \<in> held m R (rr_namespace r) (rr_name r)"
  shows "\<exists>m'. release_each api hooks (map snd rs) (\<lparr>ow_resources = rs, ow_raiseonfailure = b\<rparr>, m) =
    (Inr (), \<lparr>ow_resources = [], ow_raiseonfailure = b\<rparr>, m') \<and> rm_reach api m' (R \<union> h ` snd ` set rs)"
  using assms
proof (induction rs arbitrary: m R)
  case (Cons kr rs)
  obtain k r where kr: "kr = (k, r)" by (cases kr)
  have inv: "rm_inv m R" by (rule rm_reach_inv [OF Cons.prems(2)])
  have hr: "h r \<in> held m R (rr_namespace r) (rr_name r)" using Cons.prems(4) kr by simp
  let ?m = "snd (releaseResource api (rr_namespace r) (rr_name r) m)"
  have reach: "rm_reach api ?m (insert (h r) R)" by (rule rm_release [OF Cons.prems(2) hr])
  have "h r' \<noteq> h r" if "r' \<in> snd ` set rs" for r'
  proof -
    have "ref_full_name r' \<noteq> ref_full_name r" using Cons.prems(1) that kr by (force simp: owner_ok_def)
    moreover have "h r' \<in> held m R (rr_namespace r') (rr_name r')" using Cons.prems(4) that kr by auto
    ultimately show ?thesis using hr by (auto simp: held_def req_at_def)
  qed
  then have "\<forall>r' \<in> snd ` set rs. h r' \<in> held ?m (insert (h r) R) (rr_namespace r') (rr_name r')"
    using release_keeps_holders [OF inv hr] Cons.prems(4) kr by simp
  moreover have "owner_ok \<lparr>ow_resources = rs, ow_raiseonfailure = b\<rparr>" using Cons.prems(1) by (simp add: owner_ok_def)
  ultimately obtain m' where "release_each api hooks (map snd rs) (\<lparr>ow_resources = rs, ow_raiseonfailure = b\<rparr>, ?m) =
      (Inr (), \<lparr>ow_resources = [], ow_raiseonfailure = b\<rparr>, m')" "rm_reach api m' (insert (h r) R \<union> h ` snd ` set rs)"
    using Cons.IH [OF _ reach Cons.prems(3)] by blast
  then show ?case
    using owner_release_first [OF Cons.prems(1) [unfolded kr] inv hr Cons.prems(3)] kr by simp
qed simp

text \<open>
  C22. When a task ends, its owner gives back everything: \<open>releaseAll\<close> does not raise, leaves the
  owner with no resources, and releases exactly the holders the owner had, so the manager is in
  a state where none of them holds anything.
\<close>

theorem owner_releases_all:
  assumes "rm_reach api m R" and "owner_ok ow" and "resourceReleased hooks = None"
    and "\<forall>r \<in> snd ` set (ow_resources ow). h r \<in> held m R (rr_namespace r) (rr_name r)"
  shows "\<exists>m'. releaseAll api hooks (ow, m) = (Inr (), ow\<lparr>ow_resources := []\<rparr>, m') \<and>
    rm_reach api m' (R \<union> h ` snd ` set (ow_resources ow))"
proof -
  have "ow = \<lparr>ow_resources = ow_resources ow, ow_raiseonfailure = ow_raiseonfailure ow\<rparr>" by simp
  then show ?thesis
    using release_each_all [of "ow_resources ow" "ow_raiseonfailure ow" api m R hooks h] assms
    by (cases ow) (simp add: releaseAll_def)
qed

definition no_close :: resource_api where
  "no_close = \<lparr>has_switch = \<lambda>_. False, switch_ok = \<lambda>_ _. False, has_close = \<lambda>_. False\<rparr>"

definition no_hooks :: owner_hooks where
  "no_hooks = \<lparr>resourceAcquired = None, resourceReleased = None\<rparr>"

definition one_holder :: manager where
  "one_holder = snd (registerResource ''ns'' ''res'' EXCLUSIVE (snd (registerNamespace ''ns'' simple_factory new_manager)))"

theorem owner_releases_all_witness:
  "\<exists>m'. releaseAll no_close no_hooks (\<lparr>ow_resources = [(''ns.res'', new_ref ''ns'' ''res'')], ow_raiseonfailure = True\<rparr>, one_holder) =
    (Inr (), \<lparr>ow_resources = [], ow_raiseonfailure = True\<rparr>, m') \<and> rm_reach no_close m' {0}"
proof -
  have "valid_namespace ''ns''" "valid_resource_name ''res''"
    by (simp_all add: valid_namespace_def valid_resource_name_def match_all_def re_word_def re_space_def code_in_def)
  then have "m_requests one_holder = [(new_request ''ns'' ''res'' EXCLUSIVE)\<lparr>rq_isActive := False, rq_done := True\<rparr>]"
    by (simp add: one_holder_def registerNamespace_def registerResource_def new_manager_def new_namespace_def
        simple_factory_def create_def put_resource_def request_grant_def set_req_def Let_def)
  then have "0 \<in> held one_holder {} ''ns'' ''res''" by (simp add: held_def req_at_def granted_def)
  moreover have "rm_reach no_close one_holder {}" unfolding one_holder_def by (intro rm_register rm_namespace rm_init)
  ultimately show ?thesis
    using owner_releases_all [of no_close one_holder "{}"
        "\<lparr>ow_resources = [(''ns.res'', new_ref ''ns'' ''res'')], ow_raiseonfailure = True\<rparr>" no_hooks "\<lambda>_. 0"]
    by (simp add: owner_ok_def new_ref_def full_name_def no_hooks_def)
qed

text \<open>Without a timeout an owner cannot acquire anything.\<close>

lemma acquire_without_timeout:
  "fst (owner_acquire hooks ns name lt None (Some True) wait gap (new_owner b, m)) = Inl (ResourceException (full_name ns name))"
  by (simp add: owner_acquire_def owner_try_def new_owner_def)

subsection \<open>Locks of guarded contexts\<close>

text \<open>
  \<open>Lock.acquire\<close> waits without a timeout; \<open>wait\<close> is what the other threads do meanwhile.
\<close>

definition lock_acquire :: "(manager \<Rightarrow> manager) \<Rightarrow> guard_lock \<Rightarrow> (manager, rm_error, unit) op" where
  "lock_acquire wait l m =
     (case acquireResource (gl_ns l) (gl_name l) (gl_mode l) wait (\<lambda>m. m) m of
        (Inl e, m') \<Rightarrow> (Inl e, m')
      | (Inr _, m') \<Rightarrow> (Inr (), m'))"

definition lock_release :: "resource_api \<Rightarrow> guard_lock \<Rightarrow> (manager, rm_error, unit) op" where
  "lock_release api l m = releaseResource api (gl_ns l) (gl_name l) m"

text \<open>
  A lock of a registered namespace that nobody uses, and one that only its taker uses; all
  factories work.
\<close>

definition factories_work :: "manager \<Rightarrow> bool" where
  "factories_work m \<longleftrightarrow>
     (\<forall>ns nsp. m_namespaces m ns = Some nsp \<longrightarrow>
        (\<forall>name. fa_exists (ns_factory nsp) name) \<and> (\<forall>n name lt. is_ok (fa_create (ns_factory nsp) n name lt)))"

definition lock_ready :: "manager \<Rightarrow> guard_lock \<Rightarrow> bool" where
  "lock_ready m l \<longleftrightarrow> m_namespaces m (gl_ns l) \<noteq> None \<and> valid_resource_name (gl_name l) \<and>
     (gl_mode l = SHARED \<or> gl_mode l = EXCLUSIVE)"

definition lock_free :: "manager \<Rightarrow> guard_lock \<Rightarrow> bool" where
  "lock_free m l \<longleftrightarrow> lock_ready m l \<and> resource_at (gl_ns l) (gl_name l) m = None"

definition lock_mine :: "manager \<Rightarrow> guard_lock \<Rightarrow> bool" where
  "lock_mine m l \<longleftrightarrow> lock_ready m l \<and>
     (\<exists>ri. resource_at (gl_ns l) (gl_name l) m = Some ri \<and> ri_activeUsers ri = 1 \<and> ri_queue ri = [])"

lemma lock_change:
  assumes "lock_ready m l" and "m_namespaces m' = m_namespaces (put_resource (gl_ns l) (gl_name l) x m)"
  shows "factories_work m \<Longrightarrow> factories_work m'" "lock_ready m' l"
    "untouched lock_free lock_mine {lock_key l} m m'" "resource_at (gl_ns l) (gl_name l) m' = x"
proof -
  obtain nsp where nsp: "m_namespaces m (gl_ns l) = Some nsp" using assms(1) by (auto simp: lock_ready_def)
  have eq: "m_namespaces m' = (m_namespaces m)(gl_ns l \<mapsto> nsp\<lparr>ns_resources := (ns_resources nsp)(gl_name l := x)\<rparr>)"
    using assms(2) nsp by (simp add: put_resource_def)
  show "factories_work m \<Longrightarrow> factories_work m'" using nsp by (auto simp: factories_work_def eq)
  show "lock_ready m' l" using assms(1) by (simp add: lock_ready_def eq)
  have "lock_ready m' k = lock_ready m k" for k using nsp by (auto simp: lock_ready_def eq)
  moreover have "resource_at (gl_ns k) (gl_name k) m' = resource_at (gl_ns k) (gl_name k) m" if "lock_key k \<noteq> lock_key l" for k
    using that nsp by (auto simp: resource_at_def eq lock_key_def)
  ultimately show "untouched lock_free lock_mine {lock_key l} m m'"
    by (simp add: untouched_def lock_free_def lock_mine_def)
  show "resource_at (gl_ns l) (gl_name l) m' = x" by (simp add: resource_at_def eq)
qed

lemma lock_acquire_free:
  assumes "factories_work m" and "lock_free m l"
  shows "\<exists>m' obj. lock_acquire (\<lambda>m. m) l m = (Inr (), m') \<and>
    m_namespaces m' = m_namespaces (put_resource (gl_ns l) (gl_name l)
      (Some \<lparr>ri_queue = [], ri_activeUsers = 1, ri_currentLock = Some (gl_mode l), ri_realObj = obj\<rparr>) m)"
proof -
  obtain nsp where nsp: "m_namespaces m (gl_ns l) = Some nsp" "ns_resources nsp (gl_name l) = None"
    using assms(2) by (auto simp: lock_free_def lock_ready_def resource_at_def)
  obtain obj where obj: "fa_create (ns_factory nsp) (m_calls m) (gl_name l) (gl_mode l) = Inr obj"
    using assms(1) nsp unfolding factories_work_def is_ok_iff by blast
  have "fa_exists (ns_factory nsp) (gl_name l)" using assms(1) nsp by (simp add: factories_work_def)
  then show ?thesis
    using assms(2) nsp obj
    by (auto simp: lock_acquire_def lock_free_def lock_ready_def acquireResource_def registerResource_def create_def
        request_grant_def set_req_def granted_def new_resource_info_def put_resource_def Let_def)
qed

lemma lock_release_mine:
  assumes "lock_mine m l"
  shows "\<exists>m'. lock_release api l m = (Inr (), m') \<and> m_namespaces m' = m_namespaces (put_resource (gl_ns l) (gl_name l) None m)"
proof -
  obtain nsp ri where "m_namespaces m (gl_ns l) = Some nsp" "ns_resources nsp (gl_name l) = Some ri"
    "ri_activeUsers ri = 1" "ri_queue ri = []"
    using assms by (auto simp: lock_mine_def resource_at_def split: option.splits)
  then show ?thesis by (simp add: lock_release_def releaseResource_def put_resource_def)
qed

interpretation rlock: abstract_lock "lock_acquire (\<lambda>m. m)" "lock_release api" factories_work lock_free lock_mine
proof
  fix m l assume inv: "factories_work m" and free: "lock_free m l"
  have ready: "lock_ready m l" using free by (simp add: lock_free_def)
  obtain m' obj where m': "lock_acquire (\<lambda>m. m) l m = (Inr (), m')"
    "m_namespaces m' = m_namespaces (put_resource (gl_ns l) (gl_name l)
      (Some \<lparr>ri_queue = [], ri_activeUsers = 1, ri_currentLock = Some (gl_mode l), ri_realObj = obj\<rparr>) m)"
    using lock_acquire_free [OF inv free] by blast
  then show "\<exists>m'. lock_acquire (\<lambda>m. m) l m = (Inr (), m') \<and> factories_work m' \<and> lock_mine m' l \<and>
      untouched lock_free lock_mine {lock_key l} m m'"
    using lock_change [OF ready m'(2)] inv by (auto simp: lock_mine_def)
next
  fix m l assume inv: "factories_work m" and mine: "lock_mine m l"
  have ready: "lock_ready m l" using mine by (simp add: lock_mine_def)
  obtain m' where m': "lock_release api l m = (Inr (), m')"
    "m_namespaces m' = m_namespaces (put_resource (gl_ns l) (gl_name l) None m)"
    using lock_release_mine [OF mine] by blast
  then show "\<exists>m'. lock_release api l m = (Inr (), m') \<and> factories_work m' \<and> lock_free m' l \<and>
      untouched lock_free lock_mine {lock_key l} m m'"
    using lock_change [OF ready m'(2)] inv by (auto simp: lock_free_def)
qed

text \<open>
  C26. Guarded contexts and the resource manager together: a context on resources that nobody
  uses takes them all, and when it is left, also after an error in its body, every resource is
  free again.
\<close>

theorem guarded_resources_round_trip:
  assumes "factories_work m" and "(validate locks :: rm_error guard_error + guard_lock list) = Inr ls"
    and "\<forall>l \<in> set locks. lock_free m l"
  shows "\<exists>m1 m2. enter (lock_acquire (\<lambda>m. m)) (lock_release api) ls m = (Inr ls, m1) \<and> (\<forall>l \<in> set locks. lock_mine m1 l) \<and>
    exit_context (lock_release api) ls failed m1 = (Inr (), m2) \<and> factories_work m2 \<and> (\<forall>l \<in> set locks. lock_free m2 l)"
  by (rule rlock.guarded_round_trip [OF assms])

theorem guarded_resources_round_trip_witness:
  "\<exists>m1 m2. enter (lock_acquire (\<lambda>m. m)) (lock_release no_close) [sample_guard ''a'', sample_guard ''b'']
      (snd (registerNamespace ''ns'' simple_factory new_manager)) = (Inr [sample_guard ''a'', sample_guard ''b''], m1) \<and>
    exit_context (lock_release no_close) [sample_guard ''a'', sample_guard ''b''] True m1 = (Inr (), m2) \<and>
    resource_at ''ns'' ''b'' m2 = None"
proof -
  let ?m = "snd (registerNamespace ''ns'' simple_factory new_manager)"
  have ns: "valid_namespace ''ns''" "valid_resource_name ''a''" "valid_resource_name ''b''"
    by (simp_all add: valid_namespace_def valid_resource_name_def match_all_def re_word_def re_space_def code_in_def)
  then have m: "?m = new_manager\<lparr>m_namespaces := [''ns'' \<mapsto> new_namespace simple_factory]\<rparr>"
    by (simp add: registerNamespace_def new_manager_def)
  have "factories_work ?m" unfolding m by (simp add: factories_work_def new_namespace_def simple_factory_def)
  moreover have "(validate [sample_guard ''b'', sample_guard ''a''] :: rm_error guard_error + guard_lock list) =
      Inr [sample_guard ''a'', sample_guard ''b'']"
    by (simp add: validate_def lock_key_def sample_guard_def less_char_def)
  moreover have "\<forall>l \<in> set [sample_guard ''b'', sample_guard ''a'']. lock_free ?m l"
    using ns unfolding m by (simp add: lock_free_def lock_ready_def sample_guard_def EXCLUSIVE_def resource_at_def new_namespace_def)
  ultimately show ?thesis
    using guarded_resources_round_trip [of ?m "[sample_guard ''b'', sample_guard ''a'']" "[sample_guard ''a'', sample_guard ''b'']" no_close True]
    by (auto simp: lock_free_def sample_guard_def)
qed

end
