(* ===== verification/Vdsm_Text.thy ===== *)
theory Vdsm_Text
  imports Vdsm_Prelude
begin

text \<open>
  Text as the metadata files of the storage code use it: white space of \<open>str\<close>, splitting and
  replacing, lines, and the UTF-8 codec on the code points that the model has (below 256).
\<close>

subsection \<open>Splitting\<close>

definition str_space :: "char \<Rightarrow> bool" where
  "str_space c \<longleftrightarrow>
     (let n = (of_char c :: nat) in 9 \<le> n \<and> n \<le> 13 \<or> 28 \<le> n \<and> n \<le> 32 \<or> n = 133 \<or> n = 160)"

abbreviation str_strip :: "pystr \<Rightarrow> pystr" where
  "str_strip \<equiv> strip str_space"

text \<open>\<open>s.split(c)\<close>, and \<open>s.split(c, 1)\<close> unpacked into two names.\<close>

fun split_on :: "'a \<Rightarrow> 'a list \<Rightarrow> 'a list list" where
  "split_on c [] = [[]]"
| "split_on c (x # xs) =
     (case split_on c xs of
        [] \<Rightarrow> []
      | p # ps \<Rightarrow> if x = c then [] # p # ps else (x # p) # ps)"

definition split_once :: "'a \<Rightarrow> 'a list \<Rightarrow> ('a list \<times> 'a list) option" where
  "split_once c xs =
     (case dropWhile (\<lambda>x. x \<noteq> c) xs of
        [] \<Rightarrow> None
      | _ # rest \<Rightarrow> Some (takeWhile (\<lambda>x. x \<noteq> c) xs, rest))"

text \<open>\<open>c.join(parts)\<close> for one character.\<close>

fun join :: "'a \<Rightarrow> 'a list list \<Rightarrow> 'a list" where
  "join c [] = []"
| "join c [p] = p"
| "join c (p # ps) = p @ c # join c ps"

text \<open>The lines of a file, without their ends.\<close>

definition lines_of :: "pystr \<Rightarrow> pystr list" where
  "lines_of s = (let ls = split_on NL s in if last ls = [] then butlast ls else ls)"

text \<open>\<open>s.replace(old, new)\<close> for a non-empty text: matches from the left that do not overlap.\<close>

function replace_sub :: "'a list \<Rightarrow> 'a list \<Rightarrow> 'a list \<Rightarrow> 'a list" where
  "replace_sub old new xs =
     (if xs = [] then []
      else if old \<noteq> [] \<and> take (length old) xs = old then new @ replace_sub old new (drop (length old) xs)
      else hd xs # replace_sub old new (tl xs))"
  by auto

termination replace_sub
  by (relation "measure (\<lambda>(old, new, xs). length xs)") auto

declare replace_sub.simps [simp del]

lemma replace_sub_Nil [simp]: "replace_sub old new [] = []"
  by (subst replace_sub.simps) simp

lemma replace_sub_match:
  "old \<noteq> [] \<Longrightarrow> replace_sub old new (old @ xs) = new @ replace_sub old new xs"
  by (subst replace_sub.simps) auto

lemma replace_sub_other:
  "take (length old) (x # xs) \<noteq> old \<Longrightarrow> replace_sub old new (x # xs) = x # replace_sub old new xs"
  by (subst replace_sub.simps) simp

lemma split_on_not_Nil [simp]: "split_on c xs \<noteq> []"
  by (induction xs) (auto split: list.splits)

lemma split_on_append:
  "c \<notin> set p \<Longrightarrow> split_on c (p @ c # xs) = p # split_on c xs"
  by (induction p) (auto split: list.splits)

lemma split_on_none: "c \<notin> set p \<Longrightarrow> split_on c p = [p]"
  by (induction p) auto

lemma split_on_join:
  "ps \<noteq> [] \<Longrightarrow> \<forall>p \<in> set ps. c \<notin> set p \<Longrightarrow> split_on c (join c ps) = ps"
  by (induction c ps rule: join.induct) (auto simp: split_on_append split_on_none)

lemma join_split_on: "join c (split_on c xs) = xs"
proof (induction xs)
  case (Cons x xs)
  then show ?case by (cases "split_on c xs"; cases "tl (split_on c xs)") auto
qed simp

lemma split_on_parts: "p \<in> set (split_on c xs) \<Longrightarrow> c \<notin> set p"
proof (induction xs arbitrary: p)
  case (Cons x xs)
  obtain q qs where "split_on c xs = q # qs" by (cases "split_on c xs") auto
  then show ?case using Cons by (auto split: if_splits)
qed simp

lemma split_once_append: "c \<notin> set k \<Longrightarrow> split_once c (k @ c # v) = Some (k, v)"
  by (induction k) (auto simp: split_once_def split: list.splits)

lemma split_once_Some:
  assumes "split_once c xs = Some (k, v)"
  shows "xs = k @ c # v" "c \<notin> set k"
proof -
  obtain y where y: "dropWhile (\<lambda>x. x \<noteq> c) xs = y # v" "k = takeWhile (\<lambda>x. x \<noteq> c) xs"
    using assms by (auto simp: split_once_def split: list.splits)
  have "y = c" using y(1) hd_dropWhile [of "\<lambda>x. x \<noteq> c" xs] by simp
  then show "xs = k @ c # v" using y takeWhile_dropWhile_id [of "\<lambda>x. x \<noteq> c" xs] by simp
  show "c \<notin> set k" using set_takeWhileD [of c "\<lambda>x. x \<noteq> c" xs] y(2) by blast
qed

lemma split_once_None: "split_once c xs = None \<longleftrightarrow> c \<notin> set xs"
proof -
  have "split_once c xs = None \<longleftrightarrow> dropWhile (\<lambda>x. x \<noteq> c) xs = []" by (simp add: split_once_def split: list.splits del: dropWhile_eq_Nil_conv)
  then show ?thesis by auto
qed

subsection \<open>Lines\<close>

text \<open>Lines that are written with their ends are read back.\<close>

definition put_lines :: "pystr list \<Rightarrow> pystr" where
  "put_lines ls = concat (map (\<lambda>l. l @ [NL]) ls)"

lemma split_on_put_lines:
  "\<forall>l \<in> set ls. NL \<notin> set l \<Longrightarrow> split_on NL (put_lines ls) = ls @ [[]]"
  by (induction ls) (auto simp: put_lines_def split_on_append)

lemma lines_of_put_lines: "\<forall>l \<in> set ls. NL \<notin> set l \<Longrightarrow> lines_of (put_lines ls) = ls"
  by (simp add: lines_of_def split_on_put_lines)

lemma put_lines_simps [simp]:
  "put_lines [] = []" "put_lines (l # ls) = l @ NL # put_lines ls" "put_lines (ls @ ls') = put_lines ls @ put_lines ls'"
  by (simp_all add: put_lines_def)

text \<open>
  \<open>splitlines()\<close>, with the characters that end a line: a carriage return and a line feed after it
  end one line.
\<close>

fun split_lines :: "(char \<Rightarrow> bool) \<Rightarrow> pystr \<Rightarrow> pystr \<Rightarrow> pystr list" where
  "split_lines brk acc [] = (if acc = [] then [] else [acc])"
| "split_lines brk acc [c] = (if brk c then [acc] else [acc @ [c]])"
| "split_lines brk acc (c # d # cs) =
     (if brk c then acc # (if c = CHR 0x0D \<and> d = NL then split_lines brk [] cs else split_lines brk [] (d # cs))
      else split_lines brk (acc @ [c]) (d # cs))"

lemma split_lines_clean:
  "\<forall>c \<in> set acc. \<not> brk c \<Longrightarrow> l \<in> set (split_lines brk acc s) \<Longrightarrow> c \<in> set l \<Longrightarrow> \<not> brk c"
  by (induction brk acc s arbitrary: l rule: split_lines.induct) (auto split: if_splits)

lemma split_lines_text: "split_lines brk acc (c # cs) =
    (if brk c then acc # split_lines brk [] (if c = CHR 0x0D \<and> take 1 cs = [NL] then drop 1 cs else cs)
     else split_lines brk (acc @ [c]) cs)"
  by (cases cs) auto

lemma split_lines_line:
  "brk NL \<Longrightarrow> \<forall>c \<in> set l. \<not> brk c \<Longrightarrow> split_lines brk acc (l @ NL # rest) = (acc @ l) # split_lines brk [] rest"
  by (induction l arbitrary: acc) (simp_all add: split_lines_text)

lemma split_put_append:
  "brk NL \<Longrightarrow> \<forall>l \<in> set ls. \<forall>c \<in> set l. \<not> brk c \<Longrightarrow>
   split_lines brk [] (put_lines ls @ rest) = ls @ split_lines brk [] rest"
  by (induction ls) (simp_all add: split_lines_line)

lemma split_put_lines:
  "brk NL \<Longrightarrow> \<forall>l \<in> set ls. \<forall>c \<in> set l. \<not> brk c \<Longrightarrow> split_lines brk [] (put_lines ls) = ls"
  using split_put_append [of brk ls "[]"] by simp

subsection \<open>Stripping\<close>

definition stripped :: "pystr \<Rightarrow> bool" where
  "stripped s \<longleftrightarrow> s = [] \<or> \<not> str_space (hd s) \<and> \<not> str_space (last s)"

lemma strip_stripped [simp]: "stripped s \<Longrightarrow> str_strip s = s"
  by (rule strip_id) (simp add: stripped_def)

lemma strip_spaces:
  assumes "\<forall>c \<in> set a. p c" and "\<forall>c \<in> set b. p c"
  shows "strip p (a @ xs @ b) = strip p xs"
proof (cases "dropWhile p xs = []")
  case True
  then have all: "\<forall>x \<in> set xs. p x" by (simp add: dropWhile_eq_Nil_conv)
  then have "\<forall>x \<in> set (a @ xs @ b). p x" using assms by auto
  then have "dropWhile p (a @ xs @ b) = []" by (simp only: dropWhile_eq_Nil_conv)
  then show ?thesis unfolding strip_def using True by (simp only:)
next
  case False
  have "dropWhile p (a @ xs @ b) = dropWhile p (xs @ b)" using assms(1) by (simp add: dropWhile_append2)
  also have "\<dots> = dropWhile p xs @ b"
    using False by (auto simp: dropWhile_eq_Nil_conv intro: dropWhile_append1)
  finally show ?thesis using assms(2) by (simp add: strip_def rstrip_append_all)
qed

lemma str_space_simps [simp]:
  "str_space (CHR '' '')" "str_space NL" "\<not> str_space (CHR ''='')" "\<not> str_space (CHR ''_'')" "\<not> str_space (CHR ''-'')"
  by (simp_all add: str_space_def)

lemma str_space_digit [simp]: "d < 16 \<Longrightarrow> \<not> str_space (digit_char d)"
  by (auto simp: str_space_def Let_def digit_char_code)

lemma stripped_digits: "0 \<le> n \<Longrightarrow> stripped (fmt_d w n)"
proof -
  assume n: "0 \<le> n"
  have "\<not> str_space c" if "c \<in> set (fmt_d w n)" for c
    using fmt_d_chars [OF n that] by auto
  then show ?thesis by (cases "fmt_d w n = []") (simp_all add: stripped_def)
qed

lemma fmt_d_clean:
  assumes "0 \<le> n" and "(of_char c :: nat) \<notin> {48..57} \<union> {97..102}"
  shows "c \<notin> set (fmt_d w n)"
proof
  assume "c \<in> set (fmt_d w n)"
  then obtain d where "d < 10" "c = digit_char d" using fmt_d_chars [OF assms(1)] by blast
  then show False using digit_char_neq [OF _ assms(2), of d] by simp
qed

subsection \<open>UTF-8\<close>

definition utf8_char :: "char \<Rightarrow> bytes" where
  "utf8_char c =
     (let n = (of_char c :: nat) in if n < 128 then [c] else [char_of (192 + n div 64), char_of (128 + n mod 64)])"

definition utf8 :: "pystr \<Rightarrow> bytes" where
  "utf8 s = concat (map utf8_char s)"

text \<open>
  Decoding: None for bytes that are not UTF-8 and for code points that the model does not have.
\<close>

fun utf8_decode :: "bytes \<Rightarrow> pystr option" where
  "utf8_decode [] = Some []"
| "utf8_decode (b # bs) =
     (let n = (of_char b :: nat) in
      if n < 128 then map_option ((#) b) (utf8_decode bs)
      else if n = 194 \<or> n = 195 then
        (case bs of
           [] \<Rightarrow> None
         | b' # bs' \<Rightarrow>
             (let k = (of_char b' :: nat) in
              if 128 \<le> k \<and> k < 192 then map_option ((#) (char_of ((n - 192) * 64 + (k - 128)))) (utf8_decode bs')
              else None))
      else None)"

lemma utf8_Nil [simp]: "utf8 [] = []"
  by (simp add: utf8_def)

lemma utf8_append [simp]: "utf8 (s @ t) = utf8 s @ utf8 t"
  by (simp add: utf8_def)

lemma utf8_Cons [simp]: "utf8 (c # s) = utf8_char c @ utf8 s"
  by (simp add: utf8_def)

lemma of_char_lt: "(of_char c :: nat) < 256"
  by (metis nat_of_char_less_256)

lemma utf8_decode_utf8 [simp]: "utf8_decode (utf8 s) = Some s"
proof (induction s)
  case (Cons c s)
  show ?case
  proof (cases "(of_char c :: nat) < 128")
    case True
    then show ?thesis using Cons by (simp add: utf8_char_def)
  next
    case False
    let ?n = "of_char c :: nat"
    have n: "128 \<le> ?n" "?n < 256" using False of_char_lt by auto
    have "2 \<le> ?n div 64" "?n div 64 < 4" using n by linarith+
    then have d: "?n div 64 = 2 \<or> ?n div 64 = 3" by linarith
    have "?n = 64 * (?n div 64) + ?n mod 64" by simp
    then have "?n = 128 + ?n mod 64 \<and> ?n div 64 = 2 \<or> ?n = 192 + ?n mod 64 \<and> ?n div 64 = 3"
      using d by linarith
    then have "char_of (128 + ?n mod 64) = c \<and> ?n div 64 = 2 \<or> char_of (192 + ?n mod 64) = c \<and> ?n div 64 = 3"
      using char_of_char [of c, where ?'a = nat] by (metis (no_types))
    then show ?thesis using False Cons by (auto simp: utf8_char_def Let_def of_char_of)
  qed
qed simp

lemma utf8_ascii: "ascii s \<Longrightarrow> utf8 s = s"
  by (induction s) (auto simp: utf8_char_def)

lemma utf8_length: "length s \<le> length (utf8 s)" and utf8_length_le: "length (utf8 s) \<le> 2 * length s"
  by (induction s) (simp_all add: utf8_char_def Let_def)

lemma utf8_char_ascii: "(of_char b :: nat) < 128 \<Longrightarrow> b \<in> set (utf8_char c) \<longleftrightarrow> b = c"
proof (cases "(of_char c :: nat) < 128")
  case False
  assume b: "(of_char b :: nat) < 128"
  have "(of_char c :: nat) div 64 < 4" using of_char_lt [of c] by linarith
  then have "128 \<le> (of_char b' :: nat)" if "b' \<in> set (utf8_char c)" for b'
    using that False by (auto simp: utf8_char_def Let_def of_char_of)
  then have "b \<notin> set (utf8_char c)" using b leD by blast
  then show ?thesis using b False by auto
qed (auto simp: utf8_char_def)

lemma utf8_set_ascii: "(of_char b :: nat) < 128 \<Longrightarrow> b \<in> set (utf8 s) \<longleftrightarrow> b \<in> set s"
  by (induction s) (auto simp: utf8_char_ascii)

lemma utf8_lines: "concat (map (\<lambda>l. utf8 l @ [NL]) ls) = utf8 (put_lines ls)"
  by (induction ls) (simp_all add: utf8_char_def)

lemma utf8_put_lines: "utf8 (put_lines ls) = put_lines (map utf8 ls)"
  by (induction ls) (simp_all add: utf8_char_def)

subsection \<open>Slices\<close>

lemma slice_other:
  assumes "off + length d \<le> length xs" and "b \<le> off \<or> off + length d \<le> a"
  shows "slice a b (overwrite xs off d) = slice a b xs"
proof (cases "b \<le> off")
  case True
  have "slice a b ys = drop a (take b ys)" for ys :: "'a list" by (simp add: slice_def drop_take)
  then show ?thesis using True assms(1) take_overwrite [of b off xs d] by simp
next
  case False
  then show ?thesis using assms drop_overwrite [of off d a xs] by (simp add: slice_def)
qed

lemma slice_slice: "c + b \<le> d \<Longrightarrow> slice a b (slice c d xs) = slice (c + a) (c + b) xs"
  by (simp add: slice_def drop_take min_def add.commute)

lemma length_slice: "b \<le> length xs \<Longrightarrow> length (slice a b xs) = b - a"
  by (simp add: slice_def)

end
