(* ===== verification/Task_Meta.thy ===== *)
theory Task_Meta
  imports Vdsm_Text
begin

text \<open>
  \<^verbatim>\<open>lib/vdsm/storage/task.py\<close>: the states of a task, its data, and the text that tasks, jobs,
  recoveries and results are saved as.
\<close>

subsection \<open>States\<close>

datatype tstate =
    Unknown | Init | Preparing | Blocked | Acquiring | Queued | Running | Finished
  | Aborting | Waitrecover | Recovering | Racquiring | Raborting | Recovered | Failed

datatype body_error = StorageError int pystr | OtherError pystr | BaseError

datatype task_error =
    TaskAborted pystr int
  | TaskStateError tstate
  | TaskStateTransitionError tstate tstate
  | TaskPersistError
  | TaskDirError
  | TaskMetaDataLoadError
  | TaskMetaDataSaveError
  | TaskNotFinished
  | TaskHasRefs
  | UnmanagedTask
  | AddTaskError
  | UnknownTask
  | InvalidParameterException
  | TaskValueError
  | TaskTypeError
  | TaskOSError
  | BodyError body_error
  | OutOfFuel

definition all_states :: "tstate list" where
  "all_states = [Unknown, Init, Preparing, Blocked, Acquiring, Queued, Running, Finished, Aborting, Waitrecover,
     Recovering, Racquiring, Raborting, Recovered, Failed]"

fun state_name :: "tstate \<Rightarrow> pystr" where
  "state_name Unknown = ''unknown''"
| "state_name Init = ''init''"
| "state_name Preparing = ''preparing''"
| "state_name Blocked = ''blocked''"
| "state_name Acquiring = ''acquiring''"
| "state_name Queued = ''queued''"
| "state_name Running = ''running''"
| "state_name Finished = ''finished''"
| "state_name Aborting = ''aborting''"
| "state_name Waitrecover = ''waitrecover''"
| "state_name Recovering = ''recovering''"
| "state_name Racquiring = ''racquiring''"
| "state_name Raborting = ''raborting''"
| "state_name Recovered = ''recovered''"
| "state_name Failed = ''failed''"

text \<open>The constructor \<open>State(name)\<close>: a name that is not a state gives the unknown state.\<close>

definition State :: "pystr \<Rightarrow> tstate" where
  "State s = (case find (\<lambda>st. state_name st = s) all_states of None \<Rightarrow> Unknown | Some st \<Rightarrow> st)"

fun DEPRECATED_STATE :: "tstate \<Rightarrow> pystr" where
  "DEPRECATED_STATE Unknown = ''unknown''"
| "DEPRECATED_STATE Init = ''init''"
| "DEPRECATED_STATE Finished = ''finished''"
| "DEPRECATED_STATE Aborting = ''aborting''"
| "DEPRECATED_STATE Waitrecover = ''cleaning''"
| "DEPRECATED_STATE Recovering = ''cleaning''"
| "DEPRECATED_STATE Racquiring = ''cleaning''"
| "DEPRECATED_STATE Raborting = ''aborting''"
| "DEPRECATED_STATE Recovered = ''finished''"
| "DEPRECATED_STATE Failed = ''finished''"
| "DEPRECATED_STATE _ = ''running''"

fun DEPRECATED_RESULT :: "tstate \<Rightarrow> pystr" where
  "DEPRECATED_RESULT Finished = ''success''"
| "DEPRECATED_RESULT Recovered = ''cleanSuccess''"
| "DEPRECATED_RESULT Failed = ''cleanFailure''"
| "DEPRECATED_RESULT _ = ''''"

text \<open>The states from which a state may be entered.\<close>

fun from_states :: "tstate \<Rightarrow> tstate list" where
  "from_states Unknown = []"
| "from_states Init = []"
| "from_states Preparing = [Init, Blocked]"
| "from_states Blocked = [Preparing]"
| "from_states Acquiring = [Preparing, Acquiring]"
| "from_states Queued = [Acquiring, Running]"
| "from_states Running = [Queued]"
| "from_states Finished = [Running, Preparing]"
| "from_states Aborting = [Preparing, Blocked, Acquiring, Queued, Running]"
| "from_states Waitrecover = [Aborting]"
| "from_states Racquiring = [Aborting, Finished, Racquiring, Waitrecover]"
| "from_states Recovering = [Racquiring]"
| "from_states Raborting = [Racquiring, Recovering, Waitrecover]"
| "from_states Recovered = [Recovering]"
| "from_states Failed = [Recovering, Aborting, Raborting]"

definition state_isDone :: "tstate \<Rightarrow> bool" where
  "state_isDone s \<longleftrightarrow> s \<in> set [Finished, Recovered, Failed]"

definition isRecovering :: "tstate \<Rightarrow> bool" where
  "isRecovering s \<longleftrightarrow> s \<in> set [Racquiring, Recovering]"

definition canAbort :: "tstate \<Rightarrow> bool" where
  "canAbort s \<longleftrightarrow> s \<in> set (from_states Aborting)"

definition canAbortRecovery :: "tstate \<Rightarrow> bool" where
  "canAbortRecovery s \<longleftrightarrow> s \<in> set (from_states Raborting)"

definition moveto :: "tstate \<Rightarrow> tstate \<Rightarrow> bool \<Rightarrow> task_error + tstate" where
  "moveto cur st force =
     (if \<not> force \<and> cur \<notin> set (from_states st) then Inl (TaskStateTransitionError cur st) else Inr st)"

lemmas state_simps = state_isDone_def isRecovering_def canAbort_def canAbortRecovery_def moveto_def

lemma State_name [simp]: "State (state_name st) = st"
  by (cases st) (simp_all add: State_def all_states_def)

subsection \<open>Data\<close>

datatype policy = P_none | P_manual | P_auto

datatype priority = Low | Medium | High

fun policy_name :: "policy \<Rightarrow> pystr" where
  "policy_name P_none = ''none''"
| "policy_name P_manual = ''manual''"
| "policy_name P_auto = ''auto''"

definition policy_of :: "pystr \<Rightarrow> task_error + policy" where
  "policy_of s =
     (case find (\<lambda>p. policy_name p = s) [P_none, P_manual, P_auto] of None \<Rightarrow> Inl TaskValueError | Some p \<Rightarrow> Inr p)"

fun priority_name :: "priority \<Rightarrow> pystr" where
  "priority_name Low = ''low''"
| "priority_name Medium = ''medium''"
| "priority_name High = ''high''"

definition priority_of :: "pystr \<Rightarrow> task_error + priority" where
  "priority_of s =
     (case find (\<lambda>p. priority_name p = s) [Low, Medium, High] of None \<Rightarrow> Inl TaskValueError | Some p \<Rightarrow> Inr p)"

lemma policy_of_name [simp]: "policy_of (policy_name p) = Inr p"
  by (cases p) (simp_all add: policy_of_def)

lemma priority_of_name [simp]: "priority_of (priority_name p) = Inr p"
  by (cases p) (simp_all add: priority_of_def)

abbreviation FIELD_SEP :: char where "FIELD_SEP \<equiv> CHR '',''"

definition ParamList_list :: "pystr list \<Rightarrow> task_error + pystr list" where
  "ParamList_list params = (if \<exists>p \<in> set params. FIELD_SEP \<in> set p then Inl TaskValueError else Inr params)"

definition ParamList_str :: "pystr \<Rightarrow> pystr list" where
  "ParamList_str s = map str_strip (split_on FIELD_SEP s)"

definition ParamList_to_str :: "pystr list \<Rightarrow> pystr" where
  "ParamList_to_str params =
     (let s = concat (map (\<lambda>p. p @ [FIELD_SEP]) params) in if s = [] then s else butlast s)"

record job =
  j_name :: pystr
  j_runcmd :: pystr

record recovery =
  r_name :: pystr
  r_moduleName :: pystr
  r_object :: pystr
  r_function :: pystr
  r_params :: "pystr list"

record task_result =
  tr_code :: int
  tr_message :: pystr
  tr_result :: pystr

record task =
  t_id :: pystr
  t_name :: pystr
  t_tag :: pystr
  t_store :: "pystr option"
  t_recoveryPolicy :: policy
  t_persistPolicy :: policy
  t_cleanPolicy :: policy
  t_priority :: priority
  t_state :: tstate
  t_njobs :: int
  t_nrecoveries :: int
  t_metadataVersion :: int
  t_result :: task_result
  t_error :: task_error
  t_managed :: bool
  t_aborting :: bool
  t_forceAbort :: bool
  t_ref :: int
  t_recoveries :: "recovery list"
  t_jobs :: "job list"

text \<open>\<open>str.isalnum\<close> on the code points of the model, and \<open>Recovery.validateName\<close>.\<close>

definition alnum :: "char \<Rightarrow> bool" where
  "alnum c \<longleftrightarrow>
     (let n = (of_char c :: nat) in 48 \<le> n \<and> n \<le> 57 \<or> 65 \<le> n \<and> n \<le> 90 \<or> 97 \<le> n \<and> n \<le> 122 \<or>
        n \<in> {170, 178, 179, 181, 185, 186, 188, 189, 190} \<or> 192 \<le> n \<and> n \<noteq> 215 \<and> n \<noteq> 247)"

definition validateName :: "pystr \<Rightarrow> task_error + unit" where
  "validateName name =
     (let vname = filter (\<lambda>c. c \<noteq> CHR ''_'') name
      in if vname \<noteq> [] \<and> list_all alnum vname then Inr () else Inl TaskTypeError)"

definition Recovery :: "pystr \<Rightarrow> pystr \<Rightarrow> pystr \<Rightarrow> pystr \<Rightarrow> pystr list \<Rightarrow> task_error + recovery" where
  "Recovery name modname objname fnname argslist =
     rbind (validateName modname) (\<lambda>_. rbind (validateName objname) (\<lambda>_. rbind (validateName fnname) (\<lambda>_.
       rbind (ParamList_list argslist) (\<lambda>params.
         Inr \<lparr>r_name = name, r_moduleName = modname, r_object = objname, r_function = fnname, r_params = params\<rparr>))))"

definition validateID :: "pystr \<Rightarrow> task_error + unit" where
  "validateID taskID = (if taskID = [] \<or> CHR ''.'' \<in> set taskID then Inl InvalidParameterException else Inr ())"

text \<open>A task without an identifier gets the new identifier \<open>uuid\<close>.\<close>

definition Task :: "pystr \<Rightarrow> pystr \<Rightarrow> pystr \<Rightarrow> pystr \<Rightarrow> policy \<Rightarrow> priority \<Rightarrow> task_error + task" where
  "Task uuid given name tag recovery priority =
     (let tid = (if given = [] then uuid else given) in
     rbind (validateID tid) (\<lambda>_.
       Inr \<lparr>t_id = tid, t_name = name, t_tag = tag, t_store = None, t_recoveryPolicy = recovery,
         t_persistPolicy = P_none, t_cleanPolicy = P_auto, t_priority = priority, t_state = Init,
         t_njobs = 0, t_nrecoveries = 0, t_metadataVersion = 1,
         t_result = \<lparr>tr_code = 0, tr_message = ''Task is initializing'', tr_result = ''''\<rparr>,
         t_error = TaskAborted ''Unknown error encountered'' 411, t_managed = False, t_aborting = False,
         t_forceAbort = False, t_ref = 0, t_recoveries = [], t_jobs = []\<rparr>))"

subsection \<open>Fields as text\<close>

definition KEY_SEPARATOR :: char where "KEY_SEPARATOR = CHR ''=''"
definition KEY_SEPARATOR_ENCODED :: pystr where "KEY_SEPARATOR_ENCODED = ''_eq_''"

definition eq_encode :: "pystr \<Rightarrow> task_error + pystr" where
  "eq_encode s =
     (if find_sub KEY_SEPARATOR_ENCODED s \<noteq> None then Inl TaskValueError
      else Inr (replace_sub [KEY_SEPARATOR] KEY_SEPARATOR_ENCODED s))"

definition eq_decode :: "pystr \<Rightarrow> pystr" where
  "eq_decode s = replace_sub KEY_SEPARATOR_ENCODED [KEY_SEPARATOR] s"

text \<open>
  The dict \<open>fields\<close> of a class: the name of an attribute, its text, and setting it from a text.
\<close>

type_synonym 'o field = "pystr \<times> ('o \<Rightarrow> pystr) \<times> (pystr \<Rightarrow> 'o \<Rightarrow> task_error + 'o)"

definition dump_field :: "'o \<Rightarrow> 'o field \<Rightarrow> pystr list" where
  "dump_field obj = (\<lambda>(name, get, put).
     case eq_encode name of
       Inl _ \<Rightarrow> []
     | Inr n \<Rightarrow> (case eq_encode (get obj) of Inl _ \<Rightarrow> [] | Inr v \<Rightarrow> [n @ '' = '' @ v]))"

definition dump :: "'o field list \<Rightarrow> 'o \<Rightarrow> pystr list" where
  "dump fds obj = concat (map (dump_field obj) fds)"

definition load_line :: "'o field list \<Rightarrow> pystr \<Rightarrow> 'o \<Rightarrow> task_error + 'o" where
  "load_line fds line obj =
     (if KEY_SEPARATOR \<notin> set line then Inr obj
      else case split_on KEY_SEPARATOR line of
             [a, b] \<Rightarrow>
               (case find (\<lambda>(name, _). name = eq_decode (str_strip a)) fds of
                  None \<Rightarrow> Inr obj
                | Some (_, _, put) \<Rightarrow> put (eq_decode (str_strip b)) obj)
           | _ \<Rightarrow> Inr obj)"

fun load_lines :: "'o field list \<Rightarrow> pystr list \<Rightarrow> 'o \<Rightarrow> task_error + 'o" where
  "load_lines fds [] obj = Inr obj"
| "load_lines fds (l # ls) obj = rbind (load_line fds l obj) (load_lines fds ls)"

definition set_int :: "(int \<Rightarrow> 'o \<Rightarrow> 'o) \<Rightarrow> pystr \<Rightarrow> 'o \<Rightarrow> task_error + 'o" where
  "set_int upd s obj = (case py_int 10 s of None \<Rightarrow> Inl TaskValueError | Some n \<Rightarrow> Inr (upd n obj))"

definition set_policy :: "(policy \<Rightarrow> 'o \<Rightarrow> 'o) \<Rightarrow> pystr \<Rightarrow> 'o \<Rightarrow> task_error + 'o" where
  "set_policy upd s obj = rbind (policy_of s) (\<lambda>p. Inr (upd p obj))"

definition job_fields :: "job field list" where
  "job_fields = [(''name'', j_name, \<lambda>v x. Inr (x\<lparr>j_name := v\<rparr>)), (''runcmd'', j_runcmd, \<lambda>v x. Inr (x\<lparr>j_runcmd := v\<rparr>))]"

definition recovery_fields :: "recovery field list" where
  "recovery_fields =
     [(''name'', r_name, \<lambda>v x. Inr (x\<lparr>r_name := v\<rparr>)),
      (''moduleName'', r_moduleName, \<lambda>v x. Inr (x\<lparr>r_moduleName := v\<rparr>)),
      (''object'', r_object, \<lambda>v x. Inr (x\<lparr>r_object := v\<rparr>)),
      (''function'', r_function, \<lambda>v x. Inr (x\<lparr>r_function := v\<rparr>)),
      (''params'', \<lambda>r. ParamList_to_str (r_params r), \<lambda>v x. Inr (x\<lparr>r_params := ParamList_str v\<rparr>))]"

definition result_fields :: "task_result field list" where
  "result_fields =
     [(''code'', \<lambda>r. fmt_d 0 (tr_code r), set_int (\<lambda>n x. x\<lparr>tr_code := n\<rparr>)),
      (''message'', tr_message, \<lambda>v x. Inr (x\<lparr>tr_message := v\<rparr>)),
      (''result'', tr_result, \<lambda>v x. Inr (x\<lparr>tr_result := v\<rparr>))]"

definition task_fields :: "task field list" where
  "task_fields =
     [(''id'', t_id, \<lambda>v x. Inr (x\<lparr>t_id := v\<rparr>)),
      (''name'', t_name, \<lambda>v x. Inr (x\<lparr>t_name := v\<rparr>)),
      (''tag'', t_tag, \<lambda>v x. Inr (x\<lparr>t_tag := v\<rparr>)),
      (''store'', \<lambda>t. case t_store t of None \<Rightarrow> ''None'' | Some s \<Rightarrow> s, \<lambda>v x. Inr (x\<lparr>t_store := Some v\<rparr>)),
      (''recoveryPolicy'', \<lambda>t. policy_name (t_recoveryPolicy t), set_policy (\<lambda>p x. x\<lparr>t_recoveryPolicy := p\<rparr>)),
      (''persistPolicy'', \<lambda>t. policy_name (t_persistPolicy t), set_policy (\<lambda>p x. x\<lparr>t_persistPolicy := p\<rparr>)),
      (''cleanPolicy'', \<lambda>t. policy_name (t_cleanPolicy t), set_policy (\<lambda>p x. x\<lparr>t_cleanPolicy := p\<rparr>)),
      (''priority'', \<lambda>t. priority_name (t_priority t), \<lambda>v x. rbind (priority_of v) (\<lambda>p. Inr (x\<lparr>t_priority := p\<rparr>))),
      (''state'', \<lambda>t. state_name (t_state t), \<lambda>v x. Inr (x\<lparr>t_state := State v\<rparr>)),
      (''njobs'', \<lambda>t. fmt_d 0 (t_njobs t), set_int (\<lambda>n x. x\<lparr>t_njobs := n\<rparr>)),
      (''nrecoveries'', \<lambda>t. fmt_d 0 (t_nrecoveries t), set_int (\<lambda>n x. x\<lparr>t_nrecoveries := n\<rparr>)),
      (''metadataVersion'', \<lambda>t. fmt_d 0 (t_metadataVersion t), set_int (\<lambda>n x. x\<lparr>t_metadataVersion := n\<rparr>))]"

subsection \<open>Loading what was dumped\<close>

lemma eq_encode_map:
  "replace_sub [CHR ''=''] ''_eq_'' s = concat (map (\<lambda>c. if c = CHR ''='' then ''_eq_'' else [c]) s)"
proof (induction s)
  case (Cons c s)
  then show ?case
    using replace_sub_match [of "''=''" "''_eq_''" s] by (cases "c = CHR ''=''") (simp_all add: replace_sub_other)
qed simp

text \<open>
  A text that is encoded and decoded without change: no \<open>_eq_\<close>, which is refused, and no \<open>_eq=\<close>,
  whose encoding \<open>_eq_eq_\<close> decodes to \<open>=eq_\<close>.
\<close>

definition eq_safe :: "pystr \<Rightarrow> bool" where
  "eq_safe s \<longleftrightarrow> find_sub ''_eq_'' s = None \<and> find_sub ''_eq='' s = None"

lemma eq_safe_Cons:
  "eq_safe (c # s) \<longleftrightarrow> take 4 (c # s) \<noteq> ''_eq_'' \<and> take 4 (c # s) \<noteq> ''_eq='' \<and> eq_safe s"
  by (auto simp: eq_safe_def eval_nat_numeral)

lemma eq_decode_encoded:
  "eq_safe s \<Longrightarrow> replace_sub ''_eq_'' ''='' (concat (map (\<lambda>c. if c = CHR ''='' then ''_eq_'' else [c]) s)) = s"
proof (induction s)
  case (Cons c s)
  let ?enc = "\<lambda>s. concat (map (\<lambda>c. if c = CHR ''='' then ''_eq_'' else [c]) s)"
  show ?case
  proof (cases "c = CHR ''=''")
    case True
    then show ?thesis
      using Cons replace_sub_match [of "''_eq_''" "''=''" "?enc s"] by (simp add: eq_safe_Cons)
  next
    case False
    have "take 4 (c # ?enc s) \<noteq> ''_eq_''"
    proof
      assume eq: "take 4 (c # ?enc s) = ''_eq_''"
      then obtain s1 where s1: "c = CHR ''_''" "s = CHR ''e'' # s1" by (cases s) (auto split: if_splits)
      then obtain s2 where s2: "s1 = CHR ''q'' # s2" using eq by (cases s1) (auto split: if_splits)
      then obtain d s3 where "s2 = d # s3" "d = CHR ''_'' \<or> d = CHR ''=''" using eq s1 by (cases s2) (auto split: if_splits)
      then show False using Cons.prems s1 s2 by (auto simp: eq_safe_Cons)
    qed
    then have "replace_sub ''_eq_'' ''='' (c # ?enc s) = c # replace_sub ''_eq_'' ''='' (?enc s)"
      by (intro replace_sub_other) (simp add: eval_nat_numeral)
    then show ?thesis using False Cons by (simp add: eq_safe_Cons)
  qed
qed simp

lemma eq_roundtrip:
  assumes "eq_safe s"
  shows "\<exists>e. eq_encode s = Inr e \<and> eq_decode e = s \<and> CHR ''='' \<notin> set e \<and> (stripped s \<longrightarrow> stripped e) \<and> (NL \<notin> set s \<longrightarrow> NL \<notin> set e)"
proof -
  let ?e = "concat (map (\<lambda>c. if c = CHR ''='' then ''_eq_'' else [c]) s)"
  have "eq_encode s = Inr ?e"
    using assms by (simp add: eq_encode_def KEY_SEPARATOR_def KEY_SEPARATOR_ENCODED_def eq_encode_map eq_safe_def)
  moreover have "eq_decode ?e = s"
    using eq_decode_encoded [OF assms] by (simp add: eq_decode_def KEY_SEPARATOR_def KEY_SEPARATOR_ENCODED_def)
  moreover have "stripped ?e" if "stripped s"
  proof (cases "s = []")
    case False
    have "hd ?e = (if hd s = CHR ''='' then CHR ''_'' else hd s)" using False by (cases s) auto
    moreover have "last ?e = (if last s = CHR ''='' then CHR ''_'' else last s)"
      using False by (cases s rule: rev_cases) auto
    moreover have "?e \<noteq> []" using False by (cases s) auto
    ultimately show ?thesis using that False by (auto simp: stripped_def)
  qed (simp add: stripped_def)
  ultimately show ?thesis by auto
qed

definition clean_text :: "pystr \<Rightarrow> bool" where
  "clean_text s \<longleftrightarrow> eq_safe s \<and> stripped s \<and> NL \<notin> set s"

fun copy_fields :: "'o field list \<Rightarrow> 'o \<Rightarrow> 'o \<Rightarrow> task_error + 'o" where
  "copy_fields [] obj acc = Inr acc"
| "copy_fields ((name, get, put) # fs) obj acc = rbind (put (get obj) acc) (copy_fields fs obj)"

lemma load_dumped_field:
  assumes "clean_text name" and "clean_text (get obj)"
    and "find (\<lambda>(n, _). n = name) fds = Some (name, get, put)"
  shows "\<exists>l. dump_field obj (name, get, put) = [l] \<and> NL \<notin> set l \<and> load_line fds l acc = put (get obj) acc"
proof -
  obtain n where n: "eq_encode name = Inr n" "eq_decode n = name" "CHR ''='' \<notin> set n" "stripped n" "NL \<notin> set n"
    using eq_roundtrip [of name] assms(1) by (auto simp: clean_text_def)
  obtain v where v: "eq_encode (get obj) = Inr v" "eq_decode v = get obj" "CHR ''='' \<notin> set v" "stripped v" "NL \<notin> set v"
    using eq_roundtrip [of "get obj"] assms(2) by (auto simp: clean_text_def)
  have "split_on (CHR ''='') ((n @ '' '') @ CHR ''='' # '' '' @ v) = [n @ '' '', '' '' @ v]"
    using n(3) v(3) by (subst split_on_append) (auto simp: split_on_none)
  moreover have "str_strip (n @ '' '') = n" "str_strip ('' '' @ v) = v"
    using strip_spaces [of "[]" str_space "'' ''" n] strip_spaces [of "'' ''" str_space "[]" v] n(4) v(4) by simp_all
  ultimately show ?thesis
    using n v assms(3) by (simp add: dump_field_def load_line_def KEY_SEPARATOR_def)
qed

lemma load_dumped_aux:
  assumes "\<forall>(name, get, put) \<in> set fs. clean_text name \<and> clean_text (get obj) \<and>
      find (\<lambda>(n, _). n = name) fds = Some (name, get, put)"
  shows "(\<forall>l \<in> set (dump fs obj). NL \<notin> set l) \<and> load_lines fds (dump fs obj) acc = copy_fields fs obj acc"
  using assms
proof (induction fs arbitrary: acc)
  case (Cons f fs)
  obtain name get put where f: "f = (name, get, put)" by (cases f)
  obtain l where l: "dump_field obj f = [l]" "NL \<notin> set l" using load_dumped_field [of name get obj fds put acc] Cons.prems f by auto
  have ll: "load_line fds l acc = put (get obj) acc" for acc
    using load_dumped_field [of name get obj fds put acc] Cons.prems f l(1) by auto
  have IH: "(\<forall>l \<in> set (dump fs obj). NL \<notin> set l)" "\<And>acc. load_lines fds (dump fs obj) acc = copy_fields fs obj acc"
    using Cons by auto
  then have "load_lines fds (dump fs obj) = copy_fields fs obj" by auto
  then show ?case using l IH f by (simp add: dump_def ll)
qed (simp add: dump_def)

definition fields_ok :: "'o field list \<Rightarrow> bool" where
  "fields_ok fds \<longleftrightarrow> distinct (map fst fds) \<and> (\<forall>n \<in> set (map fst fds). clean_text n)"

lemma find_field:
  "distinct (map fst fds) \<Longrightarrow> (name, gs) \<in> set fds \<Longrightarrow> find (\<lambda>(n, _). n = name) fds = Some (name, gs)"
  by (induction fds) force+

lemma load_dumped:
  assumes "fields_ok fds" and "\<forall>(_, get, _) \<in> set fds. clean_text (get obj)"
  shows "load_lines fds (lines_of (put_lines (dump fds obj))) acc = copy_fields fds obj acc"
proof -
  have "\<forall>(name, get, put) \<in> set fds. clean_text name \<and> clean_text (get obj) \<and>
      find (\<lambda>(n, _). n = name) fds = Some (name, get, put)"
    using assms find_field [of fds] by (fastforce simp: fields_ok_def)
  from load_dumped_aux [OF this] show ?thesis by (simp add: lines_of_put_lines)
qed

end
