(* ===== verification/Task_Store.thy ===== *)
theory Task_Store
  imports Task_Meta
begin

text \<open>
  \<^verbatim>\<open>lib/vdsm/storage/task.py\<close>: saving a task in its directory and loading it after a restart. A
  store is a map from the names of directories to their files. An operation on the store may
  fail, and a crash may stop the process between two operations or in the middle of one.
\<close>

subsection \<open>The store\<close>

type_synonym dir = "pystr \<rightharpoonup> pystr"

datatype fs_op =
    Mkdir pystr
  | WriteLines pystr pystr "pystr list"
  | Cleanupdir pystr
  | Rename pystr pystr
  | Fsync pystr

text \<open>
  \<open>st_fault\<close> says which operations fail, by their number; the text is what a write that fails
  leaves in the file, the names are what a removal that fails leaves in the directory.
\<close>

record storage =
  st_dirs :: "pystr \<rightharpoonup> dir"
  st_fault :: "nat \<Rightarrow> (pystr \<times> pystr list) option"
  st_count :: nat

definition apply_op :: "fs_op \<Rightarrow> (pystr \<rightharpoonup> dir) \<Rightarrow> (pystr \<rightharpoonup> dir) option" where
  "apply_op op s =
     (case op of
        Mkdir d \<Rightarrow> if s d = None then Some (s(d \<mapsto> Map.empty)) else None
      | WriteLines d f ls \<Rightarrow> (case s d of None \<Rightarrow> None | Some files \<Rightarrow> Some (s(d \<mapsto> files(f \<mapsto> put_lines ls))))
      | Cleanupdir d \<Rightarrow> Some (s(d := None))
      | Rename d d' \<Rightarrow>
          (case s d of
             None \<Rightarrow> None
           | Some files \<Rightarrow> if s d' = None \<or> s d' = Some Map.empty then Some (s(d := None, d' \<mapsto> files)) else None)
      | Fsync d \<Rightarrow> if s d = None then None else Some s)"

definition fail_op :: "fs_op \<Rightarrow> pystr \<Rightarrow> pystr list \<Rightarrow> (pystr \<rightharpoonup> dir) \<Rightarrow> (pystr \<rightharpoonup> dir)" where
  "fail_op op text names s =
     (case op of
        WriteLines d f ls \<Rightarrow> (case s d of None \<Rightarrow> s | Some files \<Rightarrow> s(d \<mapsto> files(f \<mapsto> text)))
      | Cleanupdir d \<Rightarrow> (case s d of None \<Rightarrow> s | Some files \<Rightarrow> s(d \<mapsto> files |` set names))
      | _ \<Rightarrow> s)"

text \<open>Removing a directory tree does not raise, even when it fails.\<close>

definition perform :: "fs_op \<Rightarrow> (storage, task_error, unit) op" where
  "perform op st =
     (let st' = st\<lparr>st_count := Suc (st_count st)\<rparr> in
      case st_fault st (st_count st) of
        Some (text, names) \<Rightarrow>
          (case op of Cleanupdir _ \<Rightarrow> Inr () | _ \<Rightarrow> Inl TaskOSError, st'\<lparr>st_dirs := fail_op op text names (st_dirs st)\<rparr>)
      | None \<Rightarrow>
          (case apply_op op (st_dirs st) of
             None \<Rightarrow> (Inl TaskOSError, st')
           | Some s \<Rightarrow> (Inr (), st'\<lparr>st_dirs := s\<rparr>)))"

fun perform_all :: "fs_op list \<Rightarrow> (storage, task_error, unit) op" where
  "perform_all [] st = (Inr (), st)"
| "perform_all (op # ops) st =
     (case perform op st of (Inl e, st') \<Rightarrow> (Inl e, st') | (Inr _, st') \<Rightarrow> perform_all ops st')"

subsection \<open>Saving\<close>

definition TASK_EXT :: pystr where "TASK_EXT = ''.task''"
definition JOB_EXT :: pystr where "JOB_EXT = ''.job''"
definition RECOVER_EXT :: pystr where "RECOVER_EXT = ''.recover''"
definition RESULT_EXT :: pystr where "RESULT_EXT = ''.result''"
definition BACKUP_EXT :: pystr where "BACKUP_EXT = ''.backup''"
definition TEMP_EXT :: pystr where "TEMP_EXT = ''.temp''"

lemmas ext_defs = TASK_EXT_def JOB_EXT_def RECOVER_EXT_def RESULT_EXT_def BACKUP_EXT_def TEMP_EXT_def

definition num_file :: "pystr \<Rightarrow> pystr \<Rightarrow> nat \<Rightarrow> pystr" where
  "num_file tid ext n = tid @ ext @ ''.'' @ fmt_d 0 (int n)"

text \<open>The files of a task, in the order they are written.\<close>

definition meta_files :: "task \<Rightarrow> (pystr \<times> pystr list) list" where
  "meta_files t =
     (t_id t @ TASK_EXT, dump task_fields t) #
     (if t_state t = Finished then [(t_id t @ RESULT_EXT, dump result_fields (t_result t))] else []) @
     map (\<lambda>(n, j). (num_file (t_id t) JOB_EXT n, dump job_fields j)) (enumerate 0 (t_jobs t)) @
     map (\<lambda>(n, r). (num_file (t_id t) RECOVER_EXT n, dump recovery_fields r)) (enumerate 0 (t_recoveries t))"

definition count_jobs :: "task \<Rightarrow> task" where
  "count_jobs t = t\<lparr>t_njobs := int (length (t_jobs t)), t_nrecoveries := int (length (t_recoveries t))\<rparr>"

definition write_ops :: "task \<Rightarrow> fs_op list" where
  "write_ops t = map (\<lambda>(f, ls). WriteLines (t_id t @ TEMP_EXT) f ls) (meta_files t)"

definition switch_ops :: "task \<Rightarrow> fs_op list" where
  "switch_ops t =
     [Cleanupdir (t_id t @ BACKUP_EXT), Rename (t_id t) (t_id t @ BACKUP_EXT), Rename (t_id t @ TEMP_EXT) (t_id t),
      Cleanupdir (t_id t @ BACKUP_EXT), Fsync (t_id t)]"

definition start_ops :: "task \<Rightarrow> (pystr \<rightharpoonup> dir) \<Rightarrow> fs_op list" where
  "start_ops t s =
     (if s (t_id t @ TEMP_EXT) \<noteq> None then [Cleanupdir (t_id t @ TEMP_EXT)] else []) @ [Mkdir (t_id t @ TEMP_EXT)]"

definition save :: "(task \<times> storage, task_error, unit) op" where
  "save = (\<lambda>(t, st).
     if st_dirs st (t_id t) = None then (Inl TaskDirError, t, st)
     else case perform_all (start_ops t (st_dirs st)) st of
            (Inl e, st1) \<Rightarrow> (Inl e, t, st1)
          | (Inr _, st1) \<Rightarrow>
              let t1 = count_jobs t
              in case perform_all (write_ops t1) st1 of
                   (Inl e, st2) \<Rightarrow> (Inl TaskPersistError, t1, snd (perform (Cleanupdir (t_id t @ TEMP_EXT)) st2))
                 | (Inr _, st2) \<Rightarrow>
                     (case perform_all (switch_ops t1) st2 of
                        (Inl e, st3) \<Rightarrow> (Inl e, t1, st3)
                      | (Inr _, st3) \<Rightarrow> (Inr (), t1, st3)))"

definition clean_dir :: "(task \<times> storage, task_error, unit) op" where
  "clean_dir = (\<lambda>(t, st). case perform (Cleanupdir (t_id t)) st of (r, st') \<Rightarrow> (r, t, st'))"

definition clean :: "(task \<times> storage, task_error, unit) op" where
  "clean = (\<lambda>(t, st).
     if t_store t = None \<or> t_store t = Some [] then (Inr (), t, st)
     else if \<not> state_isDone (t_state t) then (Inl (TaskStateError (t_state t)), t, st)
     else clean_dir (t, st))"

definition persist :: "(task \<times> storage, task_error, unit) op" where
  "persist = (\<lambda>(t, st).
     if t_persistPolicy t = P_none then (Inr (), t, st)
     else if t_store t = None \<or> t_store t = Some [] then (Inl TaskPersistError, t, st)
     else if t_state t = Init then (Inl (TaskStateError Init), t, st)
     else save (t, st))"

text \<open>\<open>createdir\<close> accepts a directory that exists.\<close>

definition setPersistence :: "pystr \<Rightarrow> policy \<Rightarrow> policy \<Rightarrow> (task \<times> storage, task_error, unit) op" where
  "setPersistence store persistPolicy cleanPolicy = (\<lambda>(t, st).
     let t1 = t\<lparr>t_persistPolicy := persistPolicy, t_store := Some store, t_cleanPolicy := cleanPolicy\<rparr> in
     if persistPolicy \<noteq> P_none \<and> store = [] then (Inl TaskPersistError, t1, st)
     else case (if st_dirs st (t_id t) = None then perform (Mkdir (t_id t)) st else (Inr (), st)) of
            (Inl _, st1) \<Rightarrow> (Inl TaskPersistError, t1, st1)
          | (Inr _, st1) \<Rightarrow> if persistPolicy = P_auto \<and> t_state t1 \<noteq> Init then persist (t1, st1) else (Inr (), t1, st1))"

subsection \<open>Loading\<close>

definition loadMetaFile :: "'o field list \<Rightarrow> dir \<Rightarrow> pystr \<Rightarrow> 'o \<Rightarrow> task_error + 'o" where
  "loadMetaFile fds files name obj =
     (case files name of
        None \<Rightarrow> Inl TaskMetaDataLoadError
      | Some text \<Rightarrow> (case load_lines fds (lines_of text) obj of Inl _ \<Rightarrow> Inl TaskMetaDataLoadError | Inr x \<Rightarrow> Inr x))"

definition loaded_job :: job where
  "loaded_job = \<lparr>j_name = ''load'', j_runcmd = ''None (args: () kwargs: {})''\<rparr>"

definition loaded_recovery :: recovery where
  "loaded_recovery =
     \<lparr>r_name = ''load'', r_moduleName = ''load'', r_object = ''load'', r_function = ''load'', r_params = ParamList_str ''''\<rparr>"

fun load_each :: "(nat \<Rightarrow> task_error + 'o) \<Rightarrow> nat list \<Rightarrow> task_error + 'o list" where
  "load_each f [] = Inr []"
| "load_each f (n # ns) = rbind (f n) (\<lambda>x. rbind (load_each f ns) (\<lambda>xs. Inr (x # xs)))"

definition load_files :: "task \<Rightarrow> dir \<Rightarrow> task_error + task" where
  "load_files t files =
     rbind (loadMetaFile task_fields files (t_id t @ TASK_EXT) t) (\<lambda>t1.
     if t_id t1 \<noteq> t_id t then Inl TaskMetaDataLoadError
     else
       rbind (if t_state t1 = Finished
              then rbind (loadMetaFile result_fields files (t_id t1 @ RESULT_EXT) (t_result t1)) (\<lambda>r. Inr (t1\<lparr>t_result := r\<rparr>))
              else Inr t1) (\<lambda>t2.
       rbind (load_each (\<lambda>n. loadMetaFile job_fields files (num_file (t_id t2) JOB_EXT n) loaded_job) [0..<nat (t_njobs t2)]) (\<lambda>js.
       rbind (load_each (\<lambda>n. loadMetaFile recovery_fields files (num_file (t_id t2) RECOVER_EXT n) loaded_recovery)
               [0..<nat (t_nrecoveries t2)]) (\<lambda>rs.
       Inr (t2\<lparr>t_jobs := t_jobs t2 @ js, t_recoveries := t_recoveries t2 @ rs\<rparr>)))))"

definition load_task :: "task \<Rightarrow> (pystr \<rightharpoonup> dir) \<Rightarrow> pystr \<Rightarrow> task_error + task" where
  "load_task t s ext =
     (if t_state t \<noteq> Init then Inl TaskMetaDataLoadError
      else case s (t_id t @ ext) of None \<Rightarrow> Inl TaskDirError | Some files \<Rightarrow> load_files t files)"

definition loadTask :: "pystr \<Rightarrow> (pystr \<rightharpoonup> dir) \<Rightarrow> pystr \<Rightarrow> task_error + task" where
  "loadTask uuid s taskid =
     rbind (Task uuid taskid '''' '''' P_none Low) (\<lambda>t.
       if s taskid \<noteq> None then load_task t s ''''
       else if s (taskid @ TEMP_EXT) \<noteq> None then load_task t s TEMP_EXT
       else if s (taskid @ BACKUP_EXT) \<noteq> None then load_task t s BACKUP_EXT
       else Inl TaskDirError)"

end
