(* ===== verification/Task_Persist.thy ===== *)
theory Task_Persist
  imports Task_Store
begin

text \<open>
  What saving and loading a task promise: a saved task is loaded with the same data, and a crash
  at any point of a save leaves a store that loads the task as it was or as it was being saved.
\<close>

subsection \<open>Fields\<close>

lemma eq_safe_Nil [simp]: "eq_safe []"
  by (simp add: eq_safe_def)

lemma eq_safe_no_underscore: "CHR ''_'' \<notin> set s \<Longrightarrow> eq_safe s"
proof (induction s)
  case (Cons c s)
  then show ?case by (auto simp: eq_safe_Cons eval_nat_numeral)
qed simp

lemma clean_no_underscore: "CHR ''_'' \<notin> set s \<Longrightarrow> stripped s \<Longrightarrow> NL \<notin> set s \<Longrightarrow> clean_text s"
  by (simp add: clean_text_def eq_safe_no_underscore)

lemma clean_fmt_d: "0 \<le> n \<Longrightarrow> clean_text (fmt_d w n)"
  by (rule clean_no_underscore) (auto simp: stripped_digits fmt_d_clean)

lemma clean_state [simp]: "clean_text (state_name st)"
  by (cases st) (simp_all add: clean_no_underscore stripped_def str_space_def)

lemma clean_policy [simp]: "clean_text (policy_name p)"
  by (cases p) (simp_all add: clean_no_underscore stripped_def str_space_def)

lemma clean_priority [simp]: "clean_text (priority_name p)"
  by (cases p) (simp_all add: clean_no_underscore stripped_def str_space_def)

lemma fields_ok_all:
  "fields_ok task_fields" "fields_ok job_fields" "fields_ok recovery_fields" "fields_ok result_fields"
  by (simp_all add: fields_ok_def task_fields_def job_fields_def recovery_fields_def result_fields_def
      clean_no_underscore stripped_def str_space_def)

lemma copy_job: "copy_fields job_fields j j0 = Inr j"
  by (cases j; cases j0) (simp add: job_fields_def)

lemma copy_result: "copy_fields result_fields r r0 = Inr r"
  by (cases r; cases r0) (simp add: result_fields_def set_int_def)

text \<open>The texts of a parameter list and their list: no text may hold the separator, and the list may not be empty.\<close>

definition clean_params :: "pystr list \<Rightarrow> bool" where
  "clean_params ps \<longleftrightarrow> ps \<noteq> [] \<and> (\<forall>p \<in> set ps. FIELD_SEP \<notin> set p \<and> stripped p) \<and> clean_text (ParamList_to_str ps)"

lemma ParamList_to_str_join: "ps \<noteq> [] \<Longrightarrow> ParamList_to_str ps = join FIELD_SEP ps"
  by (induction FIELD_SEP ps rule: join.induct) (auto simp: ParamList_to_str_def Let_def butlast_append)

lemma ParamList_roundtrip: "clean_params ps \<Longrightarrow> ParamList_str (ParamList_to_str ps) = ps"
  by (simp add: clean_params_def ParamList_str_def ParamList_to_str_join split_on_join map_idI)

lemma copy_recovery: "clean_params (r_params r) \<Longrightarrow> copy_fields recovery_fields r r0 = Inr r"
  by (cases r; cases r0) (simp add: recovery_fields_def ParamList_roundtrip)

definition store_text :: "task \<Rightarrow> pystr" where
  "store_text t = (case t_store t of None \<Rightarrow> ''None'' | Some s \<Rightarrow> s)"

definition restore_fields :: "task \<Rightarrow> task \<Rightarrow> task" where
  "restore_fields t t0 = t0\<lparr>t_id := t_id t, t_name := t_name t, t_tag := t_tag t, t_store := Some (store_text t),
     t_recoveryPolicy := t_recoveryPolicy t, t_persistPolicy := t_persistPolicy t, t_cleanPolicy := t_cleanPolicy t,
     t_priority := t_priority t, t_state := t_state t, t_njobs := t_njobs t, t_nrecoveries := t_nrecoveries t,
     t_metadataVersion := t_metadataVersion t\<rparr>"

lemma copy_task: "copy_fields task_fields t t0 = Inr (restore_fields t t0)"
  by (simp add: task_fields_def set_int_def set_policy_def restore_fields_def store_text_def)

subsection \<open>The files of a task\<close>

definition clean_task :: "task \<Rightarrow> bool" where
  "clean_task t \<longleftrightarrow>
     list_all clean_text [t_id t, t_name t, t_tag t, store_text t] \<and> 0 \<le> t_metadataVersion t \<and>
     t_id t \<noteq> [] \<and> CHR ''.'' \<notin> set (t_id t) \<and>
     (t_state t = Finished \<longrightarrow> 0 \<le> tr_code (t_result t) \<and> list_all clean_text [tr_message (t_result t), tr_result (t_result t)]) \<and>
     (\<forall>j \<in> set (t_jobs t). list_all clean_text [j_name j, j_runcmd j]) \<and>
     (\<forall>r \<in> set (t_recoveries t). list_all clean_text [r_name r, r_moduleName r, r_object r, r_function r] \<and> clean_params (r_params r))"

definition task_dir :: "task \<Rightarrow> dir" where
  "task_dir t = map_of (map (\<lambda>(f, ls). (f, put_lines ls)) (meta_files t))"

lemma num_file_inj [simp]: "num_file tid ext n = num_file tid ext k \<longleftrightarrow> n = k"
proof
  assume "num_file tid ext n = num_file tid ext k"
  then have "py_int 10 (fmt_d 0 (int n)) = py_int 10 (fmt_d 0 (int k))" by (simp add: num_file_def)
  then show "n = k" by simp
qed simp

lemma num_file_neq [simp]:
  "num_file tid JOB_EXT n \<noteq> num_file tid RECOVER_EXT k" "num_file tid RECOVER_EXT k \<noteq> num_file tid JOB_EXT n"
  "num_file tid JOB_EXT n \<noteq> tid @ TASK_EXT" "num_file tid RECOVER_EXT n \<noteq> tid @ TASK_EXT"
  "num_file tid JOB_EXT n \<noteq> tid @ RESULT_EXT" "num_file tid RECOVER_EXT n \<noteq> tid @ RESULT_EXT"
  "tid @ TASK_EXT \<noteq> num_file tid JOB_EXT n" "tid @ TASK_EXT \<noteq> num_file tid RECOVER_EXT n"
  "tid @ RESULT_EXT \<noteq> num_file tid JOB_EXT n" "tid @ RESULT_EXT \<noteq> num_file tid RECOVER_EXT n"
  "tid @ TASK_EXT \<noteq> tid @ RESULT_EXT" "TASK_EXT \<noteq> RESULT_EXT"
  by (simp_all add: num_file_def ext_defs)

lemma meta_files_distinct: "distinct (map fst (meta_files t))"
  by (auto simp: meta_files_def distinct_map inj_on_def in_set_enumerate_eq)

lemma task_dir_lookup: "(f, ls) \<in> set (meta_files t) \<Longrightarrow> task_dir t f = Some (put_lines ls)"
  unfolding task_dir_def using meta_files_distinct [of t] by (intro map_of_is_SomeI) (force simp: comp_def case_prod_unfold)+

lemma load_saved:
  assumes "(f, dump fds obj) \<in> set (meta_files t)" and "fields_ok fds" and "\<forall>(_, get, _) \<in> set fds. clean_text (get obj)"
    and "copy_fields fds obj x0 = Inr x"
  shows "loadMetaFile fds (task_dir t) f x0 = Inr x"
  using task_dir_lookup [OF assms(1)] load_dumped [OF assms(2,3)] assms(4) by (simp add: loadMetaFile_def)

lemma load_each_map:
  assumes "\<And>n. n < length xs \<Longrightarrow> f n = Inr (xs ! n)"
  shows "load_each f [0..<length xs] = Inr xs"
proof -
  have "load_each f [k..<length xs] = Inr (drop k xs)" if "k \<le> length xs" for k
    using that
  proof (induction "length xs - k" arbitrary: k)
    case (Suc d)
    then have k: "k < length xs" by simp
    then have "load_each f [Suc k..<length xs] = Inr (drop (Suc k) xs)" using Suc by simp
    then show ?case using k assms by (simp add: upt_conv_Cons Cons_nth_drop_Suc)
  qed simp
  from this [of 0] show ?thesis by simp
qed

text \<open>The task that loading gives back.\<close>

definition restored :: "task \<Rightarrow> task \<Rightarrow> task" where
  "restored t t0 =
     (restore_fields t t0)\<lparr>t_result := (if t_state t = Finished then t_result t else t_result t0),
        t_jobs := t_jobs t0 @ t_jobs t, t_recoveries := t_recoveries t0 @ t_recoveries t\<rparr>"

lemma load_task_dir:
  assumes "clean_task t" and "t_id t0 = t_id t"
    and "t_njobs t = int (length (t_jobs t))" and "t_nrecoveries t = int (length (t_recoveries t))"
  shows "load_files t0 (task_dir t) = Inr (restored t t0)"
proof -
  let ?t1 = "restore_fields t t0"
  have task: "loadMetaFile task_fields (task_dir t) (t_id t0 @ TASK_EXT) t0 = Inr ?t1"
    using assms
    by (intro load_saved [OF _ fields_ok_all(1) _ copy_task])
      (auto simp: meta_files_def task_fields_def clean_task_def clean_fmt_d store_text_def)
  have res: "loadMetaFile result_fields (task_dir t) (t_id t @ RESULT_EXT) r0 = Inr (t_result t)" if "t_state t = Finished" for r0
    using assms that
    by (intro load_saved [OF _ fields_ok_all(4) _ copy_result])
      (auto simp: meta_files_def result_fields_def clean_task_def clean_fmt_d)
  have "loadMetaFile job_fields (task_dir t) (num_file (t_id t) JOB_EXT n) loaded_job = Inr (t_jobs t ! n)" if "n < length (t_jobs t)" for n
    using assms that
    by (intro load_saved [OF _ fields_ok_all(2) _ copy_job])
      (force simp: meta_files_def in_set_enumerate_eq, simp add: job_fields_def clean_task_def)
  then have jobs: "load_each (\<lambda>n. loadMetaFile job_fields (task_dir t) (num_file (t_id t) JOB_EXT n) loaded_job) [0..<length (t_jobs t)] = Inr (t_jobs t)"
    by (rule load_each_map)
  have "loadMetaFile recovery_fields (task_dir t) (num_file (t_id t) RECOVER_EXT n) loaded_recovery = Inr (t_recoveries t ! n)"
    if "n < length (t_recoveries t)" for n
  proof -
    have "list_all clean_text [r_name r, r_moduleName r, r_object r, r_function r] \<and> clean_params (r_params r)" if "r = t_recoveries t ! n" for r
      using assms(1) \<open>n < length (t_recoveries t)\<close> that by (simp add: clean_task_def)
    then show ?thesis
      using assms(2) that
      by (intro load_saved [OF _ fields_ok_all(3) _ copy_recovery])
        (force simp: meta_files_def in_set_enumerate_eq, simp_all add: recovery_fields_def clean_params_def)
  qed
  then have recs: "load_each (\<lambda>n. loadMetaFile recovery_fields (task_dir t) (num_file (t_id t) RECOVER_EXT n) loaded_recovery)
      [0..<length (t_recoveries t)] = Inr (t_recoveries t)"
    by (rule load_each_map)
  show ?thesis
    using task res jobs recs assms(2-4)
    by (cases "t_state t = Finished") (simp_all add: load_files_def restored_def restore_fields_def)
qed

subsection \<open>A save without faults\<close>

fun apply_all :: "fs_op list \<Rightarrow> (pystr \<rightharpoonup> dir) \<Rightarrow> (pystr \<rightharpoonup> dir) option" where
  "apply_all [] s = Some s"
| "apply_all (op # ops) s = (case apply_op op s of None \<Rightarrow> None | Some s' \<Rightarrow> apply_all ops s')"

lemma apply_all_append:
  "apply_all (xs @ ys) s = (case apply_all xs s of None \<Rightarrow> None | Some s' \<Rightarrow> apply_all ys s')"
  by (induction xs arbitrary: s) (auto split: option.splits)

lemma perform_all_works:
  assumes "\<forall>n. st_fault st n = None" and "apply_all ops (st_dirs st) = Some s"
  shows "\<exists>c. perform_all ops st = (Inr (), st\<lparr>st_dirs := s, st_count := c\<rparr>)"
  using assms
proof (induction ops arbitrary: st)
  case Nil
  then show ?case by (intro exI [of _ "st_count st"]) simp
next
  case (Cons op ops)
  obtain s1 where s1: "apply_op op (st_dirs st) = Some s1" "apply_all ops s1 = Some s"
    using Cons.prems(2) by (auto split: option.splits)
  let ?st = "st\<lparr>st_count := Suc (st_count st), st_dirs := s1\<rparr>"
  have "perform op st = (Inr (), ?st)" using Cons.prems(1) s1(1) by (simp add: perform_def)
  moreover have "\<exists>c. perform_all ops ?st = (Inr (), ?st\<lparr>st_dirs := s, st_count := c\<rparr>)"
    using Cons.IH [of ?st] Cons.prems(1) s1(2) by simp
  ultimately show ?case by auto
qed

lemma dirs_neq [simp]:
  "tid @ TEMP_EXT \<noteq> tid" "tid @ BACKUP_EXT \<noteq> tid" "tid \<noteq> tid @ TEMP_EXT" "tid \<noteq> tid @ BACKUP_EXT"
  "tid @ TEMP_EXT \<noteq> tid @ BACKUP_EXT" "tid @ BACKUP_EXT \<noteq> tid @ TEMP_EXT" "TEMP_EXT \<noteq> BACKUP_EXT" "BACKUP_EXT \<noteq> TEMP_EXT"
  "TEMP_EXT \<noteq> []" "BACKUP_EXT \<noteq> []"
  by (simp_all add: ext_defs)

lemma count_jobs_simps [simp]:
  "t_id (count_jobs t) = t_id t" "clean_task (count_jobs t) = clean_task t" "t_state (count_jobs t) = t_state t"
  "t_jobs (count_jobs t) = t_jobs t" "t_recoveries (count_jobs t) = t_recoveries t"
  by (simp_all add: count_jobs_def clean_task_def store_text_def)

lemma start_ops_apply: "apply_all (start_ops t s) s = Some (s(t_id t @ TEMP_EXT \<mapsto> Map.empty))"
  by (simp add: start_ops_def apply_op_def)

lemma write_files_apply:
  assumes "s d = Some files" and "distinct (map fst fs)"
  shows "apply_all (map (\<lambda>(f, ls). WriteLines d f ls) fs) s =
    Some (s(d \<mapsto> files ++ map_of (map (\<lambda>(f, ls). (f, put_lines ls)) fs)))"
  using assms
proof (induction fs arbitrary: s files)
  case (Cons fl fs)
  obtain f ls where fl: "fl = (f, ls)" by (cases fl)
  have "f \<notin> dom (map_of (map (\<lambda>(f, ls). (f, put_lines ls)) fs))"
    using Cons.prems(2) fl by (auto simp: dom_map_of_conv_image_fst image_image case_prod_unfold)
  then have eq: "files(f \<mapsto> put_lines ls) ++ map_of (map (\<lambda>(f, ls). (f, put_lines ls)) fs) =
      files ++ (map_of (map (\<lambda>(f, ls). (f, put_lines ls)) fs))(f \<mapsto> put_lines ls)"
    by (simp add: map_add_upd_left)
  have step: "apply_op (WriteLines d f ls) s = Some (s(d \<mapsto> files(f \<mapsto> put_lines ls)))"
    using Cons.prems(1) by (simp add: apply_op_def)
  have d: "(s(d \<mapsto> files(f \<mapsto> put_lines ls))) d = Some (files(f \<mapsto> put_lines ls))" by simp
  have "distinct (map fst fs)" using Cons.prems(2) by simp
  then have "apply_all (map (\<lambda>(f, ls). WriteLines d f ls) fs) (s(d \<mapsto> files(f \<mapsto> put_lines ls))) =
      Some (s(d \<mapsto> files(f \<mapsto> put_lines ls) ++ map_of (map (\<lambda>(f, ls). (f, put_lines ls)) fs)))"
    using Cons.IH [of "s(d \<mapsto> files(f \<mapsto> put_lines ls))" "files(f \<mapsto> put_lines ls)", OF d] by (simp only: fun_upd_upd)
  then show ?case
    unfolding fl by (simp only: list.map prod.case apply_all.simps step option.case map_of.simps fst_conv snd_conv eq)
qed (simp add: fun_upd_idem)

lemma write_ops_apply:
  "s (t_id t @ TEMP_EXT) = Some Map.empty \<Longrightarrow> apply_all (write_ops t) s = Some (s(t_id t @ TEMP_EXT \<mapsto> task_dir t))"
  using write_files_apply [of s "t_id t @ TEMP_EXT" Map.empty "meta_files t"] meta_files_distinct [of t]
  by (simp add: write_ops_def task_dir_def)

lemma switch_ops_apply:
  assumes "s (t_id t @ TEMP_EXT) = Some files" and "s (t_id t) = Some old"
  shows "apply_all (switch_ops t) s = Some (s(t_id t \<mapsto> files, t_id t @ TEMP_EXT := None, t_id t @ BACKUP_EXT := None))"
  using assms by (auto simp: switch_ops_def apply_op_def fun_eq_iff)

lemma save_works:
  assumes "\<forall>n. st_fault st n = None" and "st_dirs st (t_id t) = Some old"
  shows "\<exists>st'. save (t, st) = (Inr (), count_jobs t, st') \<and>
    st_dirs st' = (st_dirs st)(t_id t \<mapsto> task_dir (count_jobs t), t_id t @ TEMP_EXT := None, t_id t @ BACKUP_EXT := None)"
proof -
  let ?s = "st_dirs st" and ?temp = "t_id t @ TEMP_EXT" and ?t = "count_jobs t"
  obtain c1 where 1: "perform_all (start_ops t ?s) st = (Inr (), st\<lparr>st_dirs := ?s(?temp \<mapsto> Map.empty), st_count := c1\<rparr>)"
    using perform_all_works [OF assms(1) start_ops_apply] by blast
  let ?st1 = "st\<lparr>st_dirs := ?s(?temp \<mapsto> Map.empty), st_count := c1\<rparr>"
  obtain c2 where 2: "perform_all (write_ops ?t) ?st1 = (Inr (), ?st1\<lparr>st_dirs := ?s(?temp \<mapsto> task_dir ?t), st_count := c2\<rparr>)"
    using perform_all_works [of ?st1 "write_ops ?t" "?s(?temp \<mapsto> task_dir ?t)"] assms(1) write_ops_apply [of "?s(?temp \<mapsto> Map.empty)" ?t] by auto
  let ?st2 = "?st1\<lparr>st_dirs := ?s(?temp \<mapsto> task_dir ?t), st_count := c2\<rparr>"
  let ?s3 = "(?s(?temp \<mapsto> task_dir ?t))(t_id t \<mapsto> task_dir ?t, ?temp := None, t_id t @ BACKUP_EXT := None)"
  have "apply_all (switch_ops ?t) (st_dirs ?st2) = Some ?s3"
    using switch_ops_apply [of "?s(?temp \<mapsto> task_dir ?t)" ?t "task_dir ?t" old] assms(2) by simp
  then obtain c3 where 3: "perform_all (switch_ops ?t) ?st2 = (Inr (), ?st2\<lparr>st_dirs := ?s3, st_count := c3\<rparr>)"
    using perform_all_works [of ?st2 "switch_ops ?t" ?s3] assms(1) by auto
  show ?thesis
    using 1 2 3 assms(2) by (auto simp: save_def Let_def fun_upd_twist)
qed

lemma loadTask_orig:
  assumes "s taskid = Some files" and "taskid \<noteq> []"
  shows "loadTask uuid s taskid = rbind (Task uuid taskid '''' '''' P_none Low) (\<lambda>t0. load_files t0 files)"
  using assms by (auto simp: loadTask_def load_task_def Task_def rbind_def split: sum.splits)

lemma loadTask_temp:
  assumes "s taskid = None" and "s (taskid @ TEMP_EXT) = Some files" and "taskid \<noteq> []"
  shows "loadTask uuid s taskid = rbind (Task uuid taskid '''' '''' P_none Low) (\<lambda>t0. load_files t0 files)"
  using assms by (auto simp: loadTask_def load_task_def Task_def rbind_def split: sum.splits)

text \<open>What a fresh process knows of a saved task.\<close>

definition reloaded :: "pystr \<Rightarrow> task \<Rightarrow> task_error + task" where
  "reloaded uuid t = rbind (Task uuid (t_id t) '''' '''' P_none Low) (\<lambda>t0. Inr (restored (count_jobs t) t0))"

lemma load_new:
  assumes "clean_task t"
  shows "rbind (Task uuid (t_id t) '''' '''' P_none Low) (\<lambda>t0. load_files t0 (task_dir (count_jobs t))) = reloaded uuid t"
proof -
  obtain t0 where t0: "Task uuid (t_id t) '''' '''' P_none Low = Inr t0" "t_id t0 = t_id t"
    using assms by (simp add: Task_def validateID_def clean_task_def)
  have "load_files t0 (task_dir (count_jobs t)) = Inr (restored (count_jobs t) t0)"
    using assms t0(2) by (intro load_task_dir) (simp_all, simp_all add: count_jobs_def)
  then show ?thesis using t0(1) by (simp add: reloaded_def)
qed

text \<open>
  C29. Saving and loading round trip: after a save, a fresh process that loads the task gets its
  name, tag, store, policies, priority and state, its jobs and its stack of recoveries, and the
  result of a finished task.
\<close>

theorem save_load_roundtrip:
  assumes "\<forall>n. st_fault st n = None" and "st_dirs st (t_id t) \<noteq> None" and "clean_task t"
  shows "\<exists>st'. save (t, st) = (Inr (), count_jobs t, st') \<and> loadTask uuid (st_dirs st') (t_id t) = reloaded uuid t \<and> is_ok (reloaded uuid t)"
proof -
  obtain old where "st_dirs st (t_id t) = Some old" using assms(2) by auto
  then obtain st' where st': "save (t, st) = (Inr (), count_jobs t, st')"
    "st_dirs st' = (st_dirs st)(t_id t \<mapsto> task_dir (count_jobs t), t_id t @ TEMP_EXT := None, t_id t @ BACKUP_EXT := None)"
    using save_works [OF assms(1)] by blast
  have "st_dirs st' (t_id t) = Some (task_dir (count_jobs t))" by (simp add: st'(2))
  then have "loadTask uuid (st_dirs st') (t_id t) = reloaded uuid t" using load_new [OF assms(3)] assms(3) by (simp add: loadTask_orig clean_task_def)
  moreover have "is_ok (reloaded uuid t)"
    using assms(3) by (simp add: reloaded_def Task_def validateID_def clean_task_def)
  ultimately show ?thesis using st'(1) by blast
qed

definition sample_task :: task where
  "sample_task = \<lparr>t_id = ''t1'', t_name = ''create'', t_tag = ''spm'', t_store = Some ''/master'', t_recoveryPolicy = P_auto,
     t_persistPolicy = P_auto, t_cleanPolicy = P_manual, t_priority = Low, t_state = Running, t_njobs = 0, t_nrecoveries = 0,
     t_metadataVersion = 1, t_result = \<lparr>tr_code = 0, tr_message = ''x'', tr_result = ''''\<rparr>, t_error = TaskOSError,
     t_managed = True, t_aborting = False, t_forceAbort = False, t_ref = 1,
     t_recoveries = [\<lparr>r_name = ''undo'', r_moduleName = ''sd'', r_object = ''StorageDomain'', r_function = ''undo'', r_params = [''a=b'', ''c'']\<rparr>],
     t_jobs = [\<lparr>j_name = ''job'', j_runcmd = ''cmd''\<rparr>]\<rparr>"

definition sample_storage :: storage where
  "sample_storage = \<lparr>st_dirs = [''t1'' \<mapsto> Map.empty], st_fault = \<lambda>_. None, st_count = 0\<rparr>"

lemma sample_clean: "clean_task sample_task"
  by (simp add: clean_task_def sample_task_def clean_no_underscore stripped_def str_space_def store_text_def clean_params_def
      ParamList_to_str_def)

theorem save_load_roundtrip_witness:
  "\<exists>st'. save (sample_task, sample_storage) = (Inr (), count_jobs sample_task, st') \<and>
    loadTask ''u'' (st_dirs st') ''t1'' = reloaded ''u'' sample_task \<and> is_ok (reloaded ''u'' sample_task)"
proof -
  have "t_id sample_task = ''t1''" by (simp add: sample_task_def)
  then show ?thesis using save_load_roundtrip [OF _ _ sample_clean, of sample_storage] by (simp add: sample_storage_def)
qed

subsection \<open>Crashes\<close>

text \<open>
  The stores a crash can leave while operations are performed: between two operations, or with
  one of them done in part.
\<close>

inductive crash_after :: "fs_op list \<Rightarrow> (pystr \<rightharpoonup> dir) \<Rightarrow> (pystr \<rightharpoonup> dir) \<Rightarrow> bool" where
  crash_now: "crash_after ops s s"
| crash_in: "crash_after (op # ops) s (fail_op op text names s)"
| crash_later: "apply_op op s = Some s1 \<Longrightarrow> crash_after ops s1 s' \<Longrightarrow> crash_after (op # ops) s s'"

inductive_simps crash_Nil [simp]: "crash_after [] s s'"
inductive_simps crash_Cons: "crash_after (op # ops) s s'"

definition save_ops :: "task \<Rightarrow> (pystr \<rightharpoonup> dir) \<Rightarrow> fs_op list" where
  "save_ops t s = start_ops t s @ write_ops (count_jobs t) @ switch_ops (count_jobs t)"

lemma crash_append:
  assumes "crash_after (xs @ ys) s s'"
  shows "crash_after xs s s' \<or> (\<exists>s1. apply_all xs s = Some s1 \<and> crash_after ys s1 s')"
  using assms
proof (induction xs arbitrary: s)
  case (Cons op xs)
  have "crash_after (op # xs) s s'" if "s' = s \<or> (\<exists>text names. s' = fail_op op text names s)"
    using that by (auto simp: crash_Cons)
  moreover have ?case if "apply_op op s = Some s1" "crash_after (xs @ ys) s1 s'" for s1
    using Cons.IH [OF that(2)] that(1) by (auto simp: crash_Cons)
  ultimately show ?case using Cons.prems unfolding append_Cons crash_Cons [of op "xs @ ys"] by blast
qed (simp add: crash_Nil)

text \<open>Operations on one directory leave the others alone, also when they crash.\<close>

fun op_dirs :: "fs_op \<Rightarrow> pystr set" where
  "op_dirs (Mkdir d) = {d}"
| "op_dirs (WriteLines d f ls) = {d}"
| "op_dirs (Cleanupdir d) = {d}"
| "op_dirs (Rename d d') = {d, d'}"
| "op_dirs (Fsync d) = {d}"

lemma op_frame:
  "apply_op op s = Some s' \<Longrightarrow> x \<notin> op_dirs op \<Longrightarrow> s' x = s x" "x \<notin> op_dirs op \<Longrightarrow> fail_op op text names s x = s x"
  by (cases op; auto simp: apply_op_def fail_op_def split: option.splits if_splits)+

lemma crash_frame:
  assumes "crash_after ops s s'" and "\<forall>op \<in> set ops. x \<notin> op_dirs op"
  shows "s' x = s x"
  using assms by (induction rule: crash_after.induct) (auto simp: op_frame)

lemma start_write_dirs: "op \<in> set (start_ops t s @ write_ops (count_jobs t)) \<Longrightarrow> t_id t \<notin> op_dirs op"
  by (auto simp: start_ops_def write_ops_def split: if_splits)

text \<open>A crash of the last phase: the new directory has its place or its temporary name.\<close>

lemma crash_backup:
  assumes "crash_after [Cleanupdir (t_id t @ BACKUP_EXT), Fsync (t_id t)] s s'" and "s (t_id t) = Some new"
  shows "s' (t_id t) = Some new"
  using assms by (auto simp: crash_Cons apply_op_def fail_op_def split: option.splits)

lemma crash_second_rename:
  assumes "crash_after [Rename (t_id t @ TEMP_EXT) (t_id t), Cleanupdir (t_id t @ BACKUP_EXT), Fsync (t_id t)] s s'"
    and "s (t_id t) = None" and "s (t_id t @ TEMP_EXT) = Some new"
  shows "s' (t_id t) = Some new \<or> s' (t_id t) = None \<and> s' (t_id t @ TEMP_EXT) = Some new"
proof -
  have "s1 (t_id t) = Some new" if "apply_op (Rename (t_id t @ TEMP_EXT) (t_id t)) s = Some s1" for s1
    using that assms(2,3) by (auto simp: apply_op_def)
  then show ?thesis
    using assms crash_backup [of t _ s' new] unfolding crash_Cons [of "Rename _ _"]
    by (elim disjE exE conjE) (simp, simp add: fail_op_def, blast)
qed

lemma crash_first_rename:
  assumes "crash_after (Rename (t_id t) (t_id t @ BACKUP_EXT) # [Rename (t_id t @ TEMP_EXT) (t_id t),
      Cleanupdir (t_id t @ BACKUP_EXT), Fsync (t_id t)]) s s'"
    and "s (t_id t) = Some old" and "s (t_id t @ TEMP_EXT) = Some new"
  shows "s' (t_id t) = Some old \<or> s' (t_id t) = Some new \<or> s' (t_id t) = None \<and> s' (t_id t @ TEMP_EXT) = Some new"
proof -
  have "s1 (t_id t) = None" "s1 (t_id t @ TEMP_EXT) = Some new"
    if "apply_op (Rename (t_id t) (t_id t @ BACKUP_EXT)) s = Some s1" for s1
    using that assms(2,3) by (auto simp: apply_op_def split: if_splits)
  then show ?thesis
    using assms crash_second_rename [of t _ s' new] unfolding crash_Cons [of "Rename (t_id t) _"]
    by (elim disjE exE conjE) (simp add: fail_op_def, simp add: fail_op_def, blast)
qed

lemma crash_switch:
  assumes "crash_after (switch_ops t) s s'" and "s (t_id t) = Some old" and "s (t_id t @ TEMP_EXT) = Some new"
  shows "s' (t_id t) = Some old \<or> s' (t_id t) = Some new \<or> s' (t_id t) = None \<and> s' (t_id t @ TEMP_EXT) = Some new"
proof -
  let ?op = "Cleanupdir (t_id t @ BACKUP_EXT)"
  have "s1 (t_id t) = Some old" "s1 (t_id t @ TEMP_EXT) = Some new" if "apply_op ?op s = Some s1" for s1
    using that assms(2,3) by (auto simp: apply_op_def)
  moreover have "fail_op ?op tx names s (t_id t) = Some old" for tx names
    using assms(2) by (simp add: fail_op_def split: option.splits)
  ultimately show ?thesis
    using assms(1,2) crash_first_rename [of t _ s' old new]
    unfolding switch_ops_def crash_Cons [of ?op "_ # _ # _ # _"] by (elim disjE exE conjE) (simp, simp, blast)
qed

text \<open>
  C28. Saving is atomic: wherever a crash stops a save, also in the middle of writing a file or
  of removing a directory, the store loads the task as it was before the save or as it was being
  saved, never a mixture and never nothing.
\<close>

theorem save_crash_safe:
  assumes "st_dirs st (t_id t) \<noteq> None" and "clean_task t" and "crash_after (save_ops t (st_dirs st)) (st_dirs st) s'"
  shows "loadTask uuid s' (t_id t) = loadTask uuid (st_dirs st) (t_id t) \<or> loadTask uuid s' (t_id t) = reloaded uuid t"
proof -
  let ?s = "st_dirs st"
  have ne: "t_id t \<noteq> []" using assms(2) by (simp add: clean_task_def)
  obtain old where old: "?s (t_id t) = Some old" using assms(1) by auto
  consider "crash_after (start_ops t ?s @ write_ops (count_jobs t)) ?s s'"
    | s1 where "apply_all (start_ops t ?s @ write_ops (count_jobs t)) ?s = Some s1" "crash_after (switch_ops (count_jobs t)) s1 s'"
    using crash_append [of "start_ops t ?s @ write_ops (count_jobs t)" "switch_ops (count_jobs t)" ?s s'] assms(3)
    unfolding save_ops_def append_assoc by blast
  then show ?thesis
  proof cases
    case 1
    then have "s' (t_id t) = Some old" using crash_frame [OF 1, of "t_id t"] start_write_dirs old by simp
    then show ?thesis using old ne by (simp add: loadTask_orig)
  next
    case (2 s1)
    have "s1 = ?s(t_id t @ TEMP_EXT \<mapsto> task_dir (count_jobs t))"
      using 2(1) write_ops_apply [of "?s(t_id t @ TEMP_EXT \<mapsto> Map.empty)" "count_jobs t"]
      by (simp add: apply_all_append start_ops_apply)
    then have "s' (t_id t) = Some old \<or> s' (t_id t) = Some (task_dir (count_jobs t)) \<or>
        s' (t_id t) = None \<and> s' (t_id t @ TEMP_EXT) = Some (task_dir (count_jobs t))"
      using crash_switch [OF 2(2), of old "task_dir (count_jobs t)"] old by simp
    then show ?thesis using old ne load_new [OF assms(2)] by (auto simp: loadTask_orig loadTask_temp)
  qed
qed

theorem save_crash_safe_witness:
  "loadTask ''u'' [''t1.temp'' \<mapsto> task_dir (count_jobs sample_task), ''t1.backup'' \<mapsto> Map.empty] ''t1'' = loadTask ''u'' (st_dirs sample_storage) ''t1'' \<or>
   loadTask ''u'' [''t1.temp'' \<mapsto> task_dir (count_jobs sample_task), ''t1.backup'' \<mapsto> Map.empty] ''t1'' = reloaded ''u'' sample_task"
proof -
  let ?s = "[''t1'' \<mapsto> Map.empty] :: pystr \<rightharpoonup> dir" and ?new = "task_dir (count_jobs sample_task)"
  have t: "t_id sample_task = ''t1''" by (simp add: sample_task_def)
  have "apply_all (start_ops sample_task ?s @ write_ops (count_jobs sample_task) @ take 2 (switch_ops (count_jobs sample_task))) ?s =
      Some [''t1.temp'' \<mapsto> ?new, ''t1.backup'' \<mapsto> Map.empty]"
    using write_ops_apply [of "?s(''t1.temp'' \<mapsto> Map.empty)" "count_jobs sample_task"]
    by (simp add: apply_all_append start_ops_apply t ext_defs switch_ops_def apply_op_def fun_eq_iff)
  moreover have "crash_after (xs @ ys) s s'" if "apply_all xs s = Some s'" for xs ys s s'
    using that by (induction xs arbitrary: s) (auto intro: crash_now crash_later split: option.splits)
  ultimately have "crash_after (save_ops sample_task ?s) ?s [''t1.temp'' \<mapsto> ?new, ''t1.backup'' \<mapsto> Map.empty]"
    unfolding save_ops_def by (metis append.assoc append_take_drop_id)
  then show ?thesis
    using save_crash_safe [OF _ sample_clean, of sample_storage] t by (simp add: sample_storage_def)
qed

text \<open>The operations of a save that meets no fault are the ones a crash may cut short.\<close>

lemma perform_all_append:
  "perform_all (xs @ ys) st = (case perform_all xs st of (Inl e, st') \<Rightarrow> (Inl e, st') | (Inr _, st') \<Rightarrow> perform_all ys st')"
  by (induction xs arbitrary: st) (auto split: prod.splits sum.splits)

lemma save_performs:
  assumes "st_dirs st (t_id t) \<noteq> None" and "perform_all (save_ops t (st_dirs st)) st = (Inr (), st')"
  shows "save (t, st) = (Inr (), count_jobs t, st')"
  using assms by (auto simp: save_ops_def perform_all_append save_def Let_def split: prod.splits sum.splits)

end
