(* ===== verification/Task_Run.thy ===== *)
theory Task_Run
  imports Task_Store
begin

text \<open>
  \<^verbatim>\<open>lib/vdsm/storage/task.py\<close>: running, aborting and recovering a task. The functions that jobs
  and recoveries run, and the task manager, are arguments; while they run, other threads may
  stop the task. \<open>_updateState\<close> calls itself through the handlers of the states: the handlers get
  the recursive call as an argument, and \<open>updateState\<close> ties the knot with fuel.
\<close>

subsection \<open>State of a running task\<close>

datatype task_event = RanJob pystr | RanRecovery pystr | AbortCallbacks | ReleasedAll

record world =
  w_task :: task
  w_st :: storage
  w_log :: "task_event list"

record env =
  e_job :: "job \<Rightarrow> (world, body_error, pystr option) op"
  e_recovery :: "recovery \<Rightarrow> (world, body_error, pystr option) op"
  e_queue :: "(world, task_error, unit) op"
  e_err_str :: "task_error \<Rightarrow> pystr"

type_synonym 'a tcall = "(world, task_error, 'a) op"
type_synonym upd = "tstate \<Rightarrow> bool \<Rightarrow> unit tcall"

definition put_task :: "(task \<Rightarrow> task) \<Rightarrow> world \<Rightarrow> world" where
  "put_task f w = w\<lparr>w_task := f (w_task w)\<rparr>"

definition log_event :: "task_event \<Rightarrow> world \<Rightarrow> world" where
  "log_event e w = w\<lparr>w_log := w_log w @ [e]\<rparr>"

definition on_store :: "(task \<times> storage, task_error, 'a) op \<Rightarrow> 'a tcall" where
  "on_store f w = (case f (w_task w, w_st w) of (r, t, st) \<Rightarrow> (r, w\<lparr>w_task := t, w_st := st\<rparr>))"

abbreviation w_state :: "world \<Rightarrow> tstate" where
  "w_state w \<equiv> t_state (w_task w)"

definition updateResult :: "int \<Rightarrow> pystr \<Rightarrow> pystr \<Rightarrow> world \<Rightarrow> world" where
  "updateResult code message result =
     put_task (\<lambda>t. t\<lparr>t_result := \<lparr>tr_code = code, tr_message = message, tr_result = result\<rparr>\<rparr>)"

definition setError :: "task_error \<Rightarrow> world \<Rightarrow> world" where
  "setError e = put_task (\<lambda>t. t\<lparr>t_error := e\<rparr>)"

definition is_aborting :: "task \<Rightarrow> bool" where
  "is_aborting t \<longleftrightarrow> t_aborting t \<or> t_state t = Aborting \<or> t_state t = Raborting"

definition aborted_value :: "pystr \<Rightarrow> int \<Rightarrow> pystr" where
  "aborted_value v code = ''value='' @ v @ '' abortedcode='' @ fmt_d 0 code"

subsection \<open>References and aborting\<close>

definition incref :: "bool \<Rightarrow> int tcall" where
  "incref force w =
     (if is_aborting (w_task w) \<and> (t_forceAbort (w_task w) \<or> \<not> force) then (Inl (TaskAborted (t_id (w_task w)) 411), w)
      else (Inr (t_ref (w_task w) + 1), put_task (\<lambda>t. t\<lparr>t_ref := t_ref t + 1\<rparr>) w))"

definition add_ref :: "int \<Rightarrow> world \<Rightarrow> world" where
  "add_ref d = put_task (\<lambda>t. t\<lparr>t_ref := t_ref t + d\<rparr>)"

definition abort_moves :: "upd \<Rightarrow> bool \<Rightarrow> unit tcall" where
  "abort_moves upd force w =
     (if \<not> canAbort (w_state w) \<and> (force \<and> \<not> canAbortRecovery (w_state w)) then (Inr (), w)
      else case (if canAbort (w_state w) then upd Aborting False w else upd Raborting False w) of
             (Inl (TaskAborted _ _), w') \<Rightarrow> upd Failed False w'
           | out \<Rightarrow> out)"

definition doAbort :: "upd \<Rightarrow> bool \<Rightarrow> unit tcall" where
  "doAbort upd force w =
     (if t_ref (w_task w) \<noteq> 0 then (Inr (), w)
      else case abort_moves upd force (add_ref 1 w) of
             (r, w1) \<Rightarrow>
               let w2 = add_ref (- 1) w1
               in if state_isDone (w_state w2) then (r, w2)
                  else case upd Failed False w2 of
                         (Inl e, w3) \<Rightarrow> (Inl e, w3)
                       | (Inr _, w3) \<Rightarrow> (r, w3))"

definition decref :: "upd \<Rightarrow> bool \<Rightarrow> int tcall" where
  "decref upd force w =
     (let w1 = add_ref (- 1) w; ref = t_ref (w_task w1)
      in if ref = 0 \<and> is_aborting (w_task w1) then
           (case doAbort upd force w1 of (Inl e, w2) \<Rightarrow> (Inl e, w2) | (Inr _, w2) \<Rightarrow> (Inr ref, w2))
         else (Inr ref, w1))"

text \<open>\<open>try: body finally: self._decref(force)\<close>.\<close>

definition finally_decref :: "upd \<Rightarrow> bool \<Rightarrow> 'a tcall \<Rightarrow> 'a tcall" where
  "finally_decref upd force body w =
     (case body w of (r, w1) \<Rightarrow>
        (case decref upd force w1 of (Inl e, w2) \<Rightarrow> (Inl e, w2) | (Inr _, w2) \<Rightarrow> (r, w2)))"

definition execute_abort_callbacks :: "world \<Rightarrow> world" where
  "execute_abort_callbacks w = log_event AbortCallbacks (put_task (\<lambda>t. t\<lparr>t_aborting := True\<rparr>) w)"

definition stop_body :: "bool \<Rightarrow> unit tcall" where
  "stop_body force w =
     (if state_isDone (w_state w) then (Inr (), w)
      else if isRecovering (w_state w) \<and> \<not> force \<and> t_cleanPolicy (w_task w) = P_auto then (Inr (), w)
      else (Inr (), put_task (\<lambda>t. t\<lparr>t_forceAbort := force\<rparr>) (execute_abort_callbacks w)))"

definition stop :: "upd \<Rightarrow> bool \<Rightarrow> unit tcall" where
  "stop upd force w =
     (case incref force w of
        (Inl e, w1) \<Rightarrow> (Inl e, w1)
      | (Inr _, w1) \<Rightarrow> finally_decref upd force (stop_body force) w1)"

subsection \<open>Running functions\<close>

definition run :: "upd \<Rightarrow> (world, body_error, 'a) op \<Rightarrow> 'a tcall" where
  "run upd body w =
     (case body w of
        (Inr a, w1) \<Rightarrow> (Inr a, w1)
      | (Inl e, w1) \<Rightarrow>
          (let (code, message) = (case e of StorageError c m \<Rightarrow> (c, m) | OtherError m \<Rightarrow> (100, m) | BaseError \<Rightarrow> (100, ''Unknown Error''));
               err = (case e of BaseError \<Rightarrow> TaskAborted ''Unknown error encountered'' 411 | _ \<Rightarrow> BodyError e)
           in case stop upd False (setError err w1) of
                (Inl e', w2) \<Rightarrow> (Inl e', w2)
              | (Inr _, w2) \<Rightarrow> (Inl (TaskAborted message code), w2)))"

fun jobs_loop :: "env \<Rightarrow> upd \<Rightarrow> nat \<Rightarrow> job list \<Rightarrow> nat \<Rightarrow> pystr \<Rightarrow> (nat \<times> pystr) tcall" where
  "jobs_loop env upd njobs [] i result w = (Inr (i, result), w)"
| "jobs_loop env upd njobs (j # js) i result w =
     (if is_aborting (w_task w) then (Inl (TaskAborted ''shutting down'' 411), w)
      else
        let w1 = updateResult 0 (''running job '' @ fmt_d 0 (int (i + 1)) @ '' of '' @ fmt_d 0 (int njobs)) '''' w
        in case run upd (e_job env j) (log_event (RanJob (j_name j)) w1) of
             (Inl e, w2) \<Rightarrow> (Inl e, w2)
           | (Inr r, w2) \<Rightarrow>
               if is_aborting (w_task w2) then (Inl (TaskAborted ''shutting down'' 411), w2)
               else jobs_loop env upd njobs js (i + 1) (case r of None \<Rightarrow> '''' | Some s \<Rightarrow> s) w2)"

definition run_all_jobs :: "env \<Rightarrow> upd \<Rightarrow> unit tcall" where
  "run_all_jobs env upd w =
     (if is_aborting (w_task w) then (Inl (TaskAborted ''shutting down'' 411), w)
      else if w_state w \<noteq> Running then (Inl (TaskStateError (w_state w)), w)
      else case jobs_loop env upd (length (t_jobs (w_task w))) (t_jobs (w_task w)) 0 '''' w of
             (Inl e, w1) \<Rightarrow> (Inl e, w1)
           | (Inr (i, result), w1) \<Rightarrow>
               upd Finished False (updateResult 0 (fmt_d 0 (int i) @ '' jobs completed successfully'') result w1))"

definition runJobs :: "env \<Rightarrow> upd \<Rightarrow> unit tcall" where
  "runJobs env upd w =
     (case run_all_jobs env upd w of
        (Inl (TaskAborted v code), w1) \<Rightarrow>
          if \<not> is_aborting (w_task w1) then (Inl (TaskAborted v code), w1)
          else (Inr (), updateResult code (aborted_value v code) '''' w1)
      | out \<Rightarrow> out)"

subsection \<open>Recovery\<close>

text \<open>\<open>popRecovery\<close>, and the loop of \<open>_recover\<close>, with fuel because a recovery could push another one.\<close>

definition popRecovery :: "world \<Rightarrow> recovery option \<times> world" where
  "popRecovery w =
     (case t_recoveries (w_task w) of
        [] \<Rightarrow> (None, w)
      | rs \<Rightarrow> (Some (last rs), put_task (\<lambda>t. t\<lparr>t_recoveries := butlast rs\<rparr>) w))"

fun recover_loop :: "env \<Rightarrow> upd \<Rightarrow> nat \<Rightarrow> unit tcall" where
  "recover_loop env upd 0 w = (Inl OutOfFuel, w)"
| "recover_loop env upd (Suc n) w =
     (if w_state w \<noteq> Recovering then (Inr (), w)
      else case popRecovery w of
             (None, w1) \<Rightarrow> (Inr (), w1)
           | (Some r, w1) \<Rightarrow>
               (case run upd (e_recovery env r) (log_event (RanRecovery (r_name r)) w1) of
                  (Inl e, w2) \<Rightarrow> (Inl e, w2)
                | (Inr _, w2) \<Rightarrow> recover_loop env upd n w2))"

fun recoverDone :: "upd \<Rightarrow> nat \<Rightarrow> unit tcall" where
  "recoverDone upd 0 w = (Inl OutOfFuel, w)"
| "recoverDone upd (Suc n) w =
     (case (if w_state w = Recovering then upd Recovered False w
            else if w_state w = Raborting then upd Failed False w
            else (Inr (), w)) of
        (Inl (TaskStateTransitionError _ _), w1) \<Rightarrow> recoverDone upd n w1
      | out \<Rightarrow> out)"

definition recover_failed :: "upd \<Rightarrow> unit tcall" where
  "recover_failed upd w =
     (case (if w_state w = Recovering then upd Raborting False w else (Inr (), w)) of
        (Inl (TaskStateTransitionError _ _), w1) \<Rightarrow> (Inr (), w1)
      | out \<Rightarrow> out)"

definition recover_task :: "env \<Rightarrow> upd \<Rightarrow> nat \<Rightarrow> unit tcall" where
  "recover_task env upd n w =
     (if w_state w \<noteq> Recovering then (Inl (TaskStateError (w_state w)), w)
      else case recover_loop env upd n w of
             (Inl OutOfFuel, w1) \<Rightarrow> (Inl OutOfFuel, w1)
           | (Inl _, w1) \<Rightarrow>
               (case recover_failed upd w1 of (Inl e, w2) \<Rightarrow> (Inl e, w2) | (Inr _, w2) \<Rightarrow> recoverDone upd n w2)
           | (Inr _, w1) \<Rightarrow> recoverDone upd n w1)"

subsection \<open>The state machine\<close>

definition done_task :: "unit tcall" where
  "done_task w =
     (let w1 = log_event ReleasedAll w
      in if t_cleanPolicy (w_task w1) = P_auto then on_store clean w1 else (Inr (), w1))"

definition state_handler :: "env \<Rightarrow> upd \<Rightarrow> nat \<Rightarrow> tstate \<Rightarrow> unit tcall" where
  "state_handler env upd n st w =
     (case st of
        Preparing \<Rightarrow> (Inr (), w)
      | Blocked \<Rightarrow> (Inr (), w)
      | Acquiring \<Rightarrow> upd Queued False w
      | Queued \<Rightarrow> (case e_queue env w of (Inl e, w1) \<Rightarrow> stop upd False (setError e w1) | (Inr _, w1) \<Rightarrow> (Inr (), w1))
      | Running \<Rightarrow> runJobs env upd w
      | Finished \<Rightarrow> done_task w
      | Aborting \<Rightarrow>
          if t_ref (w_task w) > 1 then (Inr (), w)
          else (case t_recoveryPolicy (w_task w) of
                  P_auto \<Rightarrow> upd Racquiring False w
                | P_none \<Rightarrow> upd Failed False w
                | P_manual \<Rightarrow> upd Waitrecover False w)
      | Waitrecover \<Rightarrow> (Inr (), w)
      | Racquiring \<Rightarrow> upd Recovering False w
      | Recovering \<Rightarrow> recover_task env upd n w
      | Raborting \<Rightarrow> if t_ref (w_task w) = 1 then upd Failed False w else (Inr (), w)
      | Recovered \<Rightarrow> done_task w
      | Failed \<Rightarrow> done_task w
      | _ \<Rightarrow> (Inl (TaskStateError st), w))"

definition redirect :: "task \<Rightarrow> tstate \<Rightarrow> tstate" where
  "redirect t st =
     (if t_aborting t then
        if canAbort (t_state t) then Aborting
        else if canAbortRecovery (t_state t) \<and> st \<noteq> Recovered then Raborting
        else st
      else st)"

definition persist_quietly :: "world \<Rightarrow> world" where
  "persist_quietly w = (if t_persistPolicy (w_task w) = P_auto then snd (on_store persist w) else w)"

definition update_state :: "env \<Rightarrow> upd \<Rightarrow> nat \<Rightarrow> upd" where
  "update_state env upd n state force w =
     (let st = redirect (w_task w) state;
          w1 = put_task (\<lambda>t. t\<lparr>t_aborting := False\<rparr>) w
      in case moveto (w_state w1) st force of
           Inl e \<Rightarrow> (Inl e, w1)
         | Inr s \<Rightarrow> state_handler env upd n st (persist_quietly (put_task (\<lambda>t. t\<lparr>t_state := s\<rparr>) w1)))"

fun updateState :: "env \<Rightarrow> nat \<Rightarrow> upd" where
  "updateState env 0 = (\<lambda>state force w. (Inl OutOfFuel, w))"
| "updateState env (Suc n) = update_state env (updateState env n) n"

subsection \<open>The interface of a task\<close>

text \<open>\<open>fuel\<close> bounds the nesting of state changes. The result None has the text it is shown with.\<close>

definition task_stop :: "env \<Rightarrow> nat \<Rightarrow> bool \<Rightarrow> unit tcall" where
  "task_stop env fuel force = stop (updateState env fuel) force"

datatype prepared = Uuid pystr | Result "pystr option"

definition prepare_finish :: "upd \<Rightarrow> int \<Rightarrow> pystr \<Rightarrow> pystr option \<Rightarrow> prepared tcall" where
  "prepare_finish upd code message result w =
     (if is_aborting (w_task w) then
        let w1 = updateResult code (''Task prepare failed: '' @ message) '''' w
        in (Inl (t_error (w_task w1)), w1)
      else if t_jobs (w_task w) \<noteq> [] then
        (case upd Acquiring False w of
           (Inl e, w1) \<Rightarrow> (Inl e, w1)
         | (Inr _, w1) \<Rightarrow>
             if is_aborting (w_task w1) then (Inl (t_error (w_task w1)), w1)
             else (Inr (Uuid (t_id (w_task w1))), w1))
      else
        (case upd Finished False (updateResult 0 ''OK'' (case result of None \<Rightarrow> ''None'' | Some s \<Rightarrow> s) w) of
           (Inl e, w1) \<Rightarrow> (Inl e, w1)
         | (Inr _, w1) \<Rightarrow> (Inr (Result result), w1)))"

definition prepare_body :: "env \<Rightarrow> upd \<Rightarrow> (world, body_error, pystr option) op option \<Rightarrow> prepared tcall" where
  "prepare_body env upd func w =
     (let message = e_err_str env (t_error (w_task w)) in
      case upd Preparing False w of
        (Inl e, w1) \<Rightarrow> (Inl e, w1)
      | (Inr _, w1) \<Rightarrow>
          (case func of
             None \<Rightarrow> prepare_finish upd 0 message None w1
           | Some f \<Rightarrow>
               (case run upd f w1 of
                  (Inr r, w2) \<Rightarrow> prepare_finish upd 0 message r w2
                | (Inl (TaskAborted v code), w2) \<Rightarrow> prepare_finish upd code (aborted_value v code) None w2
                | (Inl e, w2) \<Rightarrow> (Inl e, w2))))"

definition prepare :: "env \<Rightarrow> nat \<Rightarrow> (world, body_error, pystr option) op option \<Rightarrow> prepared tcall" where
  "prepare env fuel func w =
     (case incref False w of
        (Inl _, w1) \<Rightarrow>
          (case doAbort (updateState env fuel) False w1 of (Inl e, w2) \<Rightarrow> (Inl e, w2) | (Inr _, w2) \<Rightarrow> (Inr (Result None), w2))
      | (Inr _, w1) \<Rightarrow> finally_decref (updateState env fuel) False (prepare_body env (updateState env fuel) func) w1)"

definition commit :: "env \<Rightarrow> nat \<Rightarrow> unit tcall" where
  "commit env fuel w =
     (case incref False w of
        (Inl _, w1) \<Rightarrow> doAbort (updateState env fuel) False w1
      | (Inr _, w1) \<Rightarrow> finally_decref (updateState env fuel) False (updateState env fuel Running False) w1)"

definition recover_body :: "env \<Rightarrow> nat \<Rightarrow> unit tcall" where
  "recover_body env fuel w =
     (if state_isDone (w_state w) then (Inr (), w)
      else if canAbort (w_state w) then task_stop env fuel False w
      else if w_state w = Waitrecover then (Inr (), w)
      else if w_state w = Racquiring \<or> w_state w = Recovering then updateState env fuel Racquiring True w
      else task_stop env fuel True w)"

definition task_recover :: "env \<Rightarrow> nat \<Rightarrow> unit tcall" where
  "task_recover env fuel w =
     (case incref True w of
        (Inl _, w1) \<Rightarrow> doAbort (updateState env fuel) True w1
      | (Inr _, w1) \<Rightarrow> finally_decref (updateState env fuel) True (recover_body env fuel) w1)"

definition doRecover :: "env \<Rightarrow> nat \<Rightarrow> unit tcall" where
  "doRecover env fuel w =
     (if t_ref (w_task w) \<noteq> 0 then (Inl TaskHasRefs, w)
      else case updateState env fuel Racquiring False (add_ref 1 w) of (r, w1) \<Rightarrow> (r, add_ref (- 1) w1))"

definition rollback :: "env \<Rightarrow> nat \<Rightarrow> unit tcall" where
  "rollback env fuel w =
     (if t_recoveryPolicy (w_task w) = P_none then (Inr (), w)
      else if \<not> state_isDone (w_state w) then (Inl TaskNotFinished, w)
      else doRecover env fuel w)"

definition task_resourceAcquired :: "env \<Rightarrow> nat \<Rightarrow> unit tcall" where
  "task_resourceAcquired env fuel w =
     (case incref False w of
        (Inl e, w1) \<Rightarrow> (Inl e, w1)
      | (Inr _, w1) \<Rightarrow>
          finally_decref (updateState env fuel) False (\<lambda>w.
            case w_state w of
              Preparing \<Rightarrow> (Inr (), w)
            | Acquiring \<Rightarrow> updateState env fuel Acquiring False w
            | Racquiring \<Rightarrow> updateState env fuel Racquiring False w
            | Blocked \<Rightarrow> updateState env fuel Preparing False w
            | Aborting \<Rightarrow> (Inr (), w)
            | Raborting \<Rightarrow> (Inr (), w)
            | st \<Rightarrow> (Inl (TaskStateError st), w)) w1)"

definition addJob :: "job \<Rightarrow> unit tcall" where
  "addJob j w =
     (if \<not> t_managed (w_task w) then (Inl UnmanagedTask, w)
      else if w_state w \<noteq> Preparing then (Inl (TaskStateError (w_state w)), w)
      else if j_name j = [] then (Inl TaskValueError, w)
      else if j_name j \<in> j_name ` set (t_jobs (w_task w)) then (Inl TaskValueError, w)
      else (Inr (), put_task (\<lambda>t. t\<lparr>t_jobs := t_jobs t @ [j], t_njobs := int (length (t_jobs t @ [j]))\<rparr>) w))"

definition pushRecovery :: "recovery \<Rightarrow> unit tcall" where
  "pushRecovery r w =
     (if r_name r = [] then (Inl TaskValueError, w)
      else if r_name r \<in> r_name ` set (t_recoveries (w_task w)) then (Inl TaskValueError, w)
      else on_store persist (put_task (\<lambda>t. t\<lparr>t_recoveries := t_recoveries t @ [r]\<rparr>) w))"

definition ROLLBACK_SENTINEL :: pystr where "ROLLBACK_SENTINEL = ''rollback sentinel''"

text \<open>The loop of \<open>replaceRecoveries\<close>, on the stack with its top first.\<close>

fun pop_to_sentinel :: "recovery list \<Rightarrow> recovery list" where
  "pop_to_sentinel [] = []"
| "pop_to_sentinel (r # rs) = (if r_name r = ROLLBACK_SENTINEL then rs else pop_to_sentinel rs)"

definition replaceRecoveries :: "recovery \<Rightarrow> unit tcall" where
  "replaceRecoveries r w =
     (if r_name r = [] then (Inl TaskValueError, w)
      else on_store persist (put_task (\<lambda>t. t\<lparr>t_recoveries := rev (pop_to_sentinel (rev (t_recoveries t))) @ [r]\<rparr>) w))"

definition clearRecoveries :: "unit tcall" where
  "clearRecoveries w = on_store persist (put_task (\<lambda>t. t\<lparr>t_recoveries := []\<rparr>) w)"

definition setTag :: "pystr \<Rightarrow> unit tcall" where
  "setTag tag w = (if KEY_SEPARATOR \<in> set tag then (Inl TaskValueError, w) else (Inr (), put_task (\<lambda>t. t\<lparr>t_tag := tag\<rparr>) w))"

definition setManager :: "world \<Rightarrow> world" where
  "setManager = put_task (\<lambda>t. t\<lparr>t_managed := True\<rparr>)"

definition setRecoveryPolicy :: "pystr \<Rightarrow> unit tcall" where
  "setRecoveryPolicy s w =
     (case policy_of s of Inl e \<Rightarrow> (Inl e, w) | Inr p \<Rightarrow> (Inr (), put_task (\<lambda>t. t\<lparr>t_recoveryPolicy := p\<rparr>) w))"

definition deprecated_getStatus :: "task \<Rightarrow> pystr \<times> pystr \<times> pystr \<times> int \<times> pystr" where
  "deprecated_getStatus t =
     (t_id t, DEPRECATED_STATE (t_state t), DEPRECATED_RESULT (t_state t), tr_code (t_result t), tr_message (t_result t))"

definition getDetails :: "task \<Rightarrow> pystr \<times> pystr \<times> pystr \<times> int \<times> pystr \<times> pystr \<times> pystr" where
  "getDetails t =
     (t_id t, t_name t, state_name (t_state t), tr_code (t_result t), tr_message (t_result t), tr_result (t_result t), t_tag t)"

end
