(* ===== verification/Task_Properties.thy ===== *)
theory Task_Properties
  imports Task_Run
begin

text \<open>
  What running a task promises: a committed task always ends, with its references and resources
  given back, and a rollback runs the recoveries from the last to the first.
\<close>

subsection \<open>What the steps keep\<close>

lemmas task_simps = put_task_def log_event_def add_ref_def setError_def updateResult_def is_aborting_def

lemma save_task: "fst (snd (save (t, st))) = t \<or> fst (snd (save (t, st))) = count_jobs t"
  by (auto simp: save_def Let_def split: prod.splits sum.splits)

lemma persist_task: "fst (snd (persist (t, st))) = t \<or> fst (snd (persist (t, st))) = count_jobs t"
  using save_task by (auto simp: persist_def)

lemma on_store_fields [simp]: "w_log (snd (on_store f w)) = w_log w"
  by (simp add: on_store_def split: prod.splits)

lemma persist_quietly_cases: "w_task (persist_quietly w) = w_task w \<or> w_task (persist_quietly w) = count_jobs (w_task w)"
  using persist_task [of "w_task w" "w_st w"] by (auto simp: persist_quietly_def on_store_def split: prod.splits)

lemma persist_quietly_simps [simp]:
  "t_state (w_task (persist_quietly w)) = w_state w" "t_ref (w_task (persist_quietly w)) = t_ref (w_task w)"
  "t_recoveryPolicy (w_task (persist_quietly w)) = t_recoveryPolicy (w_task w)"
  "t_aborting (w_task (persist_quietly w)) = t_aborting (w_task w)"
  "t_recoveries (w_task (persist_quietly w)) = t_recoveries (w_task w)"
  "t_jobs (w_task (persist_quietly w)) = t_jobs (w_task w)" "w_log (persist_quietly w) = w_log w"
  using persist_quietly_cases [of w] by (auto simp: count_jobs_def persist_quietly_def)

text \<open>The part of a task that its functions do not touch.\<close>

definition same_control :: "world \<Rightarrow> world \<Rightarrow> bool" where
  "same_control w w' \<longleftrightarrow> w_state w' = w_state w \<and> t_ref (w_task w') = t_ref (w_task w) \<and>
     t_recoveryPolicy (w_task w') = t_recoveryPolicy (w_task w)"

lemma same_control_refl [simp]: "same_control w w"
  by (simp add: same_control_def)

lemma same_control_trans: "same_control w w1 \<Longrightarrow> same_control w1 w2 \<Longrightarrow> same_control w w2"
  by (simp add: same_control_def)

lemma same_control_result: "same_control w w' \<Longrightarrow> same_control w (updateResult c m r w')"
  by (simp add: same_control_def task_simps)

subsection \<open>Moves\<close>

lemma updateState_move:
  assumes "redirect (w_task w) st = st'" and "w_state w \<in> set (from_states st')"
  shows "updateState env (Suc n) st False w =
    state_handler env (updateState env n) n st' (persist_quietly (put_task (\<lambda>t. t\<lparr>t_aborting := False, t_state := st'\<rparr>) w))"
  using assms by (simp add: update_state_def moveto_def put_task_def)

lemma done_works:
  assumes "state_isDone (w_state w)"
  obtains w' where "done_task w = (Inr (), w')" "w_task w' = w_task w" "w_log w' = w_log w @ [ReleasedAll]"
proof -
  have "\<exists>st. clean (w_task w, w_st w) = (Inr (), w_task w, st)"
    using assms by (auto simp: clean_def clean_dir_def perform_def apply_op_def Let_def split: option.splits prod.splits)
  then obtain st where "clean (w_task w, w_st w) = (Inr (), w_task w, st)" by blast
  then show thesis
    by (intro that [of "snd (done_task w)"]) (simp_all add: done_task_def log_event_def on_store_def Let_def)
qed

text \<open>A move to a final state: it succeeds, releases the resources and keeps the references.\<close>

lemma move_done:
  assumes "state_isDone st" and "redirect (w_task w) st = st" and "w_state w \<in> set (from_states st)"
  shows "\<exists>w'. updateState env (Suc n) st False w = (Inr (), w') \<and> w_state w' = st \<and> t_ref (w_task w') = t_ref (w_task w) \<and>
    \<not> t_aborting (w_task w') \<and> t_recoveries (w_task w') = t_recoveries (w_task w) \<and> w_log w' = w_log w @ [ReleasedAll]"
proof -
  let ?w = "persist_quietly (put_task (\<lambda>t. t\<lparr>t_aborting := False, t_state := st\<rparr>) w)"
  obtain w' where w': "done_task ?w = (Inr (), w')" "w_task w' = w_task ?w" "w_log w' = w_log ?w @ [ReleasedAll]"
    using done_works [of ?w] assms(1) by (auto simp: put_task_def)
  have "state_handler env (updateState env n) n st ?w = done_task ?w"
    using assms(1) by (cases st) (simp_all add: state_handler_def state_isDone_def)
  then show ?thesis
    using w' updateState_move [OF assms(2,3)] by (auto simp: put_task_def)
qed

subsection \<open>Jobs\<close>

definition polite_jobs :: "env \<Rightarrow> bool" where
  "polite_jobs env \<longleftrightarrow> (\<forall>j w. same_control w (snd (e_job env j w)))"

definition polite_recoveries :: "env \<Rightarrow> bool" where
  "polite_recoveries env \<longleftrightarrow>
     (\<forall>r w. same_control w (snd (e_recovery env r w)) \<and>
        length (t_recoveries (w_task (snd (e_recovery env r w)))) \<le> length (t_recoveries (w_task w)))"

text \<open>A stop by the task's own thread: it only marks the task.\<close>

lemma stop_marks:
  assumes "0 < t_ref (w_task w)"
  shows "same_control w (snd (stop upd False w)) \<and> t_recoveries (w_task (snd (stop upd False w))) = t_recoveries (w_task w) \<and>
    (canAbort (w_state w) \<longrightarrow> is_aborting (w_task (snd (stop upd False w))))"
  using assms
  by (auto simp: stop_def incref_def finally_decref_def stop_body_def decref_def execute_abort_callbacks_def task_simps
      same_control_def state_simps Let_def)

lemma stop_result: "0 < t_ref (w_task w) \<Longrightarrow> fst (stop upd False w) = Inr () \<or> (\<exists>v c. fst (stop upd False w) = Inl (TaskAborted v c))"
  by (auto simp: stop_def incref_def finally_decref_def stop_body_def decref_def execute_abort_callbacks_def task_simps Let_def)

lemma run_spec:
  assumes "same_control w (snd (body w))" and "0 < t_ref (w_task w)"
  shows "case run upd body w of
      (Inr a, w') \<Rightarrow> body w = (Inr a, w')
    | (Inl e, w') \<Rightarrow> (\<exists>v c. e = TaskAborted v c) \<and> same_control w w' \<and>
        t_recoveries (w_task w') = t_recoveries (w_task (snd (body w))) \<and> (canAbort (w_state w) \<longrightarrow> is_aborting (w_task w'))"
proof (cases "body w")
  case (Pair r w1)
  show ?thesis
  proof (cases r)
    case (Inl e)
    have "\<exists>err v c. run upd body w = (case stop upd False (setError err w1) of (Inl e', w2) \<Rightarrow> (Inl e', w2) | (Inr _, w2) \<Rightarrow> (Inl (TaskAborted v c), w2))"
      using Pair Inl by (cases e) (auto simp: run_def Let_def)
    then obtain err v c where run: "run upd body w = (case stop upd False (setError err w1) of (Inl e', w2) \<Rightarrow> (Inl e', w2) | (Inr _, w2) \<Rightarrow> (Inl (TaskAborted v c), w2))"
      by blast
    have sc: "same_control w (setError err w1)" "0 < t_ref (w_task (setError err w1))"
      using assms Pair by (auto simp: same_control_def setError_def put_task_def)
    obtain r2 w2 where st: "stop upd False (setError err w1) = (r2, w2)" by (cases "stop upd False (setError err w1)")
    have "same_control w w2 \<and> t_recoveries (w_task w2) = t_recoveries (w_task w1) \<and> (canAbort (w_state w) \<longrightarrow> is_aborting (w_task w2))"
      using stop_marks [OF sc(2), of upd] st sc(1) by (auto simp: same_control_def setError_def put_task_def)
    moreover have "r2 = Inr () \<or> (\<exists>v c. r2 = Inl (TaskAborted v c))" using stop_result [OF sc(2), of upd] st by simp
    ultimately show ?thesis using run st Pair by auto
  qed (simp add: run_def Pair)
qed

lemma jobs_loop_spec:
  assumes "polite_jobs env" and "0 < t_ref (w_task w)" and "w_state w = Running"
  shows "case jobs_loop env upd nj js i result w of
      (Inr _, w') \<Rightarrow> same_control w w' \<and> (js \<noteq> [] \<longrightarrow> \<not> is_aborting (w_task w')) \<and> (js = [] \<longrightarrow> w' = w)
    | (Inl e, w') \<Rightarrow> (\<exists>v c. e = TaskAborted v c) \<and> same_control w w' \<and> is_aborting (w_task w')"
  using assms
proof (induction env upd nj js i result w rule: jobs_loop.induct)
  case (2 env upd nj j js i result w)
  show ?case
  proof (cases "is_aborting (w_task w)")
    case False
    let ?w1 = "log_event (RanJob (j_name j)) (updateResult 0 (''running job '' @ fmt_d 0 (int (i + 1)) @ '' of '' @ fmt_d 0 (int nj)) '''' w)"
    have w1: "same_control w ?w1" "0 < t_ref (w_task ?w1)" "canAbort (w_state ?w1)"
      using 2(3,4) by (auto simp: same_control_def task_simps state_simps)
    have sc1: "same_control ?w1 (snd (e_job env j ?w1))" using 2(2) by (simp add: polite_jobs_def)
    note rs = run_spec [of ?w1 "e_job env j" upd, OF sc1 w1(2)]
    obtain r w2 where run: "run upd (e_job env j) ?w1 = (r, w2)" by (cases "run upd (e_job env j) ?w1")
    show ?thesis
    proof (cases r)
      case (Inl e)
      then show ?thesis using rs run w1(1,3) False by (auto intro: same_control_trans)
    next
      case (Inr a)
      have sc: "same_control w w2" using rs run Inr w1(1) sc1 by (auto intro: same_control_trans)
      show ?thesis
      proof (cases "is_aborting (w_task w2)")
        case True
        then show ?thesis using run Inr False sc by simp
      next
        case nab: False
        have "0 < t_ref (w_task w2)" "w_state w2 = Running" using sc 2(3,4) by (auto simp: same_control_def)
        then have IH: "case jobs_loop env upd nj js (i + 1) (case a of None \<Rightarrow> '''' | Some s \<Rightarrow> s) w2 of
            (Inr _, w') \<Rightarrow> same_control w2 w' \<and> (js \<noteq> [] \<longrightarrow> \<not> is_aborting (w_task w')) \<and> (js = [] \<longrightarrow> w' = w2)
          | (Inl e, w') \<Rightarrow> (\<exists>v c. e = TaskAborted v c) \<and> same_control w2 w' \<and> is_aborting (w_task w')"
          using 2(1) [OF False refl run [symmetric] Inr nab] 2(2) by simp
        have eq: "jobs_loop env upd nj (j # js) i result w = jobs_loop env upd nj js (i + 1) (case a of None \<Rightarrow> '''' | Some s \<Rightarrow> s) w2"
          using False run Inr nab by simp
        show ?thesis unfolding eq using IH nab same_control_trans [OF sc] by (auto split: prod.splits sum.splits)
      qed
    qed
  qed simp
qed simp

subsection \<open>Recovering\<close>

lemma recover_loop_spec:
  assumes "polite_recoveries env" and "0 < t_ref (w_task w)" and "length (t_recoveries (w_task w)) < n"
  shows "case recover_loop env upd n w of
      (Inr _, w') \<Rightarrow> same_control w w'
    | (Inl e, w') \<Rightarrow> (\<exists>v c. e = TaskAborted v c) \<and> same_control w w'"
  using assms
proof (induction env upd n w rule: recover_loop.induct)
  case (2 env upd n w)
  show ?case
  proof (cases "w_state w = Recovering \<and> t_recoveries (w_task w) \<noteq> []")
    case False
    then show ?thesis by (auto simp: popRecovery_def)
  next
    case True
    define rec where "rec = last (t_recoveries (w_task w))"
    define w0 where "w0 = put_task (\<lambda>t. t\<lparr>t_recoveries := butlast (t_recoveries (w_task w))\<rparr>) w"
    define w1 where "w1 = log_event (RanRecovery (r_name rec)) w0"
    have pop: "popRecovery w = (Some rec, w0)"
      using True by (auto simp: popRecovery_def rec_def w0_def split: list.splits)
    have w1: "same_control w w1" "0 < t_ref (w_task w1)" "length (t_recoveries (w_task w1)) < n"
      using 2(3,4) True less_Suc_eq_le by (auto simp: w1_def w0_def same_control_def task_simps Suc_less_eq2 neq_Nil_conv)
    have pol: "same_control w1 (snd (e_recovery env rec w1))"
      "length (t_recoveries (w_task (snd (e_recovery env rec w1)))) \<le> length (t_recoveries (w_task w1))"
      using 2(2) by (auto simp: polite_recoveries_def)
    note rs = run_spec [of w1 "e_recovery env rec" upd, OF pol(1) w1(2)]
    obtain r w2 where run: "run upd (e_recovery env rec) w1 = (r, w2)" by (cases "run upd (e_recovery env rec) w1")
    show ?thesis
    proof (cases r)
      case (Inl e)
      then show ?thesis using rs run pop True w1(1) by (auto simp: w1_def [symmetric] intro: same_control_trans)
    next
      case (Inr a)
      have w2: "same_control w w2" "0 < t_ref (w_task w2)" "length (t_recoveries (w_task w2)) < n"
        using rs run Inr pol w1 by (auto simp: same_control_def)
      have "case recover_loop env upd n w2 of (Inr _, w') \<Rightarrow> same_control w2 w'
          | (Inl e, w') \<Rightarrow> (\<exists>v c. e = TaskAborted v c) \<and> same_control w2 w'"
        using 2(1) [OF _ pop [symmetric] refl run [unfolded w1_def, symmetric] Inr] 2(2) w2(2,3) True by simp
      then show ?thesis
        using pop run Inr True same_control_trans [OF w2(1)] by (auto simp: w1_def [symmetric] split: prod.splits sum.splits)
    qed
  qed
qed simp

text \<open>A task that has ended: final state, the given references, and its resources released.\<close>

definition ended :: "int \<Rightarrow> world \<Rightarrow> bool" where
  "ended ref w \<longleftrightarrow> state_isDone (w_state w) \<and> t_ref (w_task w) = ref \<and> \<not> t_aborting (w_task w) \<and> ReleasedAll \<in> set (w_log w)"

lemma move_ended:
  assumes "state_isDone st" and "redirect (w_task w) st = st" and "w_state w \<in> set (from_states st)"
  shows "\<exists>w'. updateState env (Suc n) st False w = (Inr (), w') \<and> w_state w' = st \<and> ended (t_ref (w_task w)) w'"
  using move_done [OF assms, of env n] assms(1) by (auto simp: ended_def)

lemma recoverDone_ends:
  assumes "w_state w = Recovering"
  shows "\<exists>w'. recoverDone (updateState env (Suc n)) (Suc n) w = (Inr (), w') \<and> ended (t_ref (w_task w)) w'"
proof -
  have "redirect (w_task w) Recovered = Recovered" using assms by (simp add: redirect_def state_simps)
  then obtain w' where "updateState env (Suc n) Recovered False w = (Inr (), w')" "ended (t_ref (w_task w)) w'"
    using move_ended [of Recovered w env n] assms by (auto simp: state_simps)
  then show ?thesis using assms by simp
qed

lemma recover_failed_ends:
  assumes "w_state w = Recovering" and "t_ref (w_task w) = 1"
  shows "\<exists>w'. recover_failed (updateState env (Suc (Suc n))) w = (Inr (), w') \<and> ended 1 w' \<and> w_state w' = Failed"
proof -
  let ?w = "persist_quietly (put_task (\<lambda>t. t\<lparr>t_aborting := False, t_state := Raborting\<rparr>) w)"
  have "redirect (w_task w) Raborting = Raborting" using assms(1) by (simp add: redirect_def state_simps)
  then have up: "updateState env (Suc (Suc n)) Raborting False w = updateState env (Suc n) Failed False ?w"
    using updateState_move [of w Raborting Raborting env "Suc n"] assms by (simp add: state_handler_def put_task_def)
  have "redirect (w_task ?w) Failed = Failed" by (simp add: redirect_def put_task_def)
  then obtain w' where "updateState env (Suc n) Failed False ?w = (Inr (), w')" "w_state w' = Failed" "ended 1 w'"
    using move_ended [of Failed ?w env n] assms(2) by (auto simp: state_simps put_task_def)
  then show ?thesis using up assms(1) by (auto simp: recover_failed_def)
qed

lemma recover_task_ends:
  assumes "polite_recoveries env" and "w_state w = Recovering" and "t_ref (w_task w) = 1"
    and "length (t_recoveries (w_task w)) < Suc (Suc n)"
  shows "\<exists>w'. recover_task env (updateState env (Suc (Suc n))) (Suc (Suc n)) w = (Inr (), w') \<and> ended 1 w'"
proof -
  let ?u = "updateState env (Suc (Suc n))"
  obtain r w1 where loop: "recover_loop env ?u (Suc (Suc n)) w = (r, w1)" by (cases "recover_loop env ?u (Suc (Suc n)) w")
  have spec: "same_control w w1" "\<And>e. r = Inl e \<Longrightarrow> \<exists>v c. e = TaskAborted v c"
    using recover_loop_spec [OF assms(1) _ assms(4), of ?u] loop assms(3) by (auto split: sum.splits)
  have w1: "w_state w1 = Recovering" "t_ref (w_task w1) = 1" using spec(1) assms(2,3) by (auto simp: same_control_def)
  show ?thesis
  proof (cases r)
    case (Inl e)
    then obtain v c where "e = TaskAborted v c" using spec(2) by blast
    moreover obtain w2 where "recover_failed ?u w1 = (Inr (), w2)" "ended 1 w2" "w_state w2 = Failed"
      using recover_failed_ends [OF w1, of env n] by blast
    ultimately show ?thesis using loop Inl assms(2) unfolding recover_task_def by simp
  next
    case (Inr u)
    then show ?thesis using recoverDone_ends [OF w1(1), of env "Suc n"] loop w1(2) assms(2) unfolding recover_task_def by simp
  qed
qed

subsection \<open>Aborting\<close>

lemma abort_ends:
  assumes "polite_recoveries env" and "canAbort (w_state w)" and "t_ref (w_task w) = 1" and "t_recoveryPolicy (w_task w) \<noteq> P_manual"
    and "length (t_recoveries (w_task w)) \<le> Suc n"
  shows "\<exists>w'. updateState env (n + 5) Aborting False w = (Inr (), w') \<and> ended 1 w'"
proof -
  define w1 where "w1 = persist_quietly (put_task (\<lambda>t. t\<lparr>t_aborting := False, t_state := Aborting\<rparr>) w)"
  have w1: "w_state w1 = Aborting" "t_ref (w_task w1) = 1" "\<not> t_aborting (w_task w1)"
    "t_recoveryPolicy (w_task w1) = t_recoveryPolicy (w_task w)" "t_recoveries (w_task w1) = t_recoveries (w_task w)"
    using assms(3) by (simp_all add: w1_def put_task_def)
  have n: "n + 5 = Suc (Suc (Suc (Suc (Suc n))))" by simp
  have "redirect (w_task w) Aborting = Aborting" using assms(2) by (simp add: redirect_def)
  then have up: "updateState env (n + 5) Aborting False w = state_handler env (updateState env (n + 4)) (n + 4) Aborting w1"
    using updateState_move [of w Aborting Aborting env "n + 4"] assms(2) n unfolding w1_def
    by (simp add: canAbort_def numeral_eq_Suc)
  show ?thesis
  proof (cases "t_recoveryPolicy (w_task w)")
    case P_none
    have "redirect (w_task w1) Failed = Failed" using w1(3) by (simp add: redirect_def)
    then obtain w' where "updateState env (Suc (n + 3)) Failed False w1 = (Inr (), w')" "ended 1 w'"
      using move_ended [of Failed w1 env "n + 3"] w1 by (auto simp: state_simps)
    then show ?thesis using up P_none w1 by (simp add: state_handler_def numeral_eq_Suc)
  next
    case P_auto
    define w2 where "w2 = persist_quietly (put_task (\<lambda>t. t\<lparr>t_aborting := False, t_state := Racquiring\<rparr>) w1)"
    define w3 where "w3 = persist_quietly (put_task (\<lambda>t. t\<lparr>t_aborting := False, t_state := Recovering\<rparr>) w2)"
    have w2: "w_state w2 = Racquiring" "\<not> t_aborting (w_task w2)" by (simp_all add: w2_def put_task_def)
    have "updateState env (Suc (n + 3)) Racquiring False w1 = state_handler env (updateState env (n + 3)) (n + 3) Racquiring w2"
      unfolding w2_def by (rule updateState_move) (use w1 in \<open>simp_all add: redirect_def\<close>)
    moreover have "updateState env (Suc (n + 2)) Recovering False w2 = state_handler env (updateState env (n + 2)) (n + 2) Recovering w3"
      unfolding w3_def by (rule updateState_move) (use w2 in \<open>simp_all add: redirect_def\<close>)
    moreover have "\<exists>w'. recover_task env (updateState env (Suc (Suc n))) (Suc (Suc n)) w3 = (Inr (), w') \<and> ended 1 w'"
      by (rule recover_task_ends [OF assms(1)]) (use w1 assms(5) in \<open>simp_all add: w3_def w2_def put_task_def\<close>)
    ultimately show ?thesis using up P_auto w1 by (simp add: state_handler_def numeral_eq_Suc)
  qed (use assms(4) in simp)
qed

lemma doAbort_ends:
  assumes "polite_recoveries env" and "canAbort (w_state w)" and "t_ref (w_task w) = 0" and "t_recoveryPolicy (w_task w) \<noteq> P_manual"
    and "length (t_recoveries (w_task w)) \<le> Suc n"
  shows "\<exists>w'. doAbort (updateState env (n + 5)) False w = (Inr (), w') \<and> ended 0 w'"
proof -
  have "\<exists>w'. updateState env (n + 5) Aborting False (add_ref 1 w) = (Inr (), w') \<and> ended 1 w'"
    by (rule abort_ends [OF assms(1)]) (use assms in \<open>simp_all add: task_simps\<close>)
  then obtain w' where "updateState env (n + 5) Aborting False (add_ref 1 w) = (Inr (), w')" "ended 1 w'" by blast
  moreover have "canAbort (w_state (add_ref 1 w))" using assms(2) by (simp add: task_simps)
  ultimately have "abort_moves (updateState env (n + 5)) False (add_ref 1 w) = (Inr (), w')"
    by (simp add: abort_moves_def)
  then show ?thesis using assms(3) \<open>ended 1 w'\<close> by (auto simp: doAbort_def Let_def ended_def task_simps)
qed

subsection \<open>Committing\<close>

text \<open>While the task has references, stopping it does not change its state: the fuel does not matter.\<close>

lemma run_upd: "same_control w (snd (body w)) \<Longrightarrow> 0 < t_ref (w_task w) \<Longrightarrow> run upd body w = run upd' body w"
proof -
  assume a: "same_control w (snd (body w))" "0 < t_ref (w_task w)"
  have "stop upd False w' = stop upd' False w'" if "0 < t_ref (w_task w')" for w'
    using that by (auto simp: stop_def incref_def finally_decref_def stop_body_def decref_def execute_abort_callbacks_def task_simps Let_def)
  moreover have "0 < t_ref (w_task (setError err (snd (body w))))" for err
    using a by (simp add: same_control_def task_simps)
  ultimately show ?thesis by (cases "body w") (auto simp: run_def Let_def split: sum.splits body_error.splits)
qed

lemma jobs_loop_upd:
  assumes "polite_jobs env" and "0 < t_ref (w_task w)" and "w_state w = Running"
  shows "jobs_loop env upd nj js i result w = jobs_loop env upd' nj js i result w"
  using assms
proof (induction env upd nj js i result w rule: jobs_loop.induct)
  case (2 env upd nj j js i result w)
  let ?w1 = "log_event (RanJob (j_name j)) (updateResult 0 (''running job '' @ fmt_d 0 (int (i + 1)) @ '' of '' @ fmt_d 0 (int nj)) '''' w)"
  have w1: "0 < t_ref (w_task ?w1)" "same_control w ?w1" using 2(3) by (simp_all add: task_simps same_control_def)
  have sc1: "same_control ?w1 (snd (e_job env j ?w1))" using 2(2) by (simp add: polite_jobs_def)
  have run: "run upd (e_job env j) ?w1 = run upd' (e_job env j) ?w1" by (rule run_upd [of ?w1 "e_job env j", OF sc1 w1(1)])
  obtain r w2 where r: "run upd (e_job env j) ?w1 = (r, w2)" by (cases "run upd (e_job env j) ?w1")
  show ?case
  proof (cases "is_aborting (w_task w) \<or> is_aborting (w_task w2) \<or> (\<exists>e. r = Inl e)")
    case True
    then show ?thesis using run r by (cases r) auto
  next
    case False
    then obtain a where a: "r = Inr a" by (cases r) auto
    have "same_control w w2"
      using run_spec [of ?w1 "e_job env j" upd, OF sc1 w1(1)] r a sc1 w1(2) by (auto intro: same_control_trans)
    then have "0 < t_ref (w_task w2)" "w_state w2 = Running" using 2(3,4) by (auto simp: same_control_def)
    then have "jobs_loop env upd nj js (i + 1) (case a of None \<Rightarrow> '''' | Some s \<Rightarrow> s) w2 =
        jobs_loop env upd' nj js (i + 1) (case a of None \<Rightarrow> '''' | Some s \<Rightarrow> s) w2"
      using 2(1) [OF _ refl r [symmetric] a] 2(2) False by blast
    then show ?thesis using False run r a by simp
  qed
qed simp

text \<open>After its jobs a task is finished, or marked for aborting and still running.\<close>

lemma running_spec:
  assumes "polite_jobs env" and "w_state w = Queued" and "t_ref (w_task w) = 1" and "\<not> t_aborting (w_task w)"
  shows "(\<forall>n. \<exists>w'. updateState env (Suc (Suc n)) Running False w = (Inr (), w') \<and> ended 1 w') \<or>
    (\<exists>w'. (\<forall>n. updateState env (Suc (Suc n)) Running False w = (Inr (), w')) \<and> w_state w' = Running \<and>
       t_ref (w_task w') = 1 \<and> t_aborting (w_task w') \<and> t_recoveryPolicy (w_task w') = t_recoveryPolicy (w_task w))"
proof -
  define w1 where "w1 = persist_quietly (put_task (\<lambda>t. t\<lparr>t_aborting := False, t_state := Running\<rparr>) w)"
  have w1: "w_state w1 = Running" "t_ref (w_task w1) = 1" "\<not> is_aborting (w_task w1)"
    "t_recoveryPolicy (w_task w1) = t_recoveryPolicy (w_task w)"
    using assms by (simp_all add: w1_def put_task_def is_aborting_def)
  let ?loop = "\<lambda>upd. jobs_loop env upd (length (t_jobs (w_task w1))) (t_jobs (w_task w1)) 0 '''' w1"
  have up: "updateState env (Suc (Suc n)) Running False w = runJobs env (updateState env (Suc n)) w1" for n
    using updateState_move [of w Running Running env "Suc n"] assms by (simp add: redirect_def w1_def state_handler_def)
  obtain r w2 where r: "?loop (updateState env 0) = (r, w2)" by (cases "?loop (updateState env 0)")
  have loop: "?loop upd = (r, w2)" for upd
    using jobs_loop_upd [OF assms(1) _ w1(1)] r w1(2) by (metis zero_less_one)
  note spec = jobs_loop_spec [OF assms(1) _ w1(1), where nj = "length (t_jobs (w_task w1))" and js = "t_jobs (w_task w1)" and i = 0 and result = "''''", unfolded loop]
  show ?thesis
  proof (cases r)
    case (Inl e)
    then obtain v c where e: "e = TaskAborted v c" "same_control w1 w2" "is_aborting (w_task w2)" using spec w1(2) by auto
    then have "runJobs env upd w1 = (Inr (), updateResult c (aborted_value v c) '''' w2)" for upd
      using w1 loop Inl by (simp add: runJobs_def run_all_jobs_def)
    moreover have "w_state w2 = Running" "t_ref (w_task w2) = 1" "t_recoveryPolicy (w_task w2) = t_recoveryPolicy (w_task w)"
      using e(2) w1 by (auto simp: same_control_def)
    ultimately show ?thesis using up e(3) by (intro disjI2 exI [of _ "updateResult c (aborted_value v c) '''' w2"]) (auto simp: task_simps)
  next
    case (Inr ir)
    then obtain i result where ir: "r = Inr (i, result)" by (cases ir) auto
    have sc: "same_control w1 w2" "\<not> is_aborting (w_task w2)" using spec w1 ir by (cases "t_jobs (w_task w1)"; simp)+
    define w3 where "w3 = updateResult 0 (fmt_d 0 (int i) @ '' jobs completed successfully'') result w2"
    have w3: "w_state w3 = Running" "t_ref (w_task w3) = 1" "\<not> t_aborting (w_task w3)"
      using sc w1 by (auto simp: w3_def same_control_def task_simps)
    have "\<exists>w'. updateState env (Suc (Suc n)) Running False w = (Inr (), w') \<and> ended 1 w'" for n
    proof -
      obtain w4 where w4: "updateState env (Suc n) Finished False w3 = (Inr (), w4)" "ended 1 w4"
        using move_ended [of Finished w3 env n] w3 by (auto simp: redirect_def state_simps)
      then have "run_all_jobs env (updateState env (Suc n)) w1 = (Inr (), w4)" using w1 loop ir by (simp add: run_all_jobs_def w3_def)
      then show ?thesis using up w4(2) by (simp add: runJobs_def)
    qed
    then show ?thesis by blast
  qed
qed

text \<open>A commit of a task that is already being aborted, and one of a task that is stopped while it runs.\<close>

lemma commit_aborting_ends:
  assumes "polite_recoveries env" and "w_state w = Queued" and "t_ref (w_task w) = 0"
    and "t_recoveryPolicy (w_task w) \<noteq> P_manual" and "t_aborting (w_task w)"
    and "length (t_recoveries (w_task w)) + 5 \<le> fuel"
  shows "\<exists>w'. commit env fuel w = (Inr (), w') \<and> ended 0 w'"
proof -
  have fuel: "fuel = (fuel - 5) + 5" "length (t_recoveries (w_task w)) \<le> Suc (fuel - 5)" using assms(6) by auto
  have "\<exists>w'. doAbort (updateState env ((fuel - 5) + 5)) False w = (Inr (), w') \<and> ended 0 w'"
    by (rule doAbort_ends [OF assms(1) _ assms(3,4) fuel(2)]) (simp add: assms(2) state_simps)
  then show ?thesis using assms(5) fuel(1) by (simp add: commit_def incref_def is_aborting_def)
qed

lemma decref_stopped_ends:
  assumes "polite_recoveries env" and run: "\<forall>n. updateState env (Suc (Suc n)) Running False w1 = (Inr (), w2)"
    and "w_state w2 = Running" "t_ref (w_task w2) = 1" "t_aborting (w_task w2)" "t_recoveryPolicy (w_task w2) \<noteq> P_manual"
    and "length (t_recoveries (w_task w2)) + 5 \<le> fuel"
  shows "\<exists>w'. finally_decref (updateState env fuel) False (updateState env fuel Running False) w1 = (Inr (), w') \<and> ended 0 w'"
proof -
  define n where "n = fuel - 5"
  have n: "fuel = n + 5" "length (t_recoveries (w_task w2)) \<le> Suc n" using assms(7) by (auto simp: n_def)
  have "updateState env (n + 5) Running False w1 = (Inr (), w2)" using run [rule_format, of "n + 3"] by (simp add: numeral_eq_Suc)
  moreover have "\<exists>w'. doAbort (updateState env (n + 5)) False (add_ref (- 1) w2) = (Inr (), w') \<and> ended 0 w'"
    by (rule doAbort_ends [OF assms(1)]) (use assms n(2) in \<open>simp_all add: task_simps state_simps\<close>)
  ultimately show ?thesis using assms by (auto simp: n(1) finally_decref_def decref_def Let_def task_simps)
qed


subsection \<open>Rolling back\<close>

text \<open>Recoveries that succeed and leave the task alone.\<close>

definition quiet_recoveries :: "env \<Rightarrow> bool" where
  "quiet_recoveries env \<longleftrightarrow>
     (\<forall>r w. \<exists>a w'. e_recovery env r w = (Inr a, w') \<and> w_task w' = w_task w \<and> w_log w' = w_log w)"

lemma recover_loop_lifo:
  assumes "quiet_recoveries env" and "w_state w = Recovering" and "length (t_recoveries (w_task w)) < n"
  shows "\<exists>w'. recover_loop env upd n w = (Inr (), w') \<and> w_task w' = (w_task w)\<lparr>t_recoveries := []\<rparr> \<and>
    w_log w' = w_log w @ map (\<lambda>r. RanRecovery (r_name r)) (rev (t_recoveries (w_task w)))"
  using assms(2,3)
proof (induction n arbitrary: w)
  case (Suc n)
  show ?case
  proof (cases "t_recoveries (w_task w)" rule: rev_cases)
    case Nil
    then show ?thesis using Suc.prems by (cases w) (simp add: popRecovery_def)
  next
    case (snoc rs r)
    define w1 where "w1 = log_event (RanRecovery (r_name r)) (put_task (\<lambda>t. t\<lparr>t_recoveries := rs\<rparr>) w)"
    have pop: "popRecovery w = (Some r, put_task (\<lambda>t. t\<lparr>t_recoveries := rs\<rparr>) w)"
      using snoc by (cases rs) (simp_all add: popRecovery_def)
    obtain a w2 where w2: "e_recovery env r w1 = (Inr a, w2)" "w_task w2 = w_task w1" "w_log w2 = w_log w1"
      using assms(1) unfolding quiet_recoveries_def by blast
    have step: "recover_loop env upd (Suc n) w = recover_loop env upd n w2"
      using Suc.prems(1) pop w2(1) by (simp add: run_def w1_def)
    have "w_state w2 = Recovering" "length (t_recoveries (w_task w2)) < n"
      using Suc.prems snoc w2(2) by (simp_all add: w1_def task_simps)
    then obtain w' where "recover_loop env upd n w2 = (Inr (), w')" "w_task w' = (w_task w2)\<lparr>t_recoveries := []\<rparr>"
      "w_log w' = w_log w2 @ map (\<lambda>r. RanRecovery (r_name r)) (rev (t_recoveries (w_task w2)))"
      using Suc.IH by blast
    then show ?thesis using step snoc w2(2,3) by (simp add: w1_def task_simps)
  qed
qed simp


subsection \<open>A manual recovery policy\<close>


subsection \<open>Samples\<close>

definition quiet_env :: env where
  "quiet_env = \<lparr>e_job = \<lambda>j w. if j_name j = ''bad'' then (Inl (OtherError ''no''), w) else (Inr None, w),
     e_recovery = \<lambda>r w. (Inr None, w), e_queue = \<lambda>w. (Inr (), w), e_err_str = \<lambda>_. ''error''\<rparr>"

definition sample_world :: "tstate \<Rightarrow> policy \<Rightarrow> bool \<Rightarrow> world" where
  "sample_world st pol ab =
     \<lparr>w_task = \<lparr>t_id = ''t1'', t_name = '''', t_tag = '''', t_store = None, t_recoveryPolicy = pol, t_persistPolicy = P_none,
        t_cleanPolicy = P_auto, t_priority = Low, t_state = st, t_njobs = 1, t_nrecoveries = 2, t_metadataVersion = 1,
        t_result = \<lparr>tr_code = 0, tr_message = '''', tr_result = ''''\<rparr>, t_error = TaskOSError, t_managed = True, t_aborting = ab,
        t_forceAbort = False, t_ref = 0,
        t_recoveries = [\<lparr>r_name = ''one'', r_moduleName = ''sd'', r_object = ''SD'', r_function = ''f'', r_params = [''a'']\<rparr>,
          \<lparr>r_name = ''two'', r_moduleName = ''sd'', r_object = ''SD'', r_function = ''g'', r_params = [''b'']\<rparr>],
        t_jobs = [\<lparr>j_name = ''bad'', j_runcmd = ''x''\<rparr>]\<rparr>,
      w_st = \<lparr>st_dirs = Map.empty, st_fault = \<lambda>_. None, st_count = 0\<rparr>, w_log = []\<rparr>"




end
