(* ===== verification/Task_Manager.thy ===== *)
theory Task_Manager
  imports Task_Properties "HOL-Library.AList"
begin

text \<open>
  \<^verbatim>\<open>lib/vdsm/storage/threadPool.py\<close> and \<^verbatim>\<open>lib/vdsm/storage/taskManager.py\<close>: the queue of tasks with its
  workers, and the table of managed tasks. A call that has to wait for room in the queue, or for
  a task in it, gives None.
\<close>

subsection \<open>Thread pool\<close>

datatype tp_method = CommitTask | RecoverTask

record thread_pool =
  tp_tasks :: "(pystr \<times> tp_method) list"
  tp_maxTasks :: nat
  tp_isJoining :: bool
  tp_runningTasks :: int
  tp_dying :: "bool list"

definition new_pool :: "nat \<Rightarrow> nat \<Rightarrow> thread_pool" where
  "new_pool numThreads maxTasks =
     \<lparr>tp_tasks = [], tp_maxTasks = maxTasks, tp_isJoining = False, tp_runningTasks = 0, tp_dying = replicate numThreads False\<rparr>"

definition tp_queueTask :: "pystr \<Rightarrow> tp_method \<Rightarrow> thread_pool \<Rightarrow> (bool \<times> thread_pool) option" where
  "tp_queueTask tid method p =
     (if tp_isJoining p then Some (False, p)
      else if 0 < tp_maxTasks p \<and> tp_maxTasks p \<le> length (tp_tasks p) then None
      else Some (True, p\<lparr>tp_tasks := tp_tasks p @ [(tid, method)]\<rparr>))"

text \<open>A worker waits for a task with a timeout: with an empty queue it gets nothing.\<close>

definition getNextTask :: "thread_pool \<Rightarrow> (pystr \<times> tp_method) option \<times> thread_pool" where
  "getNextTask p = (case tp_tasks p of [] \<Rightarrow> (None, p) | t # ts \<Rightarrow> (Some t, p\<lparr>tp_tasks := ts\<rparr>))"

datatype worker_result = Idle | Ran pystr tp_method | WorkerAttributeError

text \<open>
  \<open>_processNextTask\<close> of worker \<open>k\<close>, which may be told to go away while it waits in \<open>getNextTask\<close>:
  \<open>told\<close> says so. Putting the task back reads \<open>self.__pool.__tasks\<close>, whose name is mangled with the
  class of the worker and is not an attribute of the pool.
\<close>

definition processNextTask :: "nat \<Rightarrow> bool \<Rightarrow> thread_pool \<Rightarrow> worker_result \<times> thread_pool" where
  "processNextTask k told p =
     (let p0 = (if told then p\<lparr>tp_dying := (tp_dying p)[k := True]\<rparr> else p)
      in case getNextTask p0 of
           (None, p1) \<Rightarrow> (Idle, p1)
         | (Some (tid, method), p1) \<Rightarrow>
             if tp_dying p1 ! k then (WorkerAttributeError, p1)
             else (Ran tid method, p1))"

definition task_started :: "thread_pool \<Rightarrow> thread_pool" where
  "task_started p = p\<lparr>tp_runningTasks := tp_runningTasks p + 1\<rparr>"

definition task_finished :: "thread_pool \<Rightarrow> thread_pool" where
  "task_finished p = p\<lparr>tp_runningTasks := tp_runningTasks p - 1\<rparr>"

text \<open>\<open>joinAll\<close>: with \<open>wait\<close> it tells every worker to go away and forgets them when they have ended.\<close>

definition joinAll :: "bool \<Rightarrow> thread_pool \<Rightarrow> thread_pool" where
  "joinAll wait p = (let p1 = p\<lparr>tp_isJoining := True\<rparr> in if wait then p1\<lparr>tp_dying := []\<rparr> else p1)"

subsection \<open>Task manager\<close>

record task_manager =
  tm_tasks :: "(pystr \<times> world) list"
  tm_unqueued :: "world list"
  tm_pool :: thread_pool

abbreviation w_id :: "world \<Rightarrow> pystr" where
  "w_id w \<equiv> t_id (w_task w)"

definition new_task_manager :: "nat \<Rightarrow> nat \<Rightarrow> task_manager" where
  "new_task_manager tpSize maxTasks = \<lparr>tm_tasks = [], tm_unqueued = [], tm_pool = new_pool tpSize maxTasks\<rparr>"

definition queueTask :: "world \<Rightarrow> tp_method \<Rightarrow> task_manager \<Rightarrow> ((task_error + pystr) \<times> task_manager) option" where
  "queueTask w method m =
     (if map_of (tm_tasks m) (w_id w) \<noteq> None then Some (Inl AddTaskError, m)
      else
        let m1 = m\<lparr>tm_tasks := tm_tasks m @ [(w_id w, w)]\<rparr>
        in case tp_queueTask (w_id w) method (tm_pool m1) of
             None \<Rightarrow> None
           | Some (False, p) \<Rightarrow> Some (Inl AddTaskError, m1\<lparr>tm_tasks := AList.delete (w_id w) (tm_tasks m1), tm_pool := p\<rparr>)
           | Some (True, p) \<Rightarrow> Some (Inr (w_id w), m1\<lparr>tm_pool := p\<rparr>))"

definition queue :: "world \<Rightarrow> task_manager \<Rightarrow> ((task_error + pystr) \<times> task_manager) option" where
  "queue w = queueTask w CommitTask"

definition queueRecovery :: "world \<Rightarrow> task_manager \<Rightarrow> ((task_error + pystr) \<times> task_manager) option" where
  "queueRecovery w = queueTask w RecoverTask"

definition scheduleJob :: "pystr \<Rightarrow> pystr option \<Rightarrow> job \<Rightarrow> unit tcall" where
  "scheduleJob typ store j =
     obind (setTag typ) (\<lambda>_.
     obind (case store of None \<Rightarrow> ret () | Some s \<Rightarrow> on_store (setPersistence s P_auto P_manual)) (\<lambda>_.
     obind (\<lambda>w. (Inr (), setManager w)) (\<lambda>_.
     obind (setRecoveryPolicy ''auto'') (\<lambda>_. addJob j))))"

definition getTask :: "pystr \<Rightarrow> task_manager \<Rightarrow> task_error + world" where
  "getTask taskID m =
     rbind (validateID taskID) (\<lambda>_. case map_of (tm_tasks m) taskID of None \<Rightarrow> Inl UnknownTask | Some w \<Rightarrow> Inr w)"

definition prepareForShutdown :: "bool \<Rightarrow> task_manager \<Rightarrow> task_manager" where
  "prepareForShutdown wait m = m\<lparr>tm_pool := joinAll wait (tm_pool m)\<rparr>"

definition getTaskStatus :: "pystr \<Rightarrow> task_manager \<Rightarrow> task_error + pystr \<times> pystr \<times> pystr \<times> int \<times> pystr" where
  "getTaskStatus taskID m = rbind (getTask taskID m) (\<lambda>w. Inr (deprecated_getStatus (w_task w)))"

text \<open>\<open>not tag or tag in task.getTags()\<close>: a part of the tag is enough.\<close>

definition has_tag :: "pystr \<Rightarrow> world \<Rightarrow> bool" where
  "has_tag tag w \<longleftrightarrow> tag = [] \<or> find_sub tag (t_tag (w_task w)) \<noteq> None"

definition getAllTasksStatuses :: "pystr \<Rightarrow> task_manager \<Rightarrow> (pystr \<times> pystr \<times> pystr \<times> pystr \<times> int \<times> pystr) list" where
  "getAllTasksStatuses tag m =
     map (\<lambda>(tid, w). (tid, deprecated_getStatus (w_task w))) (filter (\<lambda>(_, w). has_tag tag w) (tm_tasks m))"

definition getAllTasks :: "task_manager \<Rightarrow> (pystr \<times> pystr \<times> pystr \<times> pystr \<times> int \<times> pystr \<times> pystr \<times> pystr) list" where
  "getAllTasks m = map (\<lambda>(tid, w). (tid, getDetails (w_task w))) (tm_tasks m)"

definition unloadTasks :: "pystr \<Rightarrow> task_manager \<Rightarrow> task_manager" where
  "unloadTasks tag m = m\<lparr>tm_tasks := filter (\<lambda>(_, w). \<not> has_tag tag w) (tm_tasks m)\<rparr>"

text \<open>A call of a method of a managed task.\<close>

definition call_task :: "pystr \<Rightarrow> unit tcall \<Rightarrow> (task_manager, task_error, unit) op" where
  "call_task taskID f m =
     (case getTask taskID m of
        Inl e \<Rightarrow> (Inl e, m)
      | Inr w \<Rightarrow> (case f w of (r, w') \<Rightarrow> (r, m\<lparr>tm_tasks := AList.update taskID w' (tm_tasks m)\<rparr>)))"

definition stopTask :: "env \<Rightarrow> nat \<Rightarrow> pystr \<Rightarrow> bool \<Rightarrow> (task_manager, task_error, unit) op" where
  "stopTask env fuel taskID force = call_task taskID (task_stop env fuel force)"

definition revertTask :: "env \<Rightarrow> nat \<Rightarrow> pystr \<Rightarrow> (task_manager, task_error, unit) op" where
  "revertTask env fuel taskID = call_task taskID (rollback env fuel)"

definition clearTask :: "pystr \<Rightarrow> (task_manager, task_error, unit) op" where
  "clearTask taskID m =
     (case call_task taskID (on_store clean) m of
        (Inl e, m1) \<Rightarrow> (Inl e, m1)
      | (Inr _, m1) \<Rightarrow> (Inr (), m1\<lparr>tm_tasks := AList.delete taskID (tm_tasks m1)\<rparr>))"

definition getTaskInfo :: "pystr \<Rightarrow> task_manager \<Rightarrow> task_error + pystr \<times> pystr" where
  "getTaskInfo taskID m = rbind (getTask taskID m) (\<lambda>w. Inr (t_id (w_task w), t_name (w_task w)))"

definition getAllTasksInfo :: "pystr \<Rightarrow> task_manager \<Rightarrow> (pystr \<times> pystr \<times> pystr) list" where
  "getAllTasksInfo tag m =
     map (\<lambda>(tid, w). (tid, t_id (w_task w), t_name (w_task w))) (filter (\<lambda>(_, w). has_tag tag w) (tm_tasks m))"

text \<open>
  \<open>os.path.splitext(name)[0]\<close>: the name up to its last dot, unless only dots come before it.
\<close>

definition splitext_root :: "pystr \<Rightarrow> pystr" where
  "splitext_root name =
     (let root = rev (tl (dropWhile (\<lambda>c. c \<noteq> CHR ''.'') (rev name)))
      in if CHR ''.'' \<in> set name \<and> (\<exists>c \<in> set root. c \<noteq> CHR ''.'') then root else name)"

definition load_dumped :: "pystr \<Rightarrow> pystr \<Rightarrow> storage \<Rightarrow> pystr \<Rightarrow> task_error + world" where
  "load_dumped uuid store st taskID =
     rbind (loadTask uuid (st_dirs st) taskID) (\<lambda>t.
       case setPersistence store (t_persistPolicy t) (t_cleanPolicy t) (t, st) of
         (Inl e, _) \<Rightarrow> Inl e
       | (Inr _, t', st') \<Rightarrow> Inr \<lparr>w_task = t', w_st = st', w_log = []\<rparr>)"

definition loadDumpedTasks :: "pystr \<Rightarrow> pystr \<Rightarrow> storage \<Rightarrow> pystr list \<Rightarrow> task_manager \<Rightarrow> task_manager" where
  "loadDumpedTasks uuid store st names m =
     m\<lparr>tm_unqueued := tm_unqueued m @
        concat (map (\<lambda>tid. case load_dumped uuid store st tid of Inl _ \<Rightarrow> [] | Inr w \<Rightarrow> [w]) (remdups (map splitext_root names)))\<rparr>"

fun recover_each :: "world list \<Rightarrow> task_manager \<Rightarrow> ((task_error + unit) \<times> task_manager) option" where
  "recover_each [] m = Some (Inr (), m)"
| "recover_each (w # ws) m =
     (case queueRecovery w m of
        None \<Rightarrow> None
      | Some (Inl e, m1) \<Rightarrow> Some (Inl e, m1)
      | Some (Inr _, m1) \<Rightarrow> recover_each ws (m1\<lparr>tm_unqueued := remove1 w (tm_unqueued m1)\<rparr>))"

definition recoverDumpedTasks :: "task_manager \<Rightarrow> ((task_error + unit) \<times> task_manager) option" where
  "recoverDumpedTasks m = recover_each (tm_unqueued m) m"

subsection \<open>Registered tasks\<close>

text \<open>
  The table of tasks and the queue of the pool agree: queueing either registers the task and
  puts it at the end of the queue, or raises and leaves the manager as it was; a task whose
  identifier is in use is never queued twice.
\<close>

theorem queue_registers_once:
  assumes "queueTask w method m = Some (r, m')"
  shows "case r of
      Inl e \<Rightarrow> e = AddTaskError \<and> m' = m
    | Inr tid \<Rightarrow> tid = w_id w \<and> map_of (tm_tasks m) tid = None \<and> map_of (tm_tasks m') tid = Some w \<and>
        tp_tasks (tm_pool m') = tp_tasks (tm_pool m) @ [(tid, method)] \<and>
        (\<forall>k. k \<noteq> tid \<longrightarrow> map_of (tm_tasks m') k = map_of (tm_tasks m) k)"
proof (cases "map_of (tm_tasks m) (w_id w)")
  case None
  then have "w_id w \<notin> fst ` set (tm_tasks m)" by (simp add: map_of_eq_None_iff)
  then have "AList.delete (w_id w) (tm_tasks m @ [(w_id w, w)]) = tm_tasks m"
    by (simp add: AList.delete_eq filter_id_conv) force
  then show ?thesis
    using assms None by (auto simp: queueTask_def tp_queueTask_def Let_def map_add_def split: if_splits option.splits)
qed (use assms in \<open>auto simp: queueTask_def\<close>)

theorem queue_registers_once_witness:
  "\<exists>m'. queueTask (sample_world Init P_auto False) CommitTask (new_task_manager 2 10) = Some (Inr ''t1'', m') \<and>
    map_of (tm_tasks m') ''t1'' = Some (sample_world Init P_auto False)"
proof -
  let ?q = "queueTask (sample_world Init P_auto False) CommitTask (new_task_manager 2 10)"
  have "\<exists>m'. ?q = Some (Inr ''t1'', m')"
    by (simp add: queueTask_def new_task_manager_def new_pool_def tp_queueTask_def sample_world_def Let_def)
  then obtain m' where m': "?q = Some (Inr ''t1'', m')" by blast
  have "map_of (tm_tasks m') ''t1'' = Some (sample_world Init P_auto False)"
    using queue_registers_once [OF m'] unfolding sum.case by blast
  then show ?thesis using m' by blast
qed

end
