(* ===== verification/Persistent.thy ===== *)
theory Persistent
  imports Vdsm_Text "HOL-Library.AList" "HOL-Library.Char_ord" "HOL-Library.List_Lexorder" "HOL-Library.Product_Lexorder"
begin

text \<open>
  \<^verbatim>\<open>lib/vdsm/storage/persistent.py\<close>: the metadata of a storage domain as a dict that is kept in memory,
  sealed with a checksum and written back when a transaction ends. A dict is the list of its items
  with distinct keys. The lock of the class makes every operation one step. SHA-1 and the
  reader and writer of the lines are parameters; the two writers of the repository are in
  the theory \<open>Metadata_Rw\<close>.
\<close>

subsection \<open>Lines\<close>

type_synonym md = "(pystr \<times> pystr) list"

datatype pd_error =
    PKeyError pystr
  | MetaDataSealIsBroken pystr pystr
  | POSError int
  | PUnicodeError
  | VolumeGroupReplaceTagError
  | OtherError nat

definition SHA_CKSUM_TAG :: pystr where
  "SHA_CKSUM_TAG = ''_SHA_CKSUM''"

definition format_line :: "pystr \<Rightarrow> pystr \<Rightarrow> pystr" where
  "format_line key value = key @ ''='' @ value"

definition dump_lines :: "md \<Rightarrow> pystr list" where
  "dump_lines md = map (\<lambda>(key, value). format_line key value) (sort md)"

text \<open>\<open>line.encode('ascii', 'xmlcharrefreplace')\<close>.\<close>

definition xmlcharref :: "char \<Rightarrow> bytes" where
  "xmlcharref c =
     (let n = (of_char c :: nat) in if n < 128 then [c] else ''&#'' @ fmt_d 0 (int n) @ '';'')"

definition calc_checksum :: "(bytes \<Rightarrow> pystr) \<Rightarrow> pystr list \<Rightarrow> pystr" where
  "calc_checksum sha1 ls = sha1 (concat (map (\<lambda>line. concat (map xmlcharref line)) ls))"

definition parse_line :: "md \<Rightarrow> pystr \<Rightarrow> md" where
  "parse_line md line =
     (case split_once (CHR ''='') line of
        None \<Rightarrow> md
      | Some (key, value) \<Rightarrow> AList.update (str_strip key) value md)"

definition parse_lines :: "pystr list \<Rightarrow> md" where
  "parse_lines ls = foldl parse_line [] ls"

subsection \<open>The dict\<close>

record 's pdict =
  pd_metadata :: md
  pd_isValid :: bool
  pd_inTransaction :: bool
  pd_rw :: 's

record 's pd_env =
  e_sha1 :: "bytes \<Rightarrow> pystr"
  e_readlines :: "('s, pd_error, pystr list) op"
  e_writelines :: "pystr list \<Rightarrow> ('s, pd_error, unit) op"

type_synonym ('s, 'a) pd_op = "('s pdict, pd_error, 'a) op"

text \<open>A new object over the reader and writer in the state \<open>w\<close>.\<close>

definition new_pdict :: "'s \<Rightarrow> 's pdict" where
  "new_pdict w = \<lparr>pd_metadata = [], pd_isValid = False, pd_inTransaction = False, pd_rw = w\<rparr>"

text \<open>Equality of dicts does not see the order of the items.\<close>

definition dict_eq :: "md \<Rightarrow> md \<Rightarrow> bool" where
  "dict_eq a b \<longleftrightarrow> set a = set b"

definition load_md :: "md \<Rightarrow> ('s, unit) pd_op" where
  "load_md md s = (Inr (), s\<lparr>pd_isValid := True, pd_metadata := md\<rparr>)"

definition pd_refresh :: "'s pd_env \<Rightarrow> ('s, unit) pd_op" where
  "pd_refresh env s =
     (case e_readlines env (pd_rw s) of
        (Inl e, w) \<Rightarrow> (Inl e, s\<lparr>pd_rw := w\<rparr>)
      | (Inr ls, w) \<Rightarrow>
          (let s' = s\<lparr>pd_rw := w\<rparr>;
               parsed = parse_lines ls;
               declared = map_of parsed SHA_CKSUM_TAG;
               newMD = AList.delete SHA_CKSUM_TAG parsed in
           if newMD = [] then load_md newMD s'
           else case declared of
                  None \<Rightarrow> load_md newMD s'
                | Some seal \<Rightarrow>
                    (let computed = calc_checksum (e_sha1 env) (dump_lines newMD) in
                     if seal \<noteq> computed then (Inl (MetaDataSealIsBroken seal computed), s')
                     else load_md newMD s')))"

definition sealed_lines :: "(bytes \<Rightarrow> pystr) \<Rightarrow> md \<Rightarrow> pystr list" where
  "sealed_lines sha1 md =
     dump_lines md @ [format_line SHA_CKSUM_TAG (calc_checksum sha1 (dump_lines md))]"

definition pd_flush :: "'s pd_env \<Rightarrow> md \<Rightarrow> ('s, unit) pd_op" where
  "pd_flush env md s =
     (case e_writelines env (sealed_lines (e_sha1 env) md) (pd_rw s) of
        (Inl e, w) \<Rightarrow> (Inl e, s\<lparr>pd_rw := w\<rparr>)
      | (Inr _, w) \<Rightarrow> (Inr (), s\<lparr>pd_rw := w, pd_metadata := md, pd_isValid := True\<rparr>))"

definition accessWrapper :: "'s pd_env \<Rightarrow> ('s, 'a) pd_op \<Rightarrow> ('s, 'a) pd_op" where
  "accessWrapper env body s =
     (if \<not> pd_isValid s then obind (pd_refresh env) (\<lambda>_. body) s else body s)"

text \<open>
  The body of the outermost transaction: a body that raises and a flush that raises roll the dict
  back to the backup.
\<close>

definition guarded_body :: "'s pd_env \<Rightarrow> ('s, 'a) pd_op \<Rightarrow> ('s, 'a) pd_op" where
  "guarded_body env body s =
     (let backup = pd_metadata s in
      case body s of
        (Inl e, s') \<Rightarrow> (Inl e, s'\<lparr>pd_metadata := backup\<rparr>)
      | (Inr a, s') \<Rightarrow>
          (if dict_eq backup (pd_metadata s') then (Inr a, s')
           else case pd_flush env (pd_metadata s') s' of
                  (Inl e, s'') \<Rightarrow> (Inl e, s''\<lparr>pd_metadata := backup\<rparr>)
                | (Inr _, s'') \<Rightarrow> (Inr a, s'')))"

definition transaction :: "'s pd_env \<Rightarrow> ('s, 'a) pd_op \<Rightarrow> ('s, 'a) pd_op" where
  "transaction env body s =
     (if pd_inTransaction s then body s
      else case accessWrapper env (guarded_body env body) (s\<lparr>pd_inTransaction := True\<rparr>) of
             (r, s') \<Rightarrow> (r, s'\<lparr>pd_inTransaction := False\<rparr>))"

definition pd_get :: "'s pd_env \<Rightarrow> pystr \<Rightarrow> ('s, pystr option) pd_op" where
  "pd_get env key = accessWrapper env (\<lambda>s. (Inr (map_of (pd_metadata s) key), s))"

definition pd_getitem :: "'s pd_env \<Rightarrow> pystr \<Rightarrow> ('s, pystr) pd_op" where
  "pd_getitem env key = accessWrapper env (\<lambda>s.
     (case map_of (pd_metadata s) key of None \<Rightarrow> Inl (PKeyError key) | Some v \<Rightarrow> Inr v, s))"

definition pd_setitem :: "'s pd_env \<Rightarrow> pystr \<Rightarrow> pystr \<Rightarrow> ('s, unit) pd_op" where
  "pd_setitem env key value = transaction env (\<lambda>s.
     (Inr (), s\<lparr>pd_metadata := AList.update key value (pd_metadata s)\<rparr>))"

definition pd_delitem :: "'s pd_env \<Rightarrow> pystr \<Rightarrow> ('s, unit) pd_op" where
  "pd_delitem env key = transaction env (\<lambda>s.
     if map_of (pd_metadata s) key = None then (Inl (PKeyError key), s)
     else (Inr (), s\<lparr>pd_metadata := AList.delete key (pd_metadata s)\<rparr>))"

definition dict_update :: "md \<Rightarrow> md \<Rightarrow> md" where
  "dict_update md items = foldl (\<lambda>m (k, v). AList.update k v m) md items"

definition pd_update :: "'s pd_env \<Rightarrow> md \<Rightarrow> ('s, unit) pd_op" where
  "pd_update env metadata = transaction env (\<lambda>s.
     (Inr (), s\<lparr>pd_metadata := dict_update (pd_metadata s) metadata\<rparr>))"

definition pd_iter :: "'s pd_env \<Rightarrow> ('s, pystr list) pd_op" where
  "pd_iter env = accessWrapper env (\<lambda>s. (Inr (map fst (pd_metadata s)), s))"

definition pd_invalidate :: "('s, unit) pd_op" where
  "pd_invalidate s = (Inr (), s\<lparr>pd_isValid := False\<rparr>)"

definition pd_len :: "'s pd_env \<Rightarrow> ('s, nat) pd_op" where
  "pd_len env = accessWrapper env (\<lambda>s. (Inr (length (pd_metadata s)), s))"

definition pd_contains :: "'s pd_env \<Rightarrow> pystr \<Rightarrow> ('s, bool) pd_op" where
  "pd_contains env item = accessWrapper env (\<lambda>s. (Inr (item \<in> fst ` set (pd_metadata s)), s))"

definition pd_copy :: "'s pd_env \<Rightarrow> ('s, md) pd_op" where
  "pd_copy env = accessWrapper env (\<lambda>s. (Inr (pd_metadata s), s))"

definition pd_clear :: "'s pd_env \<Rightarrow> ('s, unit) pd_op" where
  "pd_clear env = transaction env (\<lambda>s. (Inr (), s\<lparr>pd_metadata := []\<rparr>))"

subsection \<open>The validator\<close>

text \<open>
  The allowed keys, by name or by a pattern (whose \<open>match\<close> is a function here), each with the decoder
  and the encoder of its values.
\<close>

datatype ventry = Name pystr | Pattern "pystr \<Rightarrow> bool"

type_synonym 'v codec = "(pystr \<Rightarrow> pd_error + 'v) \<times> ('v \<Rightarrow> pd_error + pystr)"
type_synonym 'v validators = "(ventry \<times> 'v codec) list"

fun by_name :: "'v validators \<Rightarrow> pystr \<Rightarrow> 'v codec option" where
  "by_name [] key = None"
| "by_name ((Name n, c) # vs) key = (if n = key then Some c else by_name vs key)"
| "by_name ((Pattern m, c) # vs) key = by_name vs key"

fun matching :: "'v validators \<Rightarrow> pystr \<Rightarrow> 'v codec option" where
  "matching [] key = None"
| "matching ((Name n, c) # vs) key = matching vs key"
| "matching ((Pattern m, c) # vs) key = (if m key then Some c else matching vs key)"

definition validator :: "'v validators \<Rightarrow> pystr \<Rightarrow> pd_error + 'v codec" where
  "validator vd key =
     (case by_name vd key of
        Some c \<Rightarrow> Inr c
      | None \<Rightarrow> (case matching vd key of Some c \<Rightarrow> Inr c | None \<Rightarrow> Inl (PKeyError key)))"

definition dv_encoder :: "'v validators \<Rightarrow> pystr \<Rightarrow> pd_error + ('v \<Rightarrow> pd_error + pystr)" where
  "dv_encoder vd key = rbind (validator vd key) (\<lambda>c. Inr (snd c))"

definition dv_decoder :: "'v validators \<Rightarrow> pystr \<Rightarrow> pd_error + (pystr \<Rightarrow> pd_error + 'v)" where
  "dv_decoder vd key = rbind (validator vd key) (\<lambda>c. Inr (fst c))"

text \<open>A value that was computed, or its exception, as an operation.\<close>

definition oret :: "pd_error + 'a \<Rightarrow> ('s, 'a) pd_op" where
  "oret r s = (r, s)"

definition dv_contains :: "'v validators \<Rightarrow> 's pd_env \<Rightarrow> pystr \<Rightarrow> ('s, bool) pd_op" where
  "dv_contains vd env item = (if by_name vd item \<noteq> None then pd_contains env item else ret False)"

definition dv_getitem :: "'v validators \<Rightarrow> 's pd_env \<Rightarrow> pystr \<Rightarrow> ('s, 'v) pd_op" where
  "dv_getitem vd env key =
     obind (oret (dv_decoder vd key)) (\<lambda>dec. obind (pd_getitem env key) (\<lambda>v. oret (dec v)))"

definition is_key_error :: "pd_error \<Rightarrow> bool" where
  "is_key_error e = (case e of PKeyError _ \<Rightarrow> True | _ \<Rightarrow> False)"

definition dv_get :: "'v validators \<Rightarrow> 's pd_env \<Rightarrow> pystr \<Rightarrow> 'v option \<Rightarrow> ('s, 'v option) pd_op" where
  "dv_get vd env key dflt =
     obind (oret (dv_decoder vd key)) (\<lambda>dec s.
       case obind (pd_getitem env key) (\<lambda>v. oret (dec v)) s of
         (Inl e, s') \<Rightarrow> (if is_key_error e then Inr dflt else Inl e, s')
       | (Inr v, s') \<Rightarrow> (Inr (Some v), s'))"

definition dv_setitem :: "'v validators \<Rightarrow> 's pd_env \<Rightarrow> pystr \<Rightarrow> 'v \<Rightarrow> ('s, unit) pd_op" where
  "dv_setitem vd env key value =
     obind (oret (rbind (dv_encoder vd key) (\<lambda>enc. enc value))) (\<lambda>v. pd_setitem env key v)"

definition dv_delitem :: "'s pd_env \<Rightarrow> pystr \<Rightarrow> ('s, unit) pd_op" where
  "dv_delitem env key = pd_delitem env key"

definition dv_keys :: "'v validators \<Rightarrow> 's pd_env \<Rightarrow> ('s, pystr list) pd_op" where
  "dv_keys vd env = obind (pd_iter env) (\<lambda>ks. ret (filter (\<lambda>k. by_name vd k \<noteq> None) ks))"

definition dv_len :: "'v validators \<Rightarrow> 's pd_env \<Rightarrow> ('s, nat) pd_op" where
  "dv_len vd env = obind (dv_keys vd env) (\<lambda>ks. ret (length ks))"

fun encode_items :: "'v validators \<Rightarrow> (pystr \<times> 'v) list \<Rightarrow> pd_error + md" where
  "encode_items vd [] = Inr []"
| "encode_items vd ((key, value) # items) =
     rbind (rbind (dv_encoder vd key) (\<lambda>enc. enc value)) (\<lambda>v.
     rbind (encode_items vd items) (\<lambda>rest. Inr ((key, v) # rest)))"

definition dv_update :: "'v validators \<Rightarrow> 's pd_env \<Rightarrow> (pystr \<times> 'v) list \<Rightarrow> ('s, unit) pd_op" where
  "dv_update vd env metadata = obind (oret (encode_items vd metadata)) (\<lambda>md. pd_update env md)"

text \<open>A pattern is never a key of the dict, but looking for it may read the metadata.\<close>

fun dv_clear :: "'v validators \<Rightarrow> 's pd_env \<Rightarrow> ('s, unit) pd_op" where
  "dv_clear [] env = ret ()"
| "dv_clear ((Name key, _) # vs) env =
     obind (pd_contains env key) (\<lambda>found.
     obind (if found then pd_delitem env key else ret ()) (\<lambda>_. dv_clear vs env))"
| "dv_clear ((Pattern _, _) # vs) env = obind (accessWrapper env (ret False)) (\<lambda>_. dv_clear vs env)"

fun decode_items :: "'v validators \<Rightarrow> md \<Rightarrow> pd_error + (pystr \<times> (pystr + 'v)) list" where
  "decode_items vd [] = Inr []"
| "decode_items vd ((key, value) # items) =
     rbind (case rbind (dv_decoder vd key) (\<lambda>dec. dec value) of
              Inr v \<Rightarrow> Inr (Inr v)
            | Inl e \<Rightarrow> if is_key_error e then Inr (Inl value) else Inl e) (\<lambda>v.
     rbind (decode_items vd items) (\<lambda>rest. Inr ((key, v) # rest)))"

definition dv_copy :: "'v validators \<Rightarrow> 's pd_env \<Rightarrow> ('s, (pystr \<times> (pystr + 'v)) list) pd_op" where
  "dv_copy vd env = obind (pd_copy env) (\<lambda>md. oret (decode_items vd md))"

subsection \<open>What is written is what is read\<close>

text \<open>Metadata that the lines can carry.\<close>

definition sane_key :: "pystr \<Rightarrow> bool" where
  "sane_key k \<longleftrightarrow> stripped k \<and> CHR ''='' \<notin> set k \<and> k \<noteq> SHA_CKSUM_TAG"

definition sane_md :: "md \<Rightarrow> bool" where
  "sane_md md \<longleftrightarrow> distinct (map fst md) \<and> (\<forall>(k, v) \<in> set md. sane_key k)"

lemma parse_line_format:
  "stripped k \<Longrightarrow> CHR ''='' \<notin> set k \<Longrightarrow> parse_line md (format_line k v) = AList.update k v md"
  by (simp add: parse_line_def format_line_def split_once_append)

lemma update_conv_fun: "map_of (AList.update k v md) = (map_of md)(k \<mapsto> v)"
  by (rule update_conv')

lemma parse_formatted:
  assumes "\<forall>(k, v) \<in> set kvs. stripped k \<and> CHR ''='' \<notin> set k"
  shows "foldl parse_line md (map (\<lambda>(k, v). format_line k v) kvs) = dict_update md kvs"
  using assms by (induction kvs arbitrary: md) (auto simp: dict_update_def parse_line_format)

lemma dict_update_map: "map_of (dict_update md kvs) = map_of md ++ map_of (rev kvs)"
  by (induction kvs arbitrary: md) (auto simp: dict_update_def update_conv_fun map_add_upds)

lemma dict_update_distinct: "distinct (map fst md) \<Longrightarrow> distinct (map fst (dict_update md kvs))"
  by (induction kvs arbitrary: md) (auto simp: dict_update_def distinct_update)

lemma map_of_set:
  assumes "distinct (map fst a)" and "distinct (map fst b)"
  shows "map_of a = map_of b \<longleftrightarrow> set a = set b"
  using assms map_of_inject_set by blast

lemma sort_set_unique:
  fixes a b :: md
  assumes "distinct (map fst a)" and "distinct (map fst b)" and "set a = set b"
  shows "sort a = sort b"
  using assms by (intro sorted_distinct_set_unique) (auto simp: distinct_map)

lemma dump_lines_cong:
  "distinct (map fst a) \<Longrightarrow> distinct (map fst b) \<Longrightarrow> set a = set b \<Longrightarrow> dump_lines a = dump_lines b"
  using sort_set_unique [of a b] by (simp add: dump_lines_def)

lemma map_of_same_set:
  assumes "set a = set b" and "distinct (map fst b)"
  shows "map_of a = map_of b"
proof
  fix k
  show "map_of a k = map_of b k"
  proof (cases "map_of a k")
    case None
    then show ?thesis using assms(1) by (metis map_of_eq_None_iff)
  next
    case (Some v)
    then have "(k, v) \<in> set b" using assms(1) map_of_SomeD by fastforce
    then show ?thesis using Some assms(2) by simp
  qed
qed

lemma parse_reordered:
  assumes "set ls = set (map (\<lambda>(k, v). format_line k v) kvs)" and "distinct (map fst kvs)"
    and sane: "\<forall>(k, v) \<in> set kvs. stripped k \<and> CHR ''='' \<notin> set k"
  shows "map_of (parse_lines ls) = map_of kvs" and "distinct (map fst (parse_lines ls))"
proof -
  let ?f = "\<lambda>(k, v). format_line k v"
  have "\<forall>l \<in> set ls. \<exists>kv. kv \<in> set kvs \<and> l = ?f kv" using assms(1) by auto
  then obtain g where g: "\<forall>l \<in> set ls. g l \<in> set kvs \<and> l = ?f (g l)" by metis
  define kvs' where "kvs' = map g ls"
  have inj: "inj_on ?f (set kvs)"
  proof (rule inj_onI)
    fix x y assume "x \<in> set kvs" "y \<in> set kvs" and eq: "?f x = ?f y"
    then have "CHR ''='' \<notin> set (fst x)" "CHR ''='' \<notin> set (fst y)" using sane by auto
    then show "x = y"
      using arg_cong [OF eq, of "split_once (CHR ''='')"]
      by (auto simp: format_line_def split_once_append split: prod.splits)
  qed
  have ls: "ls = map ?f kvs'" using g by (simp add: kvs'_def map_idI)
  have "?f ` set kvs' = ?f ` set kvs" using assms(1) ls by (metis set_map)
  moreover have "set kvs' \<subseteq> set kvs" using g by (auto simp: kvs'_def)
  ultimately have same: "set kvs' = set kvs" using inj by (metis inj_on_image_eq_iff subset_refl)
  have "parse_lines ls = dict_update [] kvs'"
    unfolding parse_lines_def ls using sane same by (intro parse_formatted) auto
  then show "map_of (parse_lines ls) = map_of kvs" "distinct (map fst (parse_lines ls))"
    using map_of_same_set [of "rev kvs'" kvs] same assms(2) by (simp_all add: dict_update_map dict_update_distinct)
qed

lemma sane_tag: "stripped SHA_CKSUM_TAG" "CHR ''='' \<notin> set SHA_CKSUM_TAG"
  by (simp_all add: SHA_CKSUM_TAG_def stripped_def str_space_def)

lemma sealed_lines_set:
  "set (sealed_lines sha md) =
     set (map (\<lambda>(k, v). format_line k v) ((SHA_CKSUM_TAG, calc_checksum sha (dump_lines md)) # md))"
  by (auto simp: sealed_lines_def dump_lines_def)

text \<open>
  The lines of a flush, in any order, are accepted by a refresh, which gives the same dict.
\<close>

lemma refresh_sealed:
  assumes sane: "sane_md md" and rd: "fst (e_readlines env (pd_rw s)) = Inr ls"
    and ls: "set ls = set (sealed_lines (e_sha1 env) md)"
  shows "\<exists>s'. pd_refresh env s = (Inr (), s') \<and> map_of (pd_metadata s') = map_of md \<and>
    set (pd_metadata s') = set md \<and> distinct (map fst (pd_metadata s')) \<and> pd_isValid s' \<and>
    pd_rw s' = snd (e_readlines env (pd_rw s)) \<and> pd_inTransaction s' = pd_inTransaction s"
proof -
  let ?sum = "calc_checksum (e_sha1 env) (dump_lines md)"
  let ?kvs = "(SHA_CKSUM_TAG, ?sum) # md"
  let ?new = "AList.delete SHA_CKSUM_TAG (parse_lines ls)"
  have tag: "SHA_CKSUM_TAG \<notin> fst ` set md" using sane by (auto simp: sane_md_def sane_key_def)
  have kvs: "distinct (map fst ?kvs)" "\<forall>(k, v) \<in> set ?kvs. stripped k \<and> CHR ''='' \<notin> set k"
    using sane tag sane_tag by (auto simp: sane_md_def sane_key_def)
  note parsed = parse_reordered [OF ls [unfolded sealed_lines_set] kvs]
  have dist: "distinct (map fst ?new)" using parsed(2) by (rule distinct_delete)
  have "(map_of ?kvs)(SHA_CKSUM_TAG := None) = map_of md"
    using tag map_of_eq_None_iff [of md SHA_CKSUM_TAG] by (simp add: fun_eq_iff)
  then have map: "map_of ?new = map_of md" by (simp add: delete_conv' parsed(1))
  then have new: "set ?new = set md" using dist kvs(1) map_of_set [of ?new md] by simp
  have "dump_lines ?new = dump_lines md" using dump_lines_cong [OF dist _ new] kvs(1) by simp
  moreover have "?new = [] \<longleftrightarrow> md = []" using new by (metis set_empty)
  moreover obtain w where "e_readlines env (pd_rw s) = (Inr ls, w)" using rd by (cases "e_readlines env (pd_rw s)") auto
  ultimately show ?thesis
    using map new dist by (auto simp: pd_refresh_def load_md_def Let_def parsed(1))
qed

subsection \<open>Bodies of transactions\<close>

text \<open>What a client does inside of a transaction, and what it means for the items.\<close>

datatype cmd = Set pystr pystr | Del pystr | Upd md | Clear | Fail nat

definition exec_cmd :: "'s pd_env \<Rightarrow> cmd \<Rightarrow> ('s, unit) pd_op" where
  "exec_cmd env c =
     (case c of
        Set k v \<Rightarrow> pd_setitem env k v
      | Del k \<Rightarrow> pd_delitem env k
      | Upd kvs \<Rightarrow> pd_update env kvs
      | Clear \<Rightarrow> pd_clear env
      | Fail n \<Rightarrow> raise (OtherError n))"

fun exec_cmds :: "'s pd_env \<Rightarrow> cmd list \<Rightarrow> ('s, unit) pd_op" where
  "exec_cmds env [] = ret ()"
| "exec_cmds env (c # cs) = obind (exec_cmd env c) (\<lambda>_. exec_cmds env cs)"

fun spec_cmd :: "cmd \<Rightarrow> (pystr \<rightharpoonup> pystr) \<Rightarrow> pd_error + (pystr \<rightharpoonup> pystr)" where
  "spec_cmd (Set k v) m = Inr (m(k \<mapsto> v))"
| "spec_cmd (Del k) m = (if m k = None then Inl (PKeyError k) else Inr (m(k := None)))"
| "spec_cmd (Upd kvs) m = Inr (m ++ map_of (rev kvs))"
| "spec_cmd Clear m = Inr Map.empty"
| "spec_cmd (Fail n) m = Inl (OtherError n)"

fun spec_cmds :: "cmd list \<Rightarrow> (pystr \<rightharpoonup> pystr) \<Rightarrow> pd_error + (pystr \<rightharpoonup> pystr)" where
  "spec_cmds [] m = Inr m"
| "spec_cmds (c # cs) m = rbind (spec_cmd c m) (spec_cmds cs)"

text \<open>The items that a body may leave.\<close>

fun cmd_items :: "cmd \<Rightarrow> md" where
  "cmd_items (Set k v) = [(k, v)]"
| "cmd_items (Upd kvs) = kvs"
| "cmd_items _ = []"

definition only_md :: "'s pdict \<Rightarrow> 's pdict \<Rightarrow> bool" where
  "only_md s s' \<longleftrightarrow> (\<exists>md. s' = s\<lparr>pd_metadata := md\<rparr>)"

lemma only_md_refl [simp]: "only_md s s"
  by (auto simp: only_md_def intro: exI [of _ "pd_metadata s"])

lemma only_md_update [simp]: "only_md s (s\<lparr>pd_metadata := md\<rparr>)"
  by (auto simp: only_md_def)

lemma only_md_trans: "only_md s t \<Longrightarrow> only_md t u \<Longrightarrow> only_md s u"
  by (auto simp: only_md_def)

lemma only_md_fields:
  assumes "only_md s s'"
  shows "pd_rw s' = pd_rw s" "pd_isValid s' = pd_isValid s" "pd_inTransaction s' = pd_inTransaction s"
    "s'\<lparr>pd_metadata := m\<rparr> = s\<lparr>pd_metadata := m\<rparr>"
  using assms by (auto simp: only_md_def)

lemma transaction_nested [simp]: "pd_inTransaction s \<Longrightarrow> transaction env body s = body s"
  by (simp add: transaction_def)

lemma update_items: "set (AList.update k v md) \<subseteq> insert (k, v) (set md)"
  by (induction md) auto

lemma delete_items: "set (AList.delete k md) \<subseteq> set md"
  by (induction md) auto

lemma dict_update_items: "set (dict_update md kvs) \<subseteq> set md \<union> set kvs"
proof (induction kvs arbitrary: md)
  case (Cons kv kvs)
  obtain k v where kv: "kv = (k, v)" by (cases kv) auto
  show ?case using Cons [of "AList.update k v md"] update_items [of k v md] by (auto simp: kv dict_update_def)
qed (simp add: dict_update_def)

lemma exec_cmd_nested:
  assumes "pd_inTransaction s" and "distinct (map fst (pd_metadata s))" and "exec_cmd env c s = (r, s')"
  shows "only_md s s'" "distinct (map fst (pd_metadata s'))"
    "set (pd_metadata s') \<subseteq> set (pd_metadata s) \<union> set (cmd_items c)"
    "map_sum id (\<lambda>_. map_of (pd_metadata s')) r = spec_cmd c (map_of (pd_metadata s))"
proof -
  note defs = exec_cmd_def pd_setitem_def pd_delitem_def pd_update_def pd_clear_def
  show "only_md s s'" using assms by (cases c) (auto simp: defs split: if_splits)
  show "distinct (map fst (pd_metadata s'))"
    using assms by (cases c)
      (auto simp: defs dict_update_distinct distinct_update distinct_delete split: if_splits)
  show "set (pd_metadata s') \<subseteq> set (pd_metadata s) \<union> set (cmd_items c)"
    using assms by (cases c)
      (auto simp: defs split: if_splits dest: set_mp [OF update_items] set_mp [OF dict_update_items] set_mp [OF delete_items])
  show "map_sum id (\<lambda>_. map_of (pd_metadata s')) r = spec_cmd c (map_of (pd_metadata s))"
  proof (cases c)
    case (Del k)
    then show ?thesis
      using assms(1,3) by (cases "map_of (pd_metadata s) k = None") (auto simp: defs delete_conv' simp del: not_None_eq)
  qed (use assms(1,3) in \<open>auto simp: defs dict_update_map update_conv_fun\<close>)
qed

lemma exec_cmds_nested:
  assumes "pd_inTransaction s" and "distinct (map fst (pd_metadata s))" and "exec_cmds env cs s = (r, s')"
  shows "only_md s s' \<and> distinct (map fst (pd_metadata s')) \<and>
    set (pd_metadata s') \<subseteq> set (pd_metadata s) \<union> set (concat (map cmd_items cs)) \<and>
    map_sum id (\<lambda>_. map_of (pd_metadata s')) r = spec_cmds cs (map_of (pd_metadata s))"
  using assms
proof (induction cs arbitrary: s)
  case Nil
  then have "r = Inr ()" "s' = s" by auto
  then show ?case using Nil.prems(2) by simp
next
  case (Cons c cs)
  obtain r1 s1 where one: "exec_cmd env c s = (r1, s1)" by (cases "exec_cmd env c s") auto
  note c = exec_cmd_nested [OF Cons.prems(1,2) one]
  show ?case
  proof (cases r1)
    case (Inl e)
    then have "r = Inl e" "s' = s1" using Cons.prems(3) one by auto
    then show ?thesis using c Inl by (auto simp flip: c(4))
  next
    case (Inr u)
    then have rest: "exec_cmds env cs s1 = (r, s')" using Cons.prems(3) one by simp
    have "pd_inTransaction s1" using only_md_fields(3) [OF c(1)] Cons.prems(1) by simp
    note IH = Cons.IH [OF this c(2) rest]
    have "spec_cmd c (map_of (pd_metadata s)) = Inr (map_of (pd_metadata s1))" using c(4) Inr by simp
    moreover have "only_md s s'" using only_md_trans c(1) IH by blast
    ultimately show ?thesis using IH c(3) by (simp del: spec_cmd.simps) blast
  qed
qed

subsection \<open>Parsed metadata\<close>

lemma strip_set: "set (strip p xs) \<subseteq> set xs"
  unfolding strip_def rstrip_def by (auto dest!: set_dropWhileD)

lemma stripped_strip: "stripped (str_strip s)"
proof (cases "str_strip s = []")
  case False
  let ?d = "dropWhile str_space s"
  have d: "?d \<noteq> []" using False unfolding strip_def rstrip_def by fastforce
  have r: "dropWhile str_space (rev ?d) \<noteq> []" using False unfolding strip_def rstrip_def by fastforce
  then have "\<not> str_space (hd (dropWhile str_space (rev ?d)))" by (rule hd_dropWhile)
  then have last: "\<not> str_space (last (str_strip s))" using r by (simp add: strip_def rstrip_def last_rev)
  obtain zs where "rev ?d = zs @ dropWhile str_space (rev ?d)" by (metis takeWhile_dropWhile_id)
  then have "?d = str_strip s @ rev zs" unfolding strip_def rstrip_def by (metis rev_append rev_rev_ident)
  then have "hd (str_strip s) = hd ?d" using False by (metis hd_append2)
  then show ?thesis using last hd_dropWhile [OF d] by (simp add: stripped_def)
qed (simp add: stripped_def)

lemma parse_line_items:
  assumes "(k, v) \<in> set (parse_line md l)"
  shows "(k, v) \<in> set md \<or> stripped k \<and> CHR ''='' \<notin> set k \<and> set k \<union> set v \<subseteq> set l"
proof (cases "split_once (CHR ''='') l")
  case (Some kv)
  obtain k' v' where kv: "kv = (k', v')" by (cases kv)
  note l = split_once_Some [OF Some [unfolded kv]]
  have "(k, v) \<in> set md \<or> k = str_strip k' \<and> v = v'"
    using assms update_items [of "str_strip k'" v' md] by (auto simp: parse_line_def Some kv)
  then show ?thesis using l strip_set [of str_space k'] stripped_strip [of k'] by auto
qed (use assms in \<open>simp add: parse_line_def\<close>)

lemma parse_items:
  assumes "(k, v) \<in> set (parse_lines ls)"
  shows "stripped k \<and> CHR ''='' \<notin> set k \<and> (\<exists>l \<in> set ls. set k \<union> set v \<subseteq> set l)"
  using assms unfolding parse_lines_def
  by (induction ls rule: rev_induct) (force dest: parse_line_items)+

lemma parse_distinct: "distinct (map fst (parse_lines ls))"
  unfolding parse_lines_def
  by (induction ls rule: rev_induct) (auto simp: parse_line_def distinct_update split: option.split)

lemma parsed_sane: "sane_md (AList.delete SHA_CKSUM_TAG (parse_lines ls))"
proof -
  let ?n = "AList.delete SHA_CKSUM_TAG (parse_lines ls)"
  have "sane_key k" if kv: "(k, v) \<in> set ?n" for k v
  proof -
    have "k \<noteq> SHA_CKSUM_TAG" using kv delete_notin_dom [of SHA_CKSUM_TAG "parse_lines ls"] by force
    then show ?thesis using parse_items [OF set_mp [OF delete_items kv]] by (simp add: sane_key_def)
  qed
  then show ?thesis using distinct_delete [OF parse_distinct] by (auto simp: sane_md_def)
qed

lemma refresh_ok:
  assumes "pd_refresh env s = (Inr (), s')"
  shows "\<exists>ls. e_readlines env (pd_rw s) = (Inr ls, pd_rw s') \<and>
    pd_metadata s' = AList.delete SHA_CKSUM_TAG (parse_lines ls) \<and> pd_isValid s' \<and>
    pd_inTransaction s' = pd_inTransaction s"
  using assms by (auto simp: pd_refresh_def load_md_def Let_def split: prod.splits sum.splits option.splits if_splits)

lemma refresh_metadata:
  "fst (e_readlines env (pd_rw s)) = fst (e_readlines env (pd_rw t)) \<Longrightarrow>
   pd_refresh env s = (Inr (), s') \<Longrightarrow> \<exists>t'. pd_refresh env t = (Inr (), t') \<and> pd_metadata t' = pd_metadata s'"
  by (auto simp: pd_refresh_def load_md_def Let_def split: prod.splits sum.splits option.splits if_splits)

text \<open>The ways in which a transaction on a dict that is loaded ends.\<close>

definition raised_by_body :: "cmd list \<Rightarrow> 's pdict \<Rightarrow> pd_error + unit \<Rightarrow> 's pdict \<Rightarrow> bool" where
  "raised_by_body cs s r s' \<longleftrightarrow>
     (\<exists>e. spec_cmds cs (map_of (pd_metadata s)) = Inl e \<and> r = Inl e \<and> s' = s)"

definition tx_ended :: "cmd list \<Rightarrow> 's pdict \<Rightarrow> md \<Rightarrow> bool" where
  "tx_ended cs s md \<longleftrightarrow>
     spec_cmds cs (map_of (pd_metadata s)) = Inr (map_of md) \<and> distinct (map fst md) \<and>
     set md \<subseteq> set (pd_metadata s) \<union> set (concat (map cmd_items cs))"

definition wrote :: "'s pd_env \<Rightarrow> 's pdict \<Rightarrow> md \<Rightarrow> pd_error + unit \<Rightarrow> 's pdict \<Rightarrow> bool" where
  "wrote env s md r s' \<longleftrightarrow>
     e_writelines env (sealed_lines (e_sha1 env) md) (pd_rw s) = (r, pd_rw s') \<and>
     pd_metadata s' = (case r of Inl _ \<Rightarrow> pd_metadata s | Inr _ \<Rightarrow> md)"

lemma transaction_cases:
  assumes "pd_isValid s" and "\<not> pd_inTransaction s" and "distinct (map fst (pd_metadata s))"
    and tr: "transaction env (exec_cmds env cs) s = (r, s')"
  shows "raised_by_body cs s r s' \<or>
    (\<exists>md. tx_ended cs s md \<and>
       (r = Inr () \<and> pd_rw s' = pd_rw s \<and> pd_metadata s' = md \<and> set md = set (pd_metadata s) \<or> wrote env s md r s'))"
proof -
  let ?s = "s\<lparr>pd_inTransaction := True\<rparr>"
  obtain r1 s1 where body: "exec_cmds env cs ?s = (r1, s1)" by (cases "exec_cmds env cs ?s")
  have B: "only_md ?s s1" "distinct (map fst (pd_metadata s1))"
    "set (pd_metadata s1) \<subseteq> set (pd_metadata s) \<union> set (concat (map cmd_items cs))"
    "map_sum id (\<lambda>_. map_of (pd_metadata s1)) r1 = spec_cmds cs (map_of (pd_metadata s))"
    using exec_cmds_nested [OF _ _ body] assms(3) by auto
  obtain m where s1: "s1 = ?s\<lparr>pd_metadata := m\<rparr>" using B(1) by (auto simp: only_md_def)
  obtain r2 s2 where g: "guarded_body env (exec_cmds env cs) ?s = (r2, s2)"
    by (cases "guarded_body env (exec_cmds env cs) ?s")
  have rs: "r = r2" "s' = s2\<lparr>pd_inTransaction := False\<rparr>"
    using tr assms(1,2) g by (auto simp: transaction_def accessWrapper_def)
  show ?thesis
  proof (cases r1)
    case (Inl e)
    have "r2 = Inl e" "s2 = ?s" using g body Inl s1 by (auto simp: guarded_body_def)
    then show ?thesis using rs assms(2) B(4) Inl by (auto simp: raised_by_body_def)
  next
    case (Inr u)
    have "tx_ended cs s m" using B(2,3,4) Inr s1 by (simp add: tx_ended_def)
    moreover have "r = Inr () \<and> pd_rw s' = pd_rw s \<and> pd_metadata s' = m \<and> set m = set (pd_metadata s) \<or> wrote env s m r s'"
      using g rs body Inr s1
      by (auto simp: guarded_body_def pd_flush_def wrote_def dict_eq_def Let_def split: prod.splits sum.splits if_splits)
    ultimately show ?thesis by blast
  qed
qed

subsection \<open>What the dict needs of its reader and writer\<close>

text \<open>
  \<open>content\<close> is what is stored, \<open>quiet\<close> says that the next read does not fail, \<open>okchar\<close> which characters a
  line may have, and \<open>inv\<close> is what the writer relies on of the storage and keeps.
\<close>

locale meta_rw =
  fixes env :: "'s pd_env" and okchar :: "char \<Rightarrow> bool" and content :: "'s \<Rightarrow> 'c" and quiet :: "'s \<Rightarrow> bool"
    and inv :: "'s \<Rightarrow> bool"
  assumes read_written:
      "e_writelines env ls w = (Inr (), w') \<Longrightarrow> inv w \<Longrightarrow> \<forall>l \<in> set ls. \<forall>c \<in> set l. okchar c \<Longrightarrow> quiet w' \<Longrightarrow>
       \<exists>ls'. fst (e_readlines env w') = Inr ls' \<and> set ls' = set ls"
    and write_failed: "e_writelines env ls w = (Inl e, w') \<Longrightarrow> content w' = content w"
    and read_content:
      "quiet w \<Longrightarrow> quiet w' \<Longrightarrow> content w = content w' \<Longrightarrow> fst (e_readlines env w) = fst (e_readlines env w')"
    and read_keeps: "content (snd (e_readlines env w)) = content w"
    and read_inv: "inv w \<Longrightarrow> inv (snd (e_readlines env w))"
    and write_inv: "inv w \<Longrightarrow> inv (snd (e_writelines env ls w))"
    and read_chars: "e_readlines env w = (Inr ls, w') \<Longrightarrow> l \<in> set ls \<Longrightarrow> c \<in> set l \<Longrightarrow> okchar c"
    and tag_chars: "c \<in> set (format_line SHA_CKSUM_TAG (e_sha1 env b)) \<Longrightarrow> okchar c"
begin

lemma sealed_chars:
  assumes "\<forall>(k, v) \<in> set md. \<forall>c \<in> set k \<union> set v. okchar c"
  shows "\<forall>l \<in> set (sealed_lines (e_sha1 env) md). \<forall>c \<in> set l. okchar c"
proof -
  have eq: "okchar (CHR ''='')" using tag_chars by (simp add: format_line_def)
  have seal: "\<forall>c \<in> set (format_line SHA_CKSUM_TAG (calc_checksum (e_sha1 env) ls)). okchar c" for ls
    using tag_chars by (simp add: calc_checksum_def)
  have "\<forall>l \<in> set (dump_lines md). \<forall>c \<in> set l. okchar c"
    using assms eq by (auto simp: dump_lines_def format_line_def)
  then show ?thesis using seal by (auto simp: sealed_lines_def)
qed

lemma reload_flushed:
  assumes "sane_md md" and "\<forall>(k, v) \<in> set md. \<forall>c \<in> set k \<union> set v. okchar c"
    and "e_writelines env (sealed_lines (e_sha1 env) md) w = (Inr (), w')" and "inv w" and "quiet w'"
  shows "\<exists>s. pd_refresh env (new_pdict w') = (Inr (), s) \<and> map_of (pd_metadata s) = map_of md"
proof -
  obtain ls where "fst (e_readlines env (pd_rw (new_pdict w'))) = Inr ls" "set ls = set (sealed_lines (e_sha1 env) md)"
    using read_written [OF assms(3,4) sealed_chars [OF assms(2)] assms(5)] by (auto simp: new_pdict_def)
  from refresh_sealed [OF assms(1) this] show ?thesis by blast
qed

lemma reload_unchanged:
  assumes "pd_refresh env (new_pdict w) = (Inr (), s)" and "quiet w" and "quiet w'" and "content w' = content w"
  shows "\<exists>s'. pd_refresh env (new_pdict w') = (Inr (), s') \<and> pd_metadata s' = pd_metadata s"
  using refresh_metadata [of env "new_pdict w" "new_pdict w'" s] read_content [of w w'] assms
  by (simp add: new_pdict_def)

lemma loaded_sane:
  assumes "pd_refresh env (new_pdict w) = (Inr (), s)" and "inv w"
  shows "sane_md (pd_metadata s)" "\<forall>(k, v) \<in> set (pd_metadata s). \<forall>c \<in> set k \<union> set v. okchar c"
    "pd_isValid s" "\<not> pd_inTransaction s" "content (pd_rw s) = content w" "inv (pd_rw s)"
proof -
  obtain ls where ls: "e_readlines env w = (Inr ls, pd_rw s)" "pd_metadata s = AList.delete SHA_CKSUM_TAG (parse_lines ls)"
    "pd_isValid s" "\<not> pd_inTransaction s"
    using refresh_ok [OF assms(1)] by (auto simp: new_pdict_def)
  then show "sane_md (pd_metadata s)" "pd_isValid s" "\<not> pd_inTransaction s" using parsed_sane by auto
  show "content (pd_rw s) = content w" "inv (pd_rw s)" using read_keeps [of w] read_inv [OF assms(2)] ls(1) by simp_all
  show "\<forall>(k, v) \<in> set (pd_metadata s). \<forall>c \<in> set k \<union> set v. okchar c"
  proof clarify
    fix k v c assume kv: "(k, v) \<in> set (pd_metadata s)" and c: "c \<in> set k \<union> set v"
    obtain l where "l \<in> set ls" "set k \<union> set v \<subseteq> set l"
      using parse_items [OF set_mp [OF delete_items kv [unfolded ls(2)]]] by blast
    then show "okchar c" using read_chars [OF ls(1)] c by blast
  qed
qed

text \<open>
  A transaction is all or nothing, in memory and on the storage: a fresh object that reads the
  storage afterwards finds the result of the body, or the dict as it was when the transaction raised.
\<close>

lemma transaction_all_or_nothing:
  assumes load: "pd_refresh env (new_pdict w) = (Inr (), s)" and "quiet w" and "inv w"
    and items: "\<forall>(k, v) \<in> set (concat (map cmd_items cs)). sane_key k \<and> (\<forall>c \<in> set k \<union> set v. okchar c)"
    and tr: "transaction env (exec_cmds env cs) s = (r, s')" and "quiet (pd_rw s')"
  shows "inv (pd_rw s') \<and>
    (\<exists>t. pd_refresh env (new_pdict (pd_rw s')) = (Inr (), t) \<and> map_of (pd_metadata t) = map_of (pd_metadata s')) \<and>
    (case r of
       Inr _ \<Rightarrow> spec_cmds cs (map_of (pd_metadata s)) = Inr (map_of (pd_metadata s'))
     | Inl e \<Rightarrow> pd_metadata s' = pd_metadata s \<and>
         (spec_cmds cs (map_of (pd_metadata s)) = Inl e \<or>
          (\<exists>ls. fst (e_writelines env ls (pd_rw s)) = Inl e)))"
proof -
  note L = loaded_sane [OF load assms(3)]
  have keep: "\<exists>t. pd_refresh env (new_pdict w') = (Inr (), t) \<and> map_of (pd_metadata t) = map_of (pd_metadata s)"
    if "quiet w'" "content w' = content (pd_rw s)" for w'
    using reload_unchanged [OF load assms(2) that(1)] that(2) L(5) by metis
  have "distinct (map fst (pd_metadata s))" using L(1) by (simp add: sane_md_def)
  from transaction_cases [OF L(3,4) this tr] consider "raised_by_body cs s r s'"
    | md where "tx_ended cs s md" "r = Inr ()" "pd_rw s' = pd_rw s" "pd_metadata s' = md" "set md = set (pd_metadata s)"
    | md where "tx_ended cs s md" "wrote env s md r s'" by blast
  then show ?thesis
  proof cases
    case 1
    then show ?thesis using keep [OF assms(6)] L(6) by (auto simp: raised_by_body_def)
  next
    case (2 md)
    have "map_of md = map_of (pd_metadata s)" using map_of_same_set [OF 2(5)] L(1) by (simp add: sane_md_def)
    then show ?thesis using keep [OF assms(6)] 2 L(6) by (simp add: tx_ended_def)
  next
    case (3 md)
    have inv': "inv (pd_rw s')" using write_inv [OF L(6)] 3(2) by (metis snd_conv wrote_def)
    show ?thesis
    proof (cases r)
      case (Inl e)
      have "content (pd_rw s') = content (pd_rw s)" using 3(2) Inl write_failed by (auto simp: wrote_def)
      then show ?thesis using keep [OF assms(6)] 3(2) Inl inv' by (auto simp: wrote_def intro!: exI [of _ "sealed_lines (e_sha1 env) md"])
    next
      case (Inr u)
      have sane: "sane_md md" using 3(1) L(1) items unfolding tx_ended_def sane_md_def by blast
      have "\<forall>(k, v) \<in> set md. \<forall>c \<in> set k \<union> set v. okchar c" using 3(1) L(2) items unfolding tx_ended_def by blast
      from reload_flushed [OF sane this _ L(6) assms(6)] show ?thesis using 3 Inr inv' by (auto simp: wrote_def tx_ended_def)
    qed
  qed
qed

end

end
