(* ===== verification/Metadata_Rw.thy ===== *)
theory Metadata_Rw
  imports Persistent
begin

text \<open>
  The readers and writers of domain metadata: \<open>FileMetadataRW\<close> of \<^verbatim>\<open>lib/vdsm/storage/fileSD.py\<close>, on a
  file system whose operations may fail, and \<open>VGTagMetadataRW\<close> of \<^verbatim>\<open>lib/vdsm/storage/blockSD.py\<close>, on
  the tags of a volume group, which the LVM commands keep. Both meet the contract of the theory
  \<open>Persistent\<close>.
\<close>

subsection \<open>Files\<close>

text \<open>
  \<open>fs_fault\<close> says which calls fail, by their number: the errno, and what a write that fails leaves
  in the file.
\<close>

record fs =
  fs_files :: "pystr \<rightharpoonup> bytes"
  fs_fault :: "nat \<Rightarrow> (int \<times> bytes) option"
  fs_count :: nat

definition ENOENT :: int where "ENOENT = 2"
definition ESTALE :: int where "ESTALE = 116"

definition fs_quiet :: "fs \<Rightarrow> bool" where
  "fs_quiet w \<longleftrightarrow> fs_fault w (fs_count w) = None"

definition fs_tick :: "fs \<Rightarrow> fs" where
  "fs_tick w = w\<lparr>fs_count := Suc (fs_count w)\<rparr>"

definition fs_readFile :: "pystr \<Rightarrow> fs \<Rightarrow> (int + bytes) \<times> fs" where
  "fs_readFile path w =
     (case fs_fault w (fs_count w) of
        Some (e, _) \<Rightarrow> Inl e
      | None \<Rightarrow> (case fs_files w path of None \<Rightarrow> Inl ENOENT | Some d \<Rightarrow> Inr d), fs_tick w)"

definition fs_writeLines :: "pystr \<Rightarrow> bytes list \<Rightarrow> fs \<Rightarrow> (int + unit) \<times> fs" where
  "fs_writeLines path ls w =
     (case fs_fault w (fs_count w) of
        Some (e, part) \<Rightarrow> (Inl e, (fs_tick w)\<lparr>fs_files := (fs_files w)(path \<mapsto> part)\<rparr>)
      | None \<Rightarrow> (Inr (), (fs_tick w)\<lparr>fs_files := (fs_files w)(path \<mapsto> concat ls)\<rparr>))"

definition fs_rename :: "pystr \<Rightarrow> pystr \<Rightarrow> fs \<Rightarrow> (int + unit) \<times> fs" where
  "fs_rename src dst w =
     (case fs_fault w (fs_count w) of
        Some (e, _) \<Rightarrow> (Inl e, fs_tick w)
      | None \<Rightarrow>
          (case fs_files w src of
             None \<Rightarrow> (Inl ENOENT, fs_tick w)
           | Some d \<Rightarrow> (Inr (), (fs_tick w)\<lparr>fs_files := (fs_files w)(src := None, dst \<mapsto> d)\<rparr>)))"

text \<open>The line boundaries of \<open>str.splitlines()\<close>.\<close>

definition line_break :: "char \<Rightarrow> bool" where
  "line_break c \<longleftrightarrow>
     (let n = (of_char c :: nat) in 10 \<le> n \<and> n \<le> 13 \<or> 28 \<le> n \<and> n \<le> 30 \<or> n = 133)"

definition file_readlines :: "pystr \<Rightarrow> (fs, pd_error, pystr list) op" where
  "file_readlines metafile w =
     (case fs_readFile metafile w of
        (Inl e, w') \<Rightarrow> (if e \<noteq> ENOENT then Inl (POSError e) else Inr [], w')
      | (Inr data, w') \<Rightarrow>
          (case utf8_decode (rstrip (\<lambda>c. c = NUL) data) of
             None \<Rightarrow> Inl PUnicodeError
           | Some s \<Rightarrow> Inr (split_lines line_break [] s), w'))"

text \<open>The lines are written to a second file, once more when the handle was stale, which then replaces the first.\<close>

definition finish_rename :: "pystr \<Rightarrow> (fs, pd_error, unit) op" where
  "finish_rename metafile w =
     (case fs_rename (metafile @ ''.new'') metafile w of
        (Inl e, w') \<Rightarrow> (Inl (POSError e), w')
      | (Inr _, w') \<Rightarrow> (Inr (), w'))"

definition file_writelines :: "pystr \<Rightarrow> pystr list \<Rightarrow> (fs, pd_error, unit) op" where
  "file_writelines metafile metadata w =
     (let ls = map (\<lambda>line. utf8 line @ [NL]) metadata; tmp = metafile @ ''.new'' in
      case fs_writeLines tmp ls w of
        (Inl e, w') \<Rightarrow>
          (if e \<noteq> ESTALE then (Inl (POSError e), w')
           else case fs_writeLines tmp ls w' of
                  (Inl e', w'') \<Rightarrow> (Inl (POSError e'), w'')
                | (Inr _, w'') \<Rightarrow> finish_rename metafile w'')
      | (Inr _, w') \<Rightarrow> finish_rename metafile w')"

text \<open>\<open>hexdigest()\<close> of the digest that SHA-1, a parameter, gives.\<close>

definition hexdigest :: "bytes \<Rightarrow> pystr" where
  "hexdigest d = concat (map (\<lambda>b. fmt_x 2 (of_char b)) d)"

definition file_env :: "(bytes \<Rightarrow> bytes) \<Rightarrow> pystr \<Rightarrow> fs pd_env" where
  "file_env sha1 metafile =
     \<lparr>e_sha1 = (\<lambda>b. hexdigest (sha1 b)), e_readlines = file_readlines metafile, e_writelines = file_writelines metafile\<rparr>"

subsection \<open>Tags\<close>

definition invalid_char :: "char \<Rightarrow> bool" where
  "invalid_char c \<longleftrightarrow>
     (let n = (of_char c :: nat) in
      \<not> (97 \<le> n \<and> n \<le> 122 \<or> 65 \<le> n \<and> n \<le> 90 \<or> 48 \<le> n \<and> n \<le> 57) \<and> c \<notin> set ''_+.-/=!:#'')"

definition lvmTagEncode :: "pystr \<Rightarrow> pystr" where
  "lvmTagEncode s =
     concat (map (\<lambda>c. if invalid_char c then ''&'' @ fmt_d 0 (int (of_char c)) @ ''&'' else [c]) s)"

definition is_digit :: "char \<Rightarrow> bool" where
  "is_digit c \<longleftrightarrow> 48 \<le> (of_char c :: nat) \<and> (of_char c :: nat) \<le> 57"

text \<open>None stands for a code point that the model does not have.\<close>

function lvmTagDecode :: "pystr \<Rightarrow> pystr option" where
  "lvmTagDecode s =
     (case s of
        [] \<Rightarrow> Some []
      | c # cs \<Rightarrow>
          (let ds = takeWhile is_digit cs; after = dropWhile is_digit cs in
           if c = CHR ''&'' \<and> ds \<noteq> [] \<and> take 1 after = ''&'' then
             (case py_int 10 ds of
                Some n \<Rightarrow> if n < 256 then map_option ((#) (char_of (nat n))) (lvmTagDecode (drop 1 after)) else None
              | None \<Rightarrow> None)
           else map_option ((#) c) (lvmTagDecode cs)))"
  by auto

termination lvmTagDecode
proof (relation "measure length")
  fix s c cs ds after n assume "s = c # cs" and "after = dropWhile is_digit cs"
  then show "(drop 1 after, s) \<in> measure length"
    using length_dropWhile_le [of is_digit cs] by simp
qed auto

declare lvmTagDecode.simps [simp del]

text \<open>
  The LVM commands, outside of the repository: reading the tags of the group, and \<open>vgchange\<close>, which
  gives its exit status.
\<close>

record 's lvm =
  vg_tags :: "('s, pd_error, pystr list) op"
  vgchange :: "pystr list \<Rightarrow> pystr list \<Rightarrow> 's \<Rightarrow> nat \<times> 's"

definition changeVGTags :: "'s lvm \<Rightarrow> pystr list \<Rightarrow> pystr list \<Rightarrow> ('s, pd_error, unit) op" where
  "changeVGTags l delTags addTags s =
     (if set delTags \<inter> set addTags \<noteq> {} then (Inl VolumeGroupReplaceTagError, s)
      else case vgchange l (remdups delTags) (remdups addTags) s of
             (rc, s') \<Rightarrow> (if rc \<noteq> 0 then Inl VolumeGroupReplaceTagError else Inr (), s'))"

definition METADATA_TAG_PREFIX :: pystr where
  "METADATA_TAG_PREFIX = ''MDT_''"

definition has_prefix :: "pystr \<Rightarrow> bool" where
  "has_prefix tag \<longleftrightarrow> take (length METADATA_TAG_PREFIX) tag = METADATA_TAG_PREFIX"

definition tag_lines :: "pystr list \<Rightarrow> pystr list option" where
  "tag_lines tags =
     those (map (\<lambda>tag. lvmTagDecode (drop (length METADATA_TAG_PREFIX) tag)) (filter has_prefix tags))"

definition tag_readlines :: "'s lvm \<Rightarrow> ('s, pd_error, pystr list) op" where
  "tag_readlines l = obind (vg_tags l) (\<lambda>tags s.
     (case tag_lines tags of None \<Rightarrow> Inl PUnicodeError | Some ls \<Rightarrow> Inr ls, s))"

definition make_tag :: "pystr \<Rightarrow> pystr" where
  "make_tag item = METADATA_TAG_PREFIX @ lvmTagEncode item"

definition tag_writelines :: "'s lvm \<Rightarrow> pystr list \<Rightarrow> ('s, pd_error, unit) op" where
  "tag_writelines l ls = obind (tag_readlines l) (\<lambda>current.
     let toRemove = map make_tag (filter (\<lambda>item. item \<notin> set ls) (remdups current));
         toAdd = map make_tag (filter (\<lambda>item. item \<notin> set current) (remdups ls)) in
     if toAdd = [] \<and> toRemove = [] then ret () else changeVGTags l toRemove toAdd)"

definition tag_env :: "(bytes \<Rightarrow> bytes) \<Rightarrow> 's lvm \<Rightarrow> 's pd_env" where
  "tag_env sha1 l =
     \<lparr>e_sha1 = (\<lambda>b. hexdigest (sha1 b)), e_readlines = tag_readlines l, e_writelines = tag_writelines l\<rparr>"

subsection \<open>The file meets the contract\<close>

lemma line_break_NL [simp]: "line_break NL"
  by (simp add: line_break_def)

lemma put_lines_rstrip: "rstrip (\<lambda>c. c = NUL) (utf8 (put_lines ls)) = utf8 (put_lines ls)"
proof (cases ls rule: rev_cases)
  case (snoc ls' l)
  have "last (utf8 (put_lines ls)) = NL" by (simp add: snoc utf8_char_def)
  then show ?thesis by (intro rstrip_id) simp
qed (simp add: rstrip_def)

lemma new_path [simp]: "path @ ''.new'' \<noteq> path" "path \<noteq> path @ ''.new''"
  by auto

lemma finish_rename_ok:
  "finish_rename path w = (Inr (), w') \<Longrightarrow> fs_files w' path = fs_files w (path @ ''.new'')"
  by (auto simp: finish_rename_def fs_rename_def fs_tick_def split: option.splits prod.splits)

lemma finish_rename_failed: "finish_rename path w = (Inl e, w') \<Longrightarrow> fs_files w' path = fs_files w path"
  by (auto simp: finish_rename_def fs_rename_def fs_tick_def split: option.splits prod.splits)

lemma writeLines_file:
  "fs_writeLines p ls w = (r, w') \<Longrightarrow> q \<noteq> p \<Longrightarrow> fs_files w' q = fs_files w q"
  "fs_writeLines p ls w = (Inr u, w') \<Longrightarrow> fs_files w' p = Some (concat ls)"
  by (auto simp: fs_writeLines_def fs_tick_def split: option.splits)

lemma file_written:
  assumes "file_writelines path ls w = (Inr (), w')"
  shows "fs_files w' path = Some (utf8 (put_lines ls))"
  using assms finish_rename_ok writeLines_file(2)
  by (fastforce simp: file_writelines_def Let_def utf8_lines split: prod.splits sum.splits if_splits)

lemma file_write_failed:
  assumes "file_writelines path ls w = (Inl e, w')"
  shows "fs_files w' path = fs_files w path"
  using assms finish_rename_failed writeLines_file(1) new_path(2) [of path]
  by (simp add: file_writelines_def Let_def split: prod.splits sum.splits if_splits)

lemma file_read_written:
  assumes "fs_files w path = Some (utf8 (put_lines ls))" and "\<forall>l \<in> set ls. \<forall>c \<in> set l. \<not> line_break c" and "fs_quiet w"
  shows "fst (file_readlines path w) = Inr ls"
  using assms by (simp add: file_readlines_def fs_readFile_def fs_quiet_def put_lines_rstrip split_put_lines [of line_break])

lemma digit_no_break [simp]: "d < 16 \<Longrightarrow> \<not> line_break (digit_char d)"
  by (auto simp: line_break_def Let_def digit_char_code)

lemma tag_no_break: "c \<in> set (SHA_CKSUM_TAG @ ''='') \<Longrightarrow> \<not> line_break c"
  by (auto simp: SHA_CKSUM_TAG_def line_break_def)

lemma hexdigest_chars: "c \<in> set (hexdigest d) \<Longrightarrow> \<exists>n<16. c = digit_char n"
proof -
  have "\<exists>n<16. c = digit_char n" if "c \<in> set (fmt_x 2 k)" for k
    using that to_base_digits [of 16 k] by (auto simp: fmt_x_digits simp del: digit_char_0 intro: exI [of _ "0 :: nat"])
  moreover assume "c \<in> set (hexdigest d)"
  ultimately show ?thesis by (auto simp: hexdigest_def)
qed

interpretation frw: meta_rw "file_env sha1 path" "\<lambda>c. \<not> line_break c" "\<lambda>w. fs_files w path" fs_quiet "\<lambda>_. True"
  for sha1 path
proof
  fix ls w w' assume "e_writelines (file_env sha1 path) ls w = (Inr (), w')"
    "\<forall>l \<in> set ls. \<forall>c \<in> set l. \<not> line_break c" "fs_quiet w'"
  then show "\<exists>ls'. fst (e_readlines (file_env sha1 path) w') = Inr ls' \<and> set ls' = set ls"
    using file_read_written [OF file_written] by (simp add: file_env_def)
next
  fix ls w e w' assume "e_writelines (file_env sha1 path) ls w = (Inl e, w')"
  then show "fs_files w' path = fs_files w path" using file_write_failed by (simp add: file_env_def)
next
  fix w w' assume "fs_quiet w" "fs_quiet w'" "fs_files w path = fs_files w' path"
  then show "fst (e_readlines (file_env sha1 path) w) = fst (e_readlines (file_env sha1 path) w')"
    by (auto simp: file_env_def file_readlines_def fs_readFile_def fs_quiet_def split: option.splits)
next
  fix w show "fs_files (snd (e_readlines (file_env sha1 path) w)) path = fs_files w path"
    by (auto simp: file_env_def file_readlines_def fs_readFile_def fs_tick_def split: option.splits prod.splits sum.splits)
next
  fix w ls w' l c assume "e_readlines (file_env sha1 path) w = (Inr ls, w')" "l \<in> set ls" "c \<in> set l"
  then show "\<not> line_break c" using split_lines_clean [of "[]" line_break]
    by (fastforce simp: file_env_def file_readlines_def split: option.splits prod.splits sum.splits if_splits)
next
  fix c b assume "c \<in> set (format_line SHA_CKSUM_TAG (e_sha1 (file_env sha1 path) b))"
  then show "\<not> line_break c" using hexdigest_chars [of c "sha1 b"] tag_no_break [of c]
    by (auto simp: format_line_def file_env_def)
qed auto

subsection \<open>The tags meet the contract\<close>

lemma fmt_d_is_digit: "c \<in> set (fmt_d 0 (int n)) \<Longrightarrow> is_digit c"
  using fmt_d_chars [of "int n" c 0] by (auto simp: is_digit_def digit_char_code)

lemma fmt_d_not_Nil [simp]: "fmt_d 0 (int n) \<noteq> []"
  by (simp add: fmt_d_digits)

lemma decode_escape:
  assumes "n < 256"
  shows "lvmTagDecode (CHR ''&'' # fmt_d 0 (int n) @ CHR ''&'' # rest) = map_option ((#) (char_of n)) (lvmTagDecode rest)"
proof -
  have "takeWhile is_digit (fmt_d 0 (int n) @ CHR ''&'' # rest) = fmt_d 0 (int n)"
    "dropWhile is_digit (fmt_d 0 (int n) @ CHR ''&'' # rest) = CHR ''&'' # rest"
    using fmt_d_is_digit by (simp_all add: takeWhile_append2 dropWhile_append2 is_digit_def)
  then show ?thesis using assms by (subst lvmTagDecode.simps) (simp add: Let_def)
qed

lemma decode_plain: "c \<noteq> CHR ''&'' \<Longrightarrow> lvmTagDecode (c # cs) = map_option ((#) c) (lvmTagDecode cs)"
  by (subst lvmTagDecode.simps) (simp add: Let_def)

lemma lvmTag_round_trip: "lvmTagDecode (lvmTagEncode s) = Some s"
proof (induction s)
  case Nil
  show ?case by (subst lvmTagDecode.simps) (simp add: lvmTagEncode_def)
next
  case (Cons c s)
  have "c \<noteq> CHR ''&''" if "\<not> invalid_char c" using that by (auto simp: invalid_char_def)
  then show ?case
    using Cons decode_escape [OF of_char_lt [of c]] by (simp add: lvmTagEncode_def decode_plain)
qed

lemma make_tag_inj: "make_tag x = make_tag y \<longleftrightarrow> x = y"
  unfolding make_tag_def by (metis append_same_eq lvmTag_round_trip option.inject same_append_eq)

lemma make_tag_prefix: "has_prefix (make_tag x)" "drop (length METADATA_TAG_PREFIX) (make_tag x) = lvmTagEncode x"
  by (simp_all add: has_prefix_def make_tag_def)

text \<open>Every metadata tag was made by this code.\<close>

definition canonical :: "pystr list \<Rightarrow> bool" where
  "canonical tags \<longleftrightarrow> (\<forall>t \<in> set tags. has_prefix t \<longrightarrow> t \<in> range make_tag)"

lemma tag_lines_canonical:
  "canonical tags \<Longrightarrow> \<exists>ls. tag_lines tags = Some ls \<and> set ls = {x. make_tag x \<in> set tags}"
proof (induction tags)
  case (Cons t tags)
  then obtain ls where ls: "tag_lines tags = Some ls" "set ls = {x. make_tag x \<in> set tags}"
    by (auto simp: canonical_def)
  show ?case
  proof (cases "has_prefix t")
    case True
    then obtain x where "t = make_tag x" using Cons.prems by (auto simp: canonical_def)
    then show ?thesis using ls by (auto simp: tag_lines_def make_tag_prefix lvmTag_round_trip make_tag_inj)
  next
    case False
    then have "make_tag x \<noteq> t" for x using make_tag_prefix by blast
    then show ?thesis using ls False by (simp add: tag_lines_def)
  qed
qed (simp add: tag_lines_def)

text \<open>
  What the code relies on of LVM: \<open>vgs\<close> reports the tags, and \<open>vgchange\<close> removes and adds the tags it
  is given, or fails and changes nothing.
\<close>

definition lvm_laws :: "'s lvm \<Rightarrow> ('s \<Rightarrow> pystr list) \<Rightarrow> ('s \<Rightarrow> bool) \<Rightarrow> bool" where
  "lvm_laws l tags quiet \<longleftrightarrow>
     (\<forall>s. quiet s \<longrightarrow> fst (vg_tags l s) = Inr (tags s)) \<and>
     (\<forall>s ts. fst (vg_tags l s) = Inr ts \<longrightarrow> ts = tags s) \<and>
     (\<forall>s. tags (snd (vg_tags l s)) = tags s) \<and>
     (\<forall>del add s rc s'. vgchange l del add s = (rc, s') \<longrightarrow>
        (if rc = 0 then set (tags s') = set (tags s) - set del \<union> set add else tags s' = tags s))"

lemma lvm_lawsD:
  assumes "lvm_laws l tags quiet"
  shows "quiet s \<Longrightarrow> fst (vg_tags l s) = Inr (tags s)" "fst (vg_tags l s) = Inr ts \<Longrightarrow> ts = tags s"
    "tags (snd (vg_tags l s)) = tags s"
    "vgchange l del add s = (0, s') \<Longrightarrow> set (tags s') = set (tags s) - set del \<union> set add"
    "vgchange l del add s = (rc, s') \<Longrightarrow> rc \<noteq> 0 \<Longrightarrow> tags s' = tags s"
  using assms unfolding lvm_laws_def by (blast, blast, blast, presburger, presburger)

lemma tag_readlines_tags:
  "tag_readlines l s =
     (case vg_tags l s of
        (Inl e, s') \<Rightarrow> (Inl e, s')
      | (Inr ts, s') \<Rightarrow> (case tag_lines ts of None \<Rightarrow> Inl PUnicodeError | Some ls \<Rightarrow> Inr ls, s'))"
  by (simp add: tag_readlines_def obind_def)

lemma tag_readlines_ok:
  assumes "lvm_laws l tags quiet" and "canonical (tags s)" and "quiet s"
  shows "\<exists>ls. fst (tag_readlines l s) = Inr ls \<and> set ls = {x. make_tag x \<in> set (tags s)}"
proof -
  obtain s' where "vg_tags l s = (Inr (tags s), s')"
    using lvm_lawsD(1) [OF assms(1,3)] by (cases "vg_tags l s") simp
  then show ?thesis using tag_lines_canonical [OF assms(2)] by (auto simp: tag_readlines_tags)
qed

lemma tag_readlines_state: "snd (tag_readlines l s) = snd (vg_tags l s)"
  by (simp add: tag_readlines_tags split: prod.split sum.split)

lemma tag_readlines_keeps: "lvm_laws l tags quiet \<Longrightarrow> tags (snd (tag_readlines l s)) = tags s"
  using lvm_lawsD(3) by (simp add: tag_readlines_state)

lemma tag_readlines_Inr:
  assumes "lvm_laws l tags quiet" and "canonical (tags s)" and "tag_readlines l s = (Inr ls, s')"
  shows "set ls = {x. make_tag x \<in> set (tags s)}" "tags s' = tags s"
proof -
  obtain ts where ts: "vg_tags l s = (Inr ts, s')" "tag_lines ts = Some ls"
    using assms(3) by (auto simp: tag_readlines_tags split: prod.splits sum.splits option.splits)
  have "ts = tags s" using lvm_lawsD(2) [OF assms(1), of s ts] ts(1) by simp
  then show "set ls = {x. make_tag x \<in> set (tags s)}" using tag_lines_canonical [OF assms(2)] ts(2) by auto
  show "tags s' = tags s" using tag_readlines_keeps [OF assms(1), of s] assms(3) by simp
qed

text \<open>A write leaves the tags of others and exactly the tags of the lines; one that fails leaves all tags.\<close>

lemma tag_written:
  assumes "lvm_laws l tags quiet" and "canonical (tags s)" and "tag_writelines l ls s = (Inr (), s')"
  shows "set (tags s') = {t \<in> set (tags s). \<not> has_prefix t} \<union> make_tag ` set ls"
proof -
  obtain current s1 where rd: "tag_readlines l s = (Inr current, s1)"
    using assms(3) by (auto simp: tag_writelines_def obind_Inr_iff)
  note cur = tag_readlines_Inr [OF assms(1,2) rd]
  let ?del = "map make_tag (filter (\<lambda>item. item \<notin> set ls) (remdups current))"
  let ?add = "map make_tag (filter (\<lambda>item. item \<notin> set current) (remdups ls))"
  have own: "{t \<in> set (tags s). has_prefix t} = make_tag ` set current"
    using assms(2) cur(1) make_tag_prefix(1) by (auto simp: canonical_def)
  have sets: "set (tags s) - make_tag ` (set current - set ls) \<union> make_tag ` (set ls - set current) =
      {t \<in> set (tags s). \<not> has_prefix t} \<union> make_tag ` set ls"
    using own make_tag_inj make_tag_prefix(1) by (auto simp: set_eq_iff image_iff) (metis DiffI)
  have "set (tags s') = set (tags s) - set ?del \<union> set ?add"
  proof (cases "?add = [] \<and> ?del = []")
    case True
    then have "s' = s1" using assms(3) rd by (simp add: tag_writelines_def)
    then show ?thesis using True cur(2) by simp
  next
    case False
    then have "changeVGTags l ?del ?add s1 = (Inr (), s')" using assms(3) rd by (simp add: tag_writelines_def Let_def split: if_splits)
    then have "vgchange l (remdups ?del) (remdups ?add) s1 = (0, s')"
      by (auto simp: changeVGTags_def split: if_splits prod.splits)
    from lvm_lawsD(4) [OF assms(1) this] show ?thesis using cur(2) by simp
  qed
  moreover have "set ?del = make_tag ` (set current - set ls)" "set ?add = make_tag ` (set ls - set current)" by auto
  ultimately show ?thesis using sets by simp
qed

lemma tag_write_failed:
  assumes "lvm_laws l tags quiet" and "tag_writelines l ls s = (Inl e, s')"
  shows "tags s' = tags s"
proof (cases "tag_readlines l s")
  case (Pair r s1)
  have s1: "tags s1 = tags s" using tag_readlines_keeps [OF assms(1), of s] Pair by simp
  have change: "tags s2 = tags s1" if "changeVGTags l d a s1 = (Inl e, s2)" for d a s2
    using that lvm_lawsD(5) [OF assms(1)] by (auto simp: changeVGTags_def split: if_splits prod.splits)
  show ?thesis
  proof (cases r)
    case (Inr current)
    then show ?thesis using assms(2) Pair change s1 by (auto simp: tag_writelines_def Let_def split: if_splits)
  qed (use assms(2) Pair s1 in \<open>simp add: tag_writelines_def\<close>)
qed

lemma tag_write_canonical:
  assumes "lvm_laws l tags quiet" and "canonical (tags s)"
  shows "canonical (tags (snd (tag_writelines l ls s)))"
proof (cases "tag_writelines l ls s")
  case (Pair r s')
  show ?thesis
  proof (cases r)
    case (Inl e)
    then show ?thesis using tag_write_failed [OF assms(1)] Pair assms(2) by simp
  next
    case (Inr u)
    then show ?thesis using tag_written [OF assms] Pair by (auto simp: canonical_def)
  qed
qed

lemma tag_read_written:
  assumes "lvm_laws l tags quiet" and "canonical (tags s)" and "tag_writelines l ls s = (Inr (), s')" and "quiet s'"
  shows "\<exists>ls'. fst (tag_readlines l s') = Inr ls' \<and> set ls' = set ls"
proof -
  have "canonical (tags s')" using tag_write_canonical [OF assms(1,2), of ls] assms(3) by simp
  then obtain ls' where ls': "fst (tag_readlines l s') = Inr ls'" "set ls' = {x. make_tag x \<in> set (tags s')}"
    using tag_readlines_ok [OF assms(1) _ assms(4)] by blast
  have "{x. make_tag x \<in> set (tags s')} = set ls"
    using tag_written [OF assms(1,2,3)] make_tag_prefix(1) by (auto simp: make_tag_inj)
  then show ?thesis using ls' by simp
qed

lemma tag_meta_rw:
  assumes laws: "lvm_laws l tags quiet"
  shows "meta_rw (tag_env sha1 l) (\<lambda>_. True) tags quiet (\<lambda>s. canonical (tags s))"
proof
  fix ls w w' assume "e_writelines (tag_env sha1 l) ls w = (Inr (), w')" "canonical (tags w)" "quiet w'"
  then show "\<exists>ls'. fst (e_readlines (tag_env sha1 l) w') = Inr ls' \<and> set ls' = set ls"
    using tag_read_written [OF laws] by (simp add: tag_env_def)
next
  fix ls w e w' assume "e_writelines (tag_env sha1 l) ls w = (Inl e, w')"
  then show "tags w' = tags w" using tag_write_failed [OF laws] by (simp add: tag_env_def)
next
  fix w w' assume q: "quiet w" "quiet w'" and eq: "tags w = tags w'"
  then obtain s s' where "vg_tags l w = (Inr (tags w'), s)" "vg_tags l w' = (Inr (tags w'), s')"
    using lvm_lawsD(1) [OF laws q(1)] lvm_lawsD(1) [OF laws q(2)] by (cases "vg_tags l w"; cases "vg_tags l w'") simp
  then show "fst (e_readlines (tag_env sha1 l) w) = fst (e_readlines (tag_env sha1 l) w')"
    by (simp add: tag_env_def tag_readlines_tags)
next
  fix w ls assume "canonical (tags w)"
  then show "canonical (tags (snd (e_writelines (tag_env sha1 l) ls w)))"
    using tag_write_canonical [OF laws] by (simp add: tag_env_def)
qed (use tag_readlines_keeps [OF laws] in \<open>simp_all add: tag_env_def\<close>)

lemma file_env_writelines: "e_writelines (file_env sha1 path) = file_writelines path"
  by (simp add: file_env_def)

subsection \<open>Properties\<close>

text \<open>
  C32. A transaction on the metadata of a file domain is all or nothing, in memory and on the storage,
  whatever storage call fails. Its body is any sequence of assignments, deletions, updates and clears,
  nested in the transaction, that may raise. When the transaction returns, the dict is what the body means;
  when it raises, the dict is as before and the exception is the one of the body or of the writer. In both cases
  a fresh object that reads the file accepts the seal and finds the dict that is in memory.
\<close>

theorem file_transaction_atomic:
  assumes "pd_refresh (file_env sha1 path) (new_pdict w) = (Inr (), s)" and "fs_quiet w"
    and "\<forall>(k, v) \<in> set (concat (map cmd_items cs)). sane_key k \<and> (\<forall>c \<in> set k \<union> set v. \<not> line_break c)"
    and "transaction (file_env sha1 path) (exec_cmds (file_env sha1 path) cs) s = (r, s')" and "fs_quiet (pd_rw s')"
  shows "(\<exists>t. pd_refresh (file_env sha1 path) (new_pdict (pd_rw s')) = (Inr (), t) \<and>
       map_of (pd_metadata t) = map_of (pd_metadata s')) \<and>
    (case r of
       Inr _ \<Rightarrow> spec_cmds cs (map_of (pd_metadata s)) = Inr (map_of (pd_metadata s'))
     | Inl e \<Rightarrow> pd_metadata s' = pd_metadata s \<and>
         (spec_cmds cs (map_of (pd_metadata s)) = Inl e \<or>
          (\<exists>ls. fst (file_writelines path ls (pd_rw s)) = Inl e)))"
  using frw.transaction_all_or_nothing [OF assms(1,2) TrueI assms(3,4,5)] unfolding file_env_writelines by blast

definition sample_fs :: fs where
  "sample_fs = \<lparr>fs_files = [''m'' \<mapsto> ''A=1'' @ [NL]], fs_fault = (\<lambda>n. if n = 1 then Some (ESTALE, ''x'') else None), fs_count = 0\<rparr>"

definition sample_env :: "fs pd_env" where
  "sample_env = file_env (take 2) ''m''"

definition sample_cmds :: "cmd list" where
  "sample_cmds = [Set ''B'' ''2'', Del ''A'']"

theorem file_transaction_atomic_witness:
  "\<exists>s s'. transaction sample_env (exec_cmds sample_env sample_cmds) s = (Inr (), s') \<and>
     spec_cmds sample_cmds (map_of (pd_metadata s)) = Inr (map_of (pd_metadata s')) \<and>
     (\<exists>t. pd_refresh sample_env (new_pdict (pd_rw s')) = (Inr (), t) \<and> map_of (pd_metadata t) = map_of (pd_metadata s'))"
proof -
  let ?s = "snd (pd_refresh sample_env (new_pdict sample_fs))"
  let ?t = "transaction sample_env (exec_cmds sample_env sample_cmds) ?s"
  have "pd_refresh sample_env (new_pdict sample_fs) = (Inr (), ?s)"
    by (rule prod_eqI) (simp_all, code_simp)
  moreover have "fs_quiet sample_fs" by code_simp
  moreover have "\<forall>(k, v) \<in> set (concat (map cmd_items sample_cmds)). sane_key k \<and> (\<forall>c \<in> set k \<union> set v. \<not> line_break c)"
    by code_simp
  moreover have r: "fst ?t = Inr ()" by code_simp
  then have "?t = (Inr (), snd ?t)" by (metis prod.collapse)
  moreover have "fs_quiet (pd_rw (snd ?t))" by code_simp
  ultimately show ?thesis
    using file_transaction_atomic [of "take 2" "''m''" sample_fs ?s sample_cmds "Inr ()" "snd ?t"]
    unfolding sample_env_def by auto
qed

text \<open>
  C33. Metadata that is written to the tags of a volume group is read back: when LVM keeps its laws and the
  metadata tags of the group were made by this code, a write that returns leaves exactly the given lines, whatever
  characters they have, and does not touch the other tags of the group; a write that raises changes no tag.
\<close>

theorem tags_round_trip:
  assumes "lvm_laws l tags quiet" and "canonical (tags s)" and "tag_writelines l ls s = (r, s')" and "quiet s'"
  shows "case r of
      Inl e \<Rightarrow> tags s' = tags s
    | Inr _ \<Rightarrow> (\<exists>ls'. fst (tag_readlines l s') = Inr ls' \<and> set ls' = set ls) \<and>
        {t \<in> set (tags s'). \<not> has_prefix t} = {t \<in> set (tags s). \<not> has_prefix t} \<and> canonical (tags s')"
proof (cases r)
  case (Inl e)
  then show ?thesis using tag_write_failed [OF assms(1)] assms(3) by simp
next
  case (Inr u)
  then have ok: "tag_writelines l ls s = (Inr (), s')" using assms(3) by simp
  have "{t \<in> set (tags s'). \<not> has_prefix t} = {t \<in> set (tags s). \<not> has_prefix t}"
    using tag_written [OF assms(1,2) ok] make_tag_prefix(1) by auto
  then show ?thesis
    using tag_read_written [OF assms(1,2) ok assms(4)] tag_write_canonical [OF assms(1,2), of ls] ok Inr by simp
qed

definition sample_lvm :: "pystr list lvm" where
  "sample_lvm = \<lparr>vg_tags = (\<lambda>s. (Inr s, s)), vgchange = (\<lambda>del add s. (0, filter (\<lambda>t. t \<notin> set del) s @ add))\<rparr>"

definition sample_tags :: "pystr list" where
  "sample_tags = [''RHAT_storage_domain'', make_tag ''A=1'']"

theorem tags_round_trip_witness:
  "\<exists>ls'. fst (tag_readlines sample_lvm (snd (tag_writelines sample_lvm [''B=a b&''] sample_tags))) = Inr ls' \<and>
     set ls' = {''B=a b&''}"
proof -
  let ?w = "tag_writelines sample_lvm [''B=a b&''] sample_tags"
  have "lvm_laws sample_lvm id (\<lambda>_. True)" by (auto simp: lvm_laws_def sample_lvm_def)
  moreover have "canonical (id sample_tags)"
    by (simp add: canonical_def sample_tags_def has_prefix_def METADATA_TAG_PREFIX_def)
  moreover have "fst ?w = Inr ()" by code_simp
  then have "?w = (Inr (), snd ?w)" by (metis prod.collapse)
  ultimately show ?thesis
    using tags_round_trip [of sample_lvm id "\<lambda>_. True" sample_tags "[''B=a b&'']" "Inr ()" "snd ?w"] by simp
qed

end
