(* ===== verification/Block_Io.thy ===== *)
theory Block_Io
  imports Vdsm_Text
begin

text \<open>
  \<^verbatim>\<open>lib/vdsm/storage/misc.py\<close>: reading blocks of a device with the command \<^verbatim>\<open>dd\<close> and direct I/O, which needs
  every request to be a multiple of the block size at an offset that is a multiple of it. \<^verbatim>\<open>dd\<close> is a
  parameter: for the content of the device, \<open>skip\<close>, \<open>bs\<close> and \<open>count\<close> it gives the exit status, the output
  and the lines of stderr.
\<close>

datatype bio_error = MiscBlockReadException | MiscBlockReadIncomplete | BInvalidParameter | BIndexError

type_synonym dd = "bytes \<Rightarrow> nat \<Rightarrow> nat \<Rightarrow> nat \<Rightarrow> nat \<times> bytes \<times> bytes list"

definition KiB :: nat where "KiB = 1024"
definition MiB :: nat where "MiB = 1024 ^ 2"

subsection \<open>Splitting a range into requests\<close>

fun align_loop :: "nat \<Rightarrow> nat \<Rightarrow> nat \<Rightarrow> nat \<times> nat \<times> nat" where
  "align_loop iounit len offset =
     (if iounit > 1 then
        if len \<ge> iounit \<and> offset mod iounit = 0 then (iounit, len div iounit, offset div iounit)
        else align_loop (iounit div 2) len offset
      else (iounit, len, offset))"

declare align_loop.simps [simp del]

definition alignData :: "nat \<Rightarrow> nat \<Rightarrow> nat \<times> nat \<times> nat" where
  "alignData len offset =
     (if len < MiB \<and> offset mod len = 0 \<and> len mod 512 = 0 then (len, 1, offset div len)
      else align_loop MiB len offset)"

definition first_word :: "bytes \<Rightarrow> bytes option" where
  "first_word s =
     (let t = takeWhile (\<lambda>c. \<not> py_space c) (dropWhile py_space s) in if t = [] then None else Some t)"

definition validateDDBytes :: "bytes list \<Rightarrow> nat \<Rightarrow> bio_error + bool" where
  "validateDDBytes ddstderr sz =
     (if length ddstderr \<noteq> 3 then Inl BInvalidParameter
      else case first_word (ddstderr ! 2) of
             None \<Rightarrow> Inl BIndexError
           | Some w \<Rightarrow> (case py_int 10 w of None \<Rightarrow> Inl BInvalidParameter | Some xferred \<Rightarrow> Inr (xferred = int sz)))"

lemma align_loop_unit:
  "0 < iounit \<Longrightarrow> 0 < len \<Longrightarrow> align_loop iounit len offset = (u, c, o') \<Longrightarrow> 0 < u \<and> u \<le> len"
proof (induction iounit len offset rule: align_loop.induct)
  case (1 iounit len offset)
  then show ?case by (auto simp: align_loop.simps [of iounit] split: if_splits)
qed

lemma alignData_unit: "0 < len \<Longrightarrow> alignData len offset = (u, c, o') \<Longrightarrow> 0 < u \<and> u \<le> len"
  using align_loop_unit [of MiB len offset u c o'] by (auto simp: alignData_def MiB_def split: if_splits)

lemma alignData_shrinks: "0 < len \<Longrightarrow> (u, c, o') = alignData len offset \<Longrightarrow> len mod u < len"
  using alignData_unit [of len offset u c o'] by (metis mod_less_divisor order_less_le_trans)

function read_loop :: "dd \<Rightarrow> bytes \<Rightarrow> nat \<Rightarrow> nat \<Rightarrow> nat \<Rightarrow> bytes \<Rightarrow> bio_error + bytes" where
  "read_loop dd name stop left offset acc =
     (if left = 0 then Inr acc
      else case alignData left offset of
             (iounit, count, iooffset) \<Rightarrow>
               (case dd name iooffset iounit count of
                  (rc, out, err) \<Rightarrow>
                    if rc \<noteq> 0 then Inl MiscBlockReadException
                    else case validateDDBytes err (iounit * count) of
                           Inl e \<Rightarrow> Inl e
                         | Inr ok \<Rightarrow>
                             if \<not> ok then Inl MiscBlockReadIncomplete
                             else read_loop dd name stop (left mod iounit) (stop - left mod iounit) (acc @ out)))"
  by auto

termination read_loop
  by (relation "measure (\<lambda>(dd, name, stop, left, offset, acc). left)") (simp, use alignData_shrinks in force)

declare read_loop.simps [simp del]

text \<open>The offset after a request is \<open>baseoffset + size - left\<close>.\<close>

definition readblock :: "dd \<Rightarrow> bytes \<Rightarrow> nat \<Rightarrow> nat \<Rightarrow> bio_error + bytes" where
  "readblock dd name offset sz =
     (if sz mod 512 \<noteq> 0 \<or> offset mod 512 \<noteq> 0 then Inl MiscBlockReadException
      else read_loop dd name (offset + sz) sz offset [])"

subsection \<open>Every request is aligned\<close>

lemma align_loop_aligned:
  assumes "9 \<le> k" and "512 dvd len" and "0 < len" and "512 dvd offset" and "align_loop (2 ^ k) len offset = (u, c, o')"
  shows "512 dvd u \<and> u * o' = offset \<and> c = len div u"
  using assms
proof (induction k)
  case (Suc k)
  have one: "(1 :: nat) < 2 ^ Suc k" by (rule one_less_power) simp_all
  show ?case
  proof (cases "2 ^ Suc k \<le> len \<and> offset mod 2 ^ Suc k = 0")
    case True
    then have "u = 2 ^ Suc k" "c = len div u" "o' = offset div u"
      using Suc.prems(5) one by (auto simp: align_loop.simps [of "2 ^ Suc k"] simp del: power_Suc One_nat_def)
    moreover have "(2 :: nat) ^ 9 dvd 2 ^ Suc k" using Suc.prems(1) by (rule le_imp_power_dvd)
    ultimately show ?thesis using True by (auto simp del: power_Suc)
  next
    case False
    have "align_loop (2 ^ Suc k) len offset = align_loop (2 ^ Suc k div 2) len offset"
      using False one by (subst align_loop.simps) (auto simp del: power_Suc One_nat_def)
    moreover have "9 \<le> k"
    proof (rule ccontr)
      assume "\<not> 9 \<le> k"
      then have "Suc k = 9" using Suc.prems(1) by simp
      then show False using False Suc.prems(2,3,4) by (auto simp: dvd_imp_le)
    qed
    ultimately show ?thesis using Suc by simp
  qed
qed simp

lemma alignData_aligned:
  assumes "512 dvd len" and "0 < len" and "512 dvd offset" and "alignData len offset = (u, c, o')"
  shows "512 dvd u" "0 < u" "u * o' = offset" "u * c + len mod u = len"
proof -
  have "512 dvd u \<and> u * o' = offset \<and> c = len div u"
  proof (cases "len < MiB \<and> offset mod len = 0 \<and> len mod 512 = 0")
    case True
    then show ?thesis using assms by (auto simp: alignData_def)
  next
    case False
    then have "alignData len offset = align_loop (2 ^ 20) len offset" by (auto simp: alignData_def MiB_def)
    then show ?thesis using align_loop_aligned [of 20 len offset u c o'] assms by simp
  qed
  then show "512 dvd u" "u * o' = offset" "u * c + len mod u = len" by auto
  show "0 < u" using alignData_unit [OF assms(2,4)] by simp
qed

text \<open>
  What \<^verbatim>\<open>dd\<close> does with a request that is aligned and inside of the device: it copies the bytes and reports
  their number at the start of the third line.
\<close>

definition dd_reads :: "dd \<Rightarrow> bytes \<Rightarrow> bool" where
  "dd_reads dd dev \<longleftrightarrow>
     (\<forall>skip bs count. 512 dvd bs \<longrightarrow> 0 < bs \<longrightarrow> (skip + count) * bs \<le> length dev \<longrightarrow>
        (\<exists>err. dd dev skip bs count = (0, slice (skip * bs) ((skip + count) * bs) dev, err) \<and>
           length err = 3 \<and> first_word (err ! 2) = Some (fmt_d 0 (int (count * bs)))))"

lemma slice_append: "a \<le> b \<Longrightarrow> b \<le> c \<Longrightarrow> slice a b xs @ slice b c xs = slice a c xs"
proof -
  assume "a \<le> b" "b \<le> c"
  then have "c - a = (b - a) + (c - b)" "b = a + (b - a)" by simp_all
  then show ?thesis unfolding slice_def by (metis drop_drop take_add add.commute)
qed

lemma read_loop_reads:
  assumes law: "dd_reads dd dev" and "stop \<le> length dev" and "left \<le> stop" and "512 dvd left" and "512 dvd stop"
  shows "read_loop dd dev stop left (stop - left) acc = Inr (acc @ slice (stop - left) stop dev)"
  using assms(3,4)
proof (induction left arbitrary: acc rule: less_induct)
  case (less left)
  show ?case
  proof (cases "left = 0")
    case False
    obtain u c o' where al: "alignData left (stop - left) = (u, c, o')" by (cases "alignData left (stop - left)")
    have "512 dvd stop - left" using assms(5) less.prems(2) by simp
    note A = alignData_aligned [OF less.prems(2) _ this al]
    have pos: "0 < left" using False by simp
    have o': "o' * u = stop - left" and c: "c * u + left mod u = left" using A(3,4) [OF pos] by (simp_all add: mult.commute)
    have "(o' + c) * u = o' * u + c * u" by (rule add_mult_distrib)
    then have ends: "(o' + c) * u = stop - left mod u" "o' * u = stop - left" using o' c less.prems(1) by linarith+
    have "stop - left mod u \<le> length dev" using assms(2) by linarith
    then obtain err where dd: "dd dev o' u c = (0, slice (stop - left) (stop - left mod u) dev, err)"
      "length err = 3" "first_word (err ! 2) = Some (fmt_d 0 (int (c * u)))"
      using law [unfolded dd_reads_def, rule_format, of u o' c] A(1,2) [OF pos] assms(2) by (auto simp: ends)
    have m: "left mod u < left" using alignData_shrinks [OF pos al [symmetric]] .
    have "512 dvd left mod u" using less.prems(2) A(1) [OF pos] by (simp add: dvd_mod)
    note IH = less.IH [OF m _ this]
    have "slice (stop - left) (stop - left mod u) dev @ slice (stop - left mod u) stop dev = slice (stop - left) stop dev"
      using m by (intro slice_append) auto
    then show ?thesis
      using IH m less.prems(1) False
      by (subst read_loop.simps) (simp add: al dd validateDDBytes_def mult.commute)
  qed (simp add: read_loop.simps slice_def)
qed

lemma readblock_range:
  assumes "dd_reads dd dev" and "offset + sz \<le> length dev" and "512 dvd offset" and "512 dvd sz"
  shows "readblock dd dev offset sz = Inr (slice offset (offset + sz) dev)"
  using read_loop_reads [OF assms(1,2), of sz "[]"] assms(3,4) by (simp add: readblock_def)

text \<open>
  C34. Reading a range of a device ends, whatever the range: each request takes at least the next I/O unit, so
  what is left shrinks. A range that is aligned to the block size and inside of the device is read with requests
  that are all multiples of the block size at offsets that are multiples of their unit, the only requests that
  \<^verbatim>\<open>dd\<close> is assumed to serve, and the result is exactly the bytes of the range. A range that is not aligned is
  refused.
\<close>

theorem readblock_reads:
  assumes "dd_reads dd dev" and "offset + sz \<le> length dev"
  shows "readblock dd dev offset sz =
    (if 512 dvd offset \<and> 512 dvd sz then Inr (slice offset (offset + sz) dev) else Inl MiscBlockReadException)"
  using readblock_range [OF assms] by (auto simp: readblock_def dvd_eq_mod_eq_0)

definition sample_dd :: dd where
  "sample_dd dev skip bs count =
     (0, slice (skip * bs) ((skip + count) * bs) dev, [[], [], fmt_d 0 (int (count * bs)) @ '' bytes''])"

lemma first_word_digits: "first_word (fmt_d 0 (int n) @ CHR '' '' # rest) = Some (fmt_d 0 (int n))"
proof -
  have d: "\<not> py_space c" if "c \<in> set (fmt_d 0 (int n))" for c
    using fmt_d_chars [OF _ that] digit_char_neq [of _ "CHR '' ''"] by (auto simp: py_space_def digit_char_code)
  obtain c cs where cs: "fmt_d 0 (int n) = c # cs" by (cases "fmt_d 0 (int n)") (auto simp: fmt_d_digits)
  have "dropWhile py_space (fmt_d 0 (int n) @ CHR '' '' # rest) = fmt_d 0 (int n) @ CHR '' '' # rest"
    using d by (simp add: cs)
  moreover have "takeWhile (\<lambda>c. \<not> py_space c) (fmt_d 0 (int n) @ CHR '' '' # rest) = fmt_d 0 (int n)"
    using d by (simp add: takeWhile_append2 py_space_def)
  ultimately show ?thesis by (simp add: first_word_def cs)
qed

lemma sample_dd_reads: "dd_reads sample_dd dev"
  by (simp add: dd_reads_def sample_dd_def first_word_digits del: of_nat_mult)

theorem readblock_reads_witness:
  "readblock sample_dd (replicate 512 NUL @ replicate 1024 (CHR ''a'')) 512 1024 = Inr (replicate 1024 (CHR ''a''))"
  using readblock_reads [OF sample_dd_reads, of 512 1024 "replicate 512 NUL @ replicate 1024 (CHR ''a'')"]
  by (simp add: slice_def)

end
