(* ===== verification/Volume_Metadata.thy ===== *)
theory Volume_Metadata
  imports Persistent Block_Io
begin

text \<open>
  \<^verbatim>\<open>lib/vdsm/storage/volumemetadata.py\<close>, the metadata of a volume and the text it is stored as, and the
  metadata slots of a block domain in \<^verbatim>\<open>lib/vdsm/storage/blockSD.py\<close> and \<^verbatim>\<open>lib/vdsm/storage/blockVolume.py\<close>:
  where the slot of a volume is, how it is read and written, and the conversion of a domain from version 4
  to version 5. The metadata volume is its bytes.
\<close>

subsection \<open>Fields\<close>

datatype pyval = PStr pystr | PInt int

datatype vmd_error =
    VKeyError pystr
  | MetaDataKeyNotFoundError pystr
  | MetadataCleared
  | MetadataOverflowError bytes
  | VAssertionError pystr
  | VUnicodeDecodeError
  | VValueError
  | VIndexError
  | VRuntimeError
  | VReadError bio_error
  | VolumeMetadataReadError
  | VolumeMetadataWriteError

record vmd =
  vm_domain :: pyval
  vm_image :: pyval
  vm_puuid :: pyval
  vm_capacity :: int
  vm_format :: pyval
  vm_type :: pyval
  vm_voltype :: pyval
  vm_disktype :: pyval
  vm_description :: pystr
  vm_legality :: pyval
  vm_ctime :: int
  vm_generation :: int

definition SC_METADATA_SIZE :: nat where "SC_METADATA_SIZE = 512"
definition BLOCK_SIZE_512 :: int where "BLOCK_SIZE_512 = 512"
definition DESCRIPTION_SIZE :: nat where "DESCRIPTION_SIZE = 210"
definition DEFAULT_GENERATION :: int where "DEFAULT_GENERATION = 0"
definition MAX_GENERATION :: int where "MAX_GENERATION = 999"

definition K_SIZE :: pystr where "K_SIZE = ''SIZE''"
definition K_CAPACITY :: pystr where "K_CAPACITY = ''CAP''"
definition K_TYPE :: pystr where "K_TYPE = ''TYPE''"
definition K_FORMAT :: pystr where "K_FORMAT = ''FORMAT''"
definition K_DISKTYPE :: pystr where "K_DISKTYPE = ''DISKTYPE''"
definition K_VOLTYPE :: pystr where "K_VOLTYPE = ''VOLTYPE''"
definition K_PUUID :: pystr where "K_PUUID = ''PUUID''"
definition K_DOMAIN :: pystr where "K_DOMAIN = ''DOMAIN''"
definition K_CTIME :: pystr where "K_CTIME = ''CTIME''"
definition K_IMAGE :: pystr where "K_IMAGE = ''IMAGE''"
definition K_DESCRIPTION :: pystr where "K_DESCRIPTION = ''DESCRIPTION''"
definition K_LEGALITY :: pystr where "K_LEGALITY = ''LEGALITY''"
definition K_MTIME :: pystr where "K_MTIME = ''MTIME''"
definition K_GENERATION :: pystr where "K_GENERATION = ''GEN''"

lemmas key_defs = K_SIZE_def K_CAPACITY_def K_TYPE_def K_FORMAT_def K_DISKTYPE_def K_VOLTYPE_def K_PUUID_def
  K_DOMAIN_def K_CTIME_def K_IMAGE_def K_DESCRIPTION_def K_LEGALITY_def K_MTIME_def K_GENERATION_def

definition str_of :: "pyval \<Rightarrow> pystr" where
  "str_of v = (case v of PStr s \<Rightarrow> s | PInt n \<Rightarrow> fmt_d 0 n)"

definition validate_description :: "pyval \<Rightarrow> pystr" where
  "validate_description desc =
     (let s = str_of desc in if length s > DESCRIPTION_SIZE then take DESCRIPTION_SIZE s else s)"

definition validate_integer :: "pystr \<Rightarrow> pyval \<Rightarrow> vmd_error + int" where
  "validate_integer name v = (case v of PInt n \<Rightarrow> Inr n | PStr _ \<Rightarrow> Inl (VAssertionError name))"

text \<open>\<open>now\<close> is the clock, for a volume that is created without a time.\<close>

definition vmd_init ::
  "int \<Rightarrow> pyval \<Rightarrow> pyval \<Rightarrow> pyval \<Rightarrow> pyval \<Rightarrow> pyval \<Rightarrow> pyval \<Rightarrow> pyval \<Rightarrow> pyval \<Rightarrow> pyval \<Rightarrow> pyval \<Rightarrow>
   pyval option \<Rightarrow> pyval \<Rightarrow> vmd_error + vmd" where
  "vmd_init now domain img puuid capacity fmt typ voltype disktype description legality ctime generation =
     rbind (validate_integer ''capacity'' capacity) (\<lambda>cap.
     rbind (validate_integer ''ctime'' (case ctime of None \<Rightarrow> PInt now | Some t \<Rightarrow> t)) (\<lambda>t.
     rbind (validate_integer ''generation'' generation) (\<lambda>gen.
       Inr \<lparr>vm_domain = domain, vm_image = img, vm_puuid = puuid, vm_capacity = cap, vm_format = fmt,
            vm_type = typ, vm_voltype = voltype, vm_disktype = disktype,
            vm_description = validate_description description, vm_legality = legality, vm_ctime = t,
            vm_generation = gen\<rparr>)))"

subsection \<open>Reading the text\<close>

fun parse_md :: "bytes list \<Rightarrow> md \<Rightarrow> vmd_error + md" where
  "parse_md [] md = Inr md"
| "parse_md (line # ls) md =
     (case utf8_decode line of
        None \<Rightarrow> Inl VUnicodeDecodeError
      | Some s \<Rightarrow>
          (if take 3 s = ''EOF'' then Inr md
           else case split_once (CHR ''='') s of
                  None \<Rightarrow> parse_md ls md
                | Some (key, value) \<Rightarrow> parse_md ls (AList.update (str_strip key) (str_strip value) md)))"

definition md_key :: "md \<Rightarrow> pystr \<Rightarrow> vmd_error + pystr" where
  "md_key md k = (case map_of md k of None \<Rightarrow> Inl (VKeyError k) | Some v \<Rightarrow> Inr v)"

definition md_int :: "pystr \<Rightarrow> vmd_error + int" where
  "md_int s = (case py_int 10 s of None \<Rightarrow> Inl VValueError | Some n \<Rightarrow> Inr n)"

definition read_capacity :: "md \<Rightarrow> vmd_error + int" where
  "read_capacity md =
     (case map_of md K_CAPACITY of
        Some c \<Rightarrow> md_int c
      | None \<Rightarrow> rbind (md_key md K_SIZE) (\<lambda>s. rbind (md_int s) (\<lambda>n. Inr (n * BLOCK_SIZE_512))))"

definition build_vmd :: "md \<Rightarrow> vmd_error + vmd" where
  "build_vmd md =
     rbind (read_capacity md) (\<lambda>capacity.
     rbind (md_key md K_DOMAIN) (\<lambda>domain.
     rbind (md_key md K_IMAGE) (\<lambda>img.
     rbind (md_key md K_PUUID) (\<lambda>puuid.
     rbind (md_key md K_FORMAT) (\<lambda>fmt.
     rbind (md_key md K_TYPE) (\<lambda>typ.
     rbind (md_key md K_VOLTYPE) (\<lambda>voltype.
     rbind (md_key md K_DISKTYPE) (\<lambda>disktype.
     rbind (md_key md K_DESCRIPTION) (\<lambda>description.
     rbind (md_key md K_LEGALITY) (\<lambda>legality.
     rbind (rbind (md_key md K_CTIME) md_int) (\<lambda>ctime.
     rbind (case map_of md K_GENERATION of None \<Rightarrow> Inr DEFAULT_GENERATION | Some g \<Rightarrow> md_int g) (\<lambda>generation.
       vmd_init 0 (PStr domain) (PStr img) (PStr puuid) (PInt capacity) (PStr fmt) (PStr typ) (PStr voltype)
         (PStr disktype) (PStr description) (PStr legality) (Some (PInt ctime)) (PInt generation)))))))))))))"

definition from_lines :: "bytes list \<Rightarrow> vmd_error + vmd" where
  "from_lines ls =
     rbind (parse_md ls []) (\<lambda>md.
       case build_vmd md of
         Inl (VKeyError k) \<Rightarrow> Inl (if map_of md ''NONE'' \<noteq> None then MetadataCleared else MetaDataKeyNotFoundError k)
       | r \<Rightarrow> r)"

subsection \<open>Writing the text\<close>

definition vmd_info :: "vmd \<Rightarrow> int \<Rightarrow> (pystr \<times> pyval) list" where
  "vmd_info m domain_version =
     [(K_CTIME, PStr (fmt_d 0 (vm_ctime m))), (K_DESCRIPTION, PStr (vm_description m)), (K_DISKTYPE, vm_disktype m),
      (K_DOMAIN, vm_domain m), (K_FORMAT, vm_format m), (K_GENERATION, PInt (vm_generation m)),
      (K_IMAGE, vm_image m), (K_LEGALITY, vm_legality m), (K_PUUID, vm_puuid m), (K_TYPE, vm_type m),
      (K_VOLTYPE, vm_voltype m)] @
     (if domain_version < 5 then [(K_MTIME, PInt 0), (K_SIZE, PInt (vm_capacity m div BLOCK_SIZE_512))]
      else [(K_CAPACITY, PInt (vm_capacity m))])"

definition info_lines :: "(pystr \<times> pyval) list \<Rightarrow> pystr list" where
  "info_lines info =
     map (\<lambda>key. key @ ''='' @ (case map_of info key of Some v \<Rightarrow> str_of v | None \<Rightarrow> [])) (sort (map fst info))"

definition storage_format :: "vmd \<Rightarrow> int \<Rightarrow> (pystr \<times> pyval) list \<Rightarrow> vmd_error + bytes" where
  "storage_format m domain_version overrides =
     (let info = foldl (\<lambda>i (k, v). AList.update k v i) (vmd_info m domain_version) overrides;
          data = utf8 (put_lines (info_lines info @ [''EOF''])) in
      if length data > SC_METADATA_SIZE then Inl (MetadataOverflowError data) else Inr data)"

subsection \<open>The metadata as a dict\<close>

definition vm_getitem :: "vmd \<Rightarrow> pystr \<Rightarrow> vmd_error + pyval" where
  "vm_getitem m item =
     (if item = K_FORMAT then Inr (vm_format m)
      else if item = K_TYPE then Inr (vm_type m)
      else if item = K_VOLTYPE then Inr (vm_voltype m)
      else if item = K_DISKTYPE then Inr (vm_disktype m)
      else if item = K_CAPACITY then Inr (PStr (fmt_d 0 (vm_capacity m)))
      else if item = K_CTIME then Inr (PStr (fmt_d 0 (vm_ctime m)))
      else if item = K_DOMAIN then Inr (vm_domain m)
      else if item = K_IMAGE then Inr (vm_image m)
      else if item = K_DESCRIPTION then Inr (PStr (vm_description m))
      else if item = K_PUUID then Inr (vm_puuid m)
      else if item = K_LEGALITY then Inr (vm_legality m)
      else if item = K_GENERATION then Inr (PInt (vm_generation m))
      else Inl (VKeyError item))"

definition vm_setitem :: "vmd \<Rightarrow> pystr \<Rightarrow> pyval \<Rightarrow> vmd_error + vmd" where
  "vm_setitem m item v =
     (if item = K_FORMAT then Inr (m\<lparr>vm_format := v\<rparr>)
      else if item = K_TYPE then Inr (m\<lparr>vm_type := v\<rparr>)
      else if item = K_VOLTYPE then Inr (m\<lparr>vm_voltype := v\<rparr>)
      else if item = K_DISKTYPE then Inr (m\<lparr>vm_disktype := v\<rparr>)
      else if item = K_CAPACITY then rbind (validate_integer ''capacity'' v) (\<lambda>n. Inr (m\<lparr>vm_capacity := n\<rparr>))
      else if item = K_CTIME then rbind (validate_integer ''ctime'' v) (\<lambda>n. Inr (m\<lparr>vm_ctime := n\<rparr>))
      else if item = K_DOMAIN then Inr (m\<lparr>vm_domain := v\<rparr>)
      else if item = K_IMAGE then Inr (m\<lparr>vm_image := v\<rparr>)
      else if item = K_DESCRIPTION then Inr (m\<lparr>vm_description := validate_description v\<rparr>)
      else if item = K_PUUID then Inr (m\<lparr>vm_puuid := v\<rparr>)
      else if item = K_LEGALITY then Inr (m\<lparr>vm_legality := v\<rparr>)
      else if item = K_GENERATION then rbind (validate_integer ''generation'' v) (\<lambda>n. Inr (m\<lparr>vm_generation := n\<rparr>))
      else Inl (VKeyError item))"

definition vm_get :: "vmd \<Rightarrow> pystr \<Rightarrow> pyval option \<Rightarrow> vmd_error + pyval option" where
  "vm_get m item dflt =
     (case vm_getitem m item of
        Inr v \<Rightarrow> Inr (Some v)
      | Inl (VKeyError _) \<Rightarrow> Inr dflt
      | Inl e \<Rightarrow> Inl e)"

definition vm_dump :: "vmd \<Rightarrow> (pystr \<times> pyval) list" where
  "vm_dump m =
     [(''capacity'', PInt (vm_capacity m)), (''ctime'', PInt (vm_ctime m)),
      (''description'', PStr (vm_description m)), (''disktype'', vm_disktype m), (''format'', vm_format m),
      (''generation'', PInt (vm_generation m)), (''image'', vm_image m), (''legality'', vm_legality m),
      (''parent'', vm_puuid m), (''type'', vm_type m), (''voltype'', vm_voltype m)]"

subsection \<open>Metadata slots of a block domain\<close>

definition METADATA_BASE_V4 :: nat where "METADATA_BASE_V4 = 0"
definition METADATA_SLOT_SIZE_V4 :: nat where "METADATA_SLOT_SIZE_V4 = 512"
definition METADATA_BASE_V5 :: nat where "METADATA_BASE_V5 = MiB"
definition METADATA_SLOT_SIZE_V5 :: nat where "METADATA_SLOT_SIZE_V5 = 8 * KiB"

lemmas slot_defs = METADATA_BASE_V4_def METADATA_SLOT_SIZE_V4_def METADATA_BASE_V5_def METADATA_SLOT_SIZE_V5_def
  SC_METADATA_SIZE_def MiB_def KiB_def

definition metadata_offset :: "int \<Rightarrow> nat \<Rightarrow> nat" where
  "metadata_offset version slot =
     (if version < 5 then METADATA_BASE_V4 + slot * METADATA_SLOT_SIZE_V4
      else METADATA_BASE_V5 + slot * METADATA_SLOT_SIZE_V5)"

text \<open>The boundaries of \<open>bytes.splitlines()\<close>.\<close>

definition byte_break :: "char \<Rightarrow> bool" where
  "byte_break c \<longleftrightarrow> c = NL \<or> c = CHR 0x0D"

definition ljust_nul :: "bytes \<Rightarrow> bytes" where
  "ljust_nul data = data @ replicate (SC_METADATA_SIZE - length data) NUL"

definition read_metadata_block :: "dd \<Rightarrow> int \<Rightarrow> nat \<Rightarrow> bytes \<Rightarrow> vmd_error + bytes" where
  "read_metadata_block dd version slot dev =
     (case readblock dd dev (metadata_offset version slot) SC_METADATA_SIZE of Inl e \<Rightarrow> Inl (VReadError e) | Inr b \<Rightarrow> Inr b)"

text \<open>A write beyond the end of the volume fails.\<close>

definition write_metadata_block :: "int \<Rightarrow> nat \<Rightarrow> bytes \<Rightarrow> (bytes, vmd_error, unit) op" where
  "write_metadata_block version slot data dev =
     (let off = metadata_offset version slot in
      if off + length data \<le> length dev then (Inr (), overwrite dev off data) else (Inl VIndexError, dev))"

definition clear_metadata_block :: "int \<Rightarrow> nat \<Rightarrow> (bytes, vmd_error, unit) op" where
  "clear_metadata_block version slot = write_metadata_block version slot (replicate SC_METADATA_SIZE NUL)"

definition getMetadata :: "dd \<Rightarrow> int \<Rightarrow> nat \<Rightarrow> bytes \<Rightarrow> vmd_error + vmd" where
  "getMetadata dd version slot dev =
     (case read_metadata_block dd version slot dev of
        Inl _ \<Rightarrow> Inl VolumeMetadataReadError
      | Inr b \<Rightarrow> from_lines (split_lines byte_break [] b))"

definition putMetadata :: "int \<Rightarrow> nat \<Rightarrow> vmd \<Rightarrow> (pystr \<times> pyval) list \<Rightarrow> (bytes, vmd_error, unit) op" where
  "putMetadata version slot m overrides dev =
     (case storage_format m version overrides of
        Inl e \<Rightarrow> (Inl e, dev)
      | Inr data \<Rightarrow> write_metadata_block version slot (ljust_nul data) dev)"

definition setMetadata :: "int \<Rightarrow> nat \<Rightarrow> vmd \<Rightarrow> (pystr \<times> pyval) list \<Rightarrow> (bytes, vmd_error, unit) op" where
  "setMetadata version slot m overrides dev =
     (case putMetadata version slot m overrides dev of
        (Inl _, dev') \<Rightarrow> (Inl VolumeMetadataWriteError, dev')
      | (Inr _, dev') \<Rightarrow> (Inr (), dev'))"

subsection \<open>Conversion from version 4 to version 5\<close>

definition RESERVED_METADATA_SIZE :: nat where "RESERVED_METADATA_SIZE = 17 * MiB"

definition key_not_found :: "vmd_error \<Rightarrow> bool" where
  "key_not_found e = (case e of MetaDataKeyNotFoundError _ \<Rightarrow> True | MetadataCleared \<Rightarrow> True | _ \<Rightarrow> False)"

definition v5_data :: "bytes \<Rightarrow> vmd_error + bytes" where
  "v5_data v4_data =
     (case from_lines (split_lines byte_break [] (rstrip (\<lambda>c. c = NUL) v4_data)) of
        Inl e \<Rightarrow> if key_not_found e then Inr v4_data else Inl e
      | Inr m \<Rightarrow> rbind (storage_format m 5 []) (\<lambda>d. Inr (ljust_nul d)))"

text \<open>The volume is mapped: the assignment of a slice needs as many bytes as the slice has.\<close>

definition convert_slot :: "bytes \<Rightarrow> nat \<Rightarrow> (bytes, vmd_error, unit) op" where
  "convert_slot src slot dst =
     (let v4_off = metadata_offset 4 slot; v5_off = metadata_offset 5 slot in
      case v5_data (slice v4_off (v4_off + SC_METADATA_SIZE) src) of
        Inl e \<Rightarrow> (Inl e, dst)
      | Inr d \<Rightarrow>
          (if length d = SC_METADATA_SIZE \<and> v5_off + SC_METADATA_SIZE \<le> min (length dst) RESERVED_METADATA_SIZE
           then (Inr (), overwrite dst v5_off d) else (Inl VIndexError, dst)))"

fun convert_slots :: "bytes \<Rightarrow> nat list \<Rightarrow> (bytes, vmd_error, unit) op" where
  "convert_slots src [] = ret ()"
| "convert_slots src (slot # slots) = obind (convert_slot src slot) (\<lambda>_. convert_slots src slots)"

definition convert_volumes_metadata :: "dd \<Rightarrow> int \<Rightarrow> int \<Rightarrow> nat list \<Rightarrow> (bytes, vmd_error, unit) op" where
  "convert_volumes_metadata dd current_version target_version occupied dev =
     (if \<not> (current_version = 4 \<and> target_version = 5) then (Inl VRuntimeError, dev)
      else case readblock dd dev METADATA_BASE_V4 (METADATA_BASE_V5 - METADATA_BASE_V4) of
             Inl e \<Rightarrow> (Inl (VReadError e), dev)
           | Inr src \<Rightarrow> convert_slots src occupied dev)"

definition finalize_volumes_metadata :: "int \<Rightarrow> int \<Rightarrow> (bytes, vmd_error, unit) op" where
  "finalize_volumes_metadata current_version target_version dev =
     (if current_version \<noteq> target_version then (Inl VRuntimeError, dev)
      else (Inr (), overwrite dev METADATA_BASE_V4 (replicate (METADATA_BASE_V5 - METADATA_BASE_V4) NUL)))"

end
