(* ===== verification/Volume_Properties.thy ===== *)
theory Volume_Properties
  imports Volume_Metadata
begin

text \<open>
  Properties of the metadata of volumes: what is written is read, it fits the block that is reserved for it,
  slots do not disturb each other, and the conversion to version 5 keeps the metadata of every volume.
\<close>

subsection \<open>The lines of the metadata\<close>

definition vmd_kvs :: "vmd \<Rightarrow> int \<Rightarrow> md" where
  "vmd_kvs m v =
     (if v < 5 then [] else [(K_CAPACITY, fmt_d 0 (vm_capacity m))]) @
     [(K_CTIME, fmt_d 0 (vm_ctime m)), (K_DESCRIPTION, vm_description m), (K_DISKTYPE, str_of (vm_disktype m)),
      (K_DOMAIN, str_of (vm_domain m)), (K_FORMAT, str_of (vm_format m)), (K_GENERATION, fmt_d 0 (vm_generation m)),
      (K_IMAGE, str_of (vm_image m)), (K_LEGALITY, str_of (vm_legality m))] @
     (if v < 5 then [(K_MTIME, fmt_d 0 0)] else []) @
     [(K_PUUID, str_of (vm_puuid m))] @
     (if v < 5 then [(K_SIZE, fmt_d 0 (vm_capacity m div BLOCK_SIZE_512))] else []) @
     [(K_TYPE, str_of (vm_type m)), (K_VOLTYPE, str_of (vm_voltype m))]"

lemma sort_v5:
  "sort [K_CTIME, K_DESCRIPTION, K_DISKTYPE, K_DOMAIN, K_FORMAT, K_GENERATION, K_IMAGE, K_LEGALITY, K_PUUID, K_TYPE,
     K_VOLTYPE, K_CAPACITY] =
   [K_CAPACITY, K_CTIME, K_DESCRIPTION, K_DISKTYPE, K_DOMAIN, K_FORMAT, K_GENERATION, K_IMAGE, K_LEGALITY, K_PUUID,
     K_TYPE, K_VOLTYPE]"
  by code_simp

lemma sort_v4:
  "sort [K_CTIME, K_DESCRIPTION, K_DISKTYPE, K_DOMAIN, K_FORMAT, K_GENERATION, K_IMAGE, K_LEGALITY, K_PUUID, K_TYPE,
     K_VOLTYPE, K_MTIME, K_SIZE] =
   [K_CTIME, K_DESCRIPTION, K_DISKTYPE, K_DOMAIN, K_FORMAT, K_GENERATION, K_IMAGE, K_LEGALITY, K_MTIME, K_PUUID,
     K_SIZE, K_TYPE, K_VOLTYPE]"
  by code_simp

lemma map_fst_info:
  "map fst (vmd_info m v) =
     [K_CTIME, K_DESCRIPTION, K_DISKTYPE, K_DOMAIN, K_FORMAT, K_GENERATION, K_IMAGE, K_LEGALITY, K_PUUID, K_TYPE,
      K_VOLTYPE] @ (if v < 5 then [K_MTIME, K_SIZE] else [K_CAPACITY])"
  by (simp add: vmd_info_def)

lemma info_lines_kvs: "info_lines (vmd_info m v) = map (\<lambda>(k, s). k @ ''='' @ s) (vmd_kvs m v)"
proof (cases "v < 5")
  case True
  then have "sort (map fst (vmd_info m v)) = map fst (vmd_kvs m v)"
    using sort_v4 by (simp add: map_fst_info vmd_kvs_def)
  then show ?thesis using True unfolding info_lines_def by (simp add: vmd_kvs_def vmd_info_def key_defs str_of_def)
next
  case False
  then have "sort (map fst (vmd_info m v)) = map fst (vmd_kvs m v)"
    using sort_v5 by (simp add: map_fst_info vmd_kvs_def)
  then show ?thesis using False unfolding info_lines_def by (simp add: vmd_kvs_def vmd_info_def key_defs str_of_def)
qed

text \<open>Metadata that the text can carry.\<close>

definition clean_str :: "pystr \<Rightarrow> bool" where
  "clean_str s \<longleftrightarrow> stripped s \<and> (\<forall>c \<in> set s. \<not> byte_break c)"

definition clean_val :: "pyval \<Rightarrow> bool" where
  "clean_val v = (case v of PStr s \<Rightarrow> clean_str s | PInt _ \<Rightarrow> False)"

definition vmd_clean :: "vmd \<Rightarrow> bool" where
  "vmd_clean m \<longleftrightarrow>
     list_all clean_val [vm_domain m, vm_image m, vm_puuid m, vm_format m, vm_type m, vm_voltype m, vm_disktype m,
       vm_legality m] \<and>
     clean_str (vm_description m) \<and> length (vm_description m) \<le> DESCRIPTION_SIZE \<and>
     0 \<le> vm_capacity m \<and> 0 \<le> vm_ctime m \<and> 0 \<le> vm_generation m"

lemma clean_val_fmt_d: "0 \<le> n \<Longrightarrow> clean_str (fmt_d 0 n)"
  using stripped_digits [of n 0] fmt_d_clean [of n _ 0] by (auto simp: clean_str_def byte_break_def)

lemma clean_val_str: "clean_val v \<Longrightarrow> clean_str (str_of v) \<and> v = PStr (str_of v)"
  by (cases v) (simp_all add: clean_val_def str_of_def)

lemma kvs_clean:
  assumes "vmd_clean m" and "(k, s) \<in> set (vmd_kvs m v)"
  shows "clean_str s"
  using assms clean_val_str clean_val_fmt_d
  by (auto simp: vmd_clean_def vmd_kvs_def BLOCK_SIZE_512_def split: if_splits)

definition md_key_ok :: "pystr \<Rightarrow> bool" where
  "md_key_ok k \<longleftrightarrow> clean_str k \<and> CHR ''='' \<notin> set k \<and> take 3 (k @ ''='') \<noteq> ''EOF'' \<and> 3 \<le> length k \<and> ascii k"

lemma kvs_keys: "(k, s) \<in> set (vmd_kvs m v) \<Longrightarrow> md_key_ok k"
  by (auto simp: vmd_kvs_def md_key_ok_def clean_str_def stripped_def str_space_def byte_break_def key_defs split: if_splits)

lemma parse_md_lines:
  assumes "\<forall>(k, s) \<in> set kvs. md_key_ok k \<and> clean_str s"
  shows "parse_md (map (\<lambda>(k, s). utf8 (k @ ''='' @ s)) kvs @ utf8 ''EOF'' # rest) md = Inr (dict_update md kvs)"
  using assms
proof (induction kvs arbitrary: md)
  case Nil
  have "utf8 ''EOF'' = ''EOF''" by (rule utf8_ascii) simp
  moreover have "utf8_decode ''EOF'' = Some ''EOF''" by code_simp
  ultimately show ?case by (simp add: dict_update_def)
next
  case (Cons kv kvs)
  obtain k s where kv: "kv = (k, s)" by (cases kv)
  have ok: "md_key_ok k" "clean_str s" using Cons.prems kv by auto
  have "utf8_decode (utf8 (k @ CHR ''='' # s)) = Some (k @ CHR ''='' # s)" by (rule utf8_decode_utf8)
  moreover have "take 3 (k @ CHR ''='' # s) \<noteq> ''EOF''" using ok(1) by (auto simp: md_key_ok_def)
  moreover have "split_once (CHR ''='') (k @ CHR ''='' # s) = Some (k, s)"
    using ok(1) by (simp add: md_key_ok_def split_once_append)
  moreover have "str_strip k = k" "str_strip s = s" using ok by (auto simp: md_key_ok_def clean_str_def)
  ultimately show ?case using Cons by (simp add: kv dict_update_def del: utf8_append utf8_Cons)
qed

lemma break_utf8: "byte_break c \<Longrightarrow> c \<in> set (utf8 s) \<longleftrightarrow> c \<in> set s"
  by (rule utf8_set_ascii) (auto simp: byte_break_def)

definition vmd_text :: "vmd \<Rightarrow> int \<Rightarrow> bytes" where
  "vmd_text m v = put_lines (map (\<lambda>(k, s). utf8 (k @ ''='' @ s)) (vmd_kvs m v) @ [utf8 ''EOF''])"

lemma storage_format_text:
  "storage_format m v [] =
     (if length (vmd_text m v) > SC_METADATA_SIZE then Inl (MetadataOverflowError (vmd_text m v)) else Inr (vmd_text m v))"
proof -
  have "utf8 (put_lines (info_lines (vmd_info m v) @ [''EOF''])) = vmd_text m v"
    unfolding vmd_text_def by (simp add: utf8_put_lines info_lines_kvs split_def comp_def del: put_lines_simps(3))
  then show ?thesis unfolding storage_format_def by (simp only: foldl.simps Let_def)
qed

lemma storage_format_Inr:
  "storage_format m v [] = Inr data \<longleftrightarrow> length (vmd_text m v) \<le> SC_METADATA_SIZE \<and> data = vmd_text m v"
  by (auto simp: storage_format_text)

lemma split_data:
  assumes "storage_format m v [] = Inr data" and "vmd_clean m"
  shows "split_lines byte_break [] (data @ rest) =
    map (\<lambda>(k, s). utf8 (k @ ''='' @ s)) (vmd_kvs m v) @ utf8 ''EOF'' # split_lines byte_break [] rest"
proof -
  let ?ls = "map (\<lambda>(k, s). utf8 (k @ ''='' @ s)) (vmd_kvs m v) @ [utf8 ''EOF'']"
  have "\<not> byte_break c" if l: "l \<in> set ?ls" and c: "c \<in> set l" for l c
  proof
    assume b: "byte_break c"
    from l c consider k s where "(k, s) \<in> set (vmd_kvs m v)" "c \<in> set (utf8 (k @ ''='' @ s))" | "c \<in> set (utf8 ''EOF'')"
      by auto
    then show False
    proof cases
      case 1
      then have "c \<in> set (k @ ''='' @ s)" using break_utf8 [OF b] by blast
      then show False using kvs_keys [OF 1(1)] kvs_clean [OF assms(2) 1(1)] b
        by (auto simp: md_key_ok_def clean_str_def byte_break_def)
    next
      case 2
      then have "c \<in> set ''EOF''" using break_utf8 [OF b] by blast
      then show False using b by (auto simp: byte_break_def)
    qed
  qed
  then have "split_lines byte_break [] (put_lines ?ls @ rest) = ?ls @ split_lines byte_break [] rest"
    by (intro split_put_append) (auto simp: byte_break_def)
  then show ?thesis using assms(1) by (simp add: storage_format_Inr vmd_text_def)
qed

lemma kvs_lookup:
  "map_of (dict_update [] (vmd_kvs m v)) K_DOMAIN = Some (str_of (vm_domain m))"
  "map_of (dict_update [] (vmd_kvs m v)) K_IMAGE = Some (str_of (vm_image m))"
  "map_of (dict_update [] (vmd_kvs m v)) K_PUUID = Some (str_of (vm_puuid m))"
  "map_of (dict_update [] (vmd_kvs m v)) K_FORMAT = Some (str_of (vm_format m))"
  "map_of (dict_update [] (vmd_kvs m v)) K_TYPE = Some (str_of (vm_type m))"
  "map_of (dict_update [] (vmd_kvs m v)) K_VOLTYPE = Some (str_of (vm_voltype m))"
  "map_of (dict_update [] (vmd_kvs m v)) K_DISKTYPE = Some (str_of (vm_disktype m))"
  "map_of (dict_update [] (vmd_kvs m v)) K_DESCRIPTION = Some (vm_description m)"
  "map_of (dict_update [] (vmd_kvs m v)) K_LEGALITY = Some (str_of (vm_legality m))"
  "map_of (dict_update [] (vmd_kvs m v)) K_CTIME = Some (fmt_d 0 (vm_ctime m))"
  "map_of (dict_update [] (vmd_kvs m v)) K_GENERATION = Some (fmt_d 0 (vm_generation m))"
  "map_of (dict_update [] (vmd_kvs m v)) K_CAPACITY = (if v < 5 then None else Some (fmt_d 0 (vm_capacity m)))"
  "v < 5 \<Longrightarrow> map_of (dict_update [] (vmd_kvs m v)) K_SIZE = Some (fmt_d 0 (vm_capacity m div BLOCK_SIZE_512))"
  by (simp_all add: dict_update_map vmd_kvs_def key_defs)

lemma build_kvs:
  assumes "vmd_clean m" and "v < 5 \<Longrightarrow> BLOCK_SIZE_512 dvd vm_capacity m"
  shows "build_vmd (dict_update [] (vmd_kvs m v)) = Inr m"
proof -
  have "read_capacity (dict_update [] (vmd_kvs m v)) = Inr (vm_capacity m)"
    using assms(2) by (simp add: read_capacity_def kvs_lookup md_key_def md_int_def)
  moreover have "validate_description (PStr (vm_description m)) = vm_description m"
    using assms(1) by (simp add: validate_description_def vmd_clean_def str_of_def)
  ultimately show ?thesis
    using assms(1) clean_val_str
    by (simp add: build_vmd_def md_key_def md_int_def kvs_lookup vmd_init_def validate_integer_def vmd_clean_def)
qed

text \<open>What is written is read, with whatever follows it in the block.\<close>

lemma from_lines_data:
  assumes "storage_format m v [] = Inr data" and "vmd_clean m" and "v < 5 \<Longrightarrow> BLOCK_SIZE_512 dvd vm_capacity m"
  shows "from_lines (split_lines byte_break [] (data @ rest)) = Inr m"
proof -
  have "\<forall>(k, s) \<in> set (vmd_kvs m v). md_key_ok k \<and> clean_str s"
    using kvs_keys kvs_clean [OF assms(2)] by blast
  from parse_md_lines [OF this] show ?thesis
    using build_kvs [OF assms(2,3)] by (simp add: from_lines_def split_data [OF assms(1,2)])
qed

subsection \<open>The text fits the block\<close>

lemma less_power_length: "2 \<le> b \<Longrightarrow> n < b ^ length (to_base b n)"
proof (induction b n rule: to_base.induct)
  case (1 b n)
  show ?case
  proof (cases "n < b")
    case True
    then show ?thesis by (subst to_base.simps) simp
  next
    case False
    then have IH: "n div b < b ^ length (to_base b (n div b))" using 1 by simp
    have "n < (n div b + 1) * b" using 1(2) by (simp add: dividend_less_div_times)
    also have "\<dots> \<le> b ^ length (to_base b (n div b)) * b" using IH by (intro mult_le_mono1) simp
    finally show ?thesis using False 1(2) by (subst to_base.simps) (simp add: mult.commute)
  qed
qed

lemma length_fmt_d_0: "0 \<le> n \<Longrightarrow> length (fmt_d 0 n) = length (to_base 10 (nat n))"
  by (simp add: fmt_d_digits)

lemma length_fmt_d_le:
  assumes "0 \<le> n" and "n < 10 ^ Suc k"
  shows "length (fmt_d 0 n) \<le> Suc k"
proof -
  have "nat n < 10 ^ Suc k" using assms by (simp add: nat_less_iff)
  then show ?thesis using length_to_base [of 10 "nat n" k] assms(1) by (simp add: length_fmt_d_0)
qed

lemma length_capacity:
  assumes "0 \<le> n" and "BLOCK_SIZE_512 dvd n"
  shows "length (fmt_d 0 n) \<le> length (fmt_d 0 (n div BLOCK_SIZE_512)) + 3"
proof -
  let ?q = "nat (n div 512)"
  have n: "nat n = ?q * 512" "0 \<le> n div 512"
    using assms by (auto simp: BLOCK_SIZE_512_def nat_mult_distrib)
  obtain k where k: "length (to_base 10 ?q) = Suc k" by (cases "to_base 10 ?q") auto
  have "?q * 512 < 10 ^ length (to_base 10 ?q) * 10 ^ 3"
    using less_power_length [of 10 ?q] by (intro mult_strict_mono) auto
  also have "\<dots> = 10 ^ Suc (k + 3)" by (simp add: k power_add)
  finally have "length (to_base 10 (nat n)) \<le> Suc (k + 3)" using length_to_base [of 10 "nat n" "k + 3"] n(1) by simp
  then show ?thesis using n(2) assms(1) k by (simp add: length_fmt_d_0 BLOCK_SIZE_512_def)
qed

definition text_size :: "pystr \<Rightarrow> nat" where
  "text_size s = length (utf8 s)"

lemma text_size_fmt_d [simp]: "text_size (fmt_d 0 n) = length (fmt_d 0 n)" if "0 \<le> n"
proof -
  have "ascii (fmt_d 0 n)" using fmt_d_chars [OF that] by (fastforce simp: ascii_def digit_char_code)
  then show ?thesis by (simp add: text_size_def utf8_ascii)
qed

lemma text_size_ascii: "ascii s \<Longrightarrow> text_size s = length s"
  by (simp add: text_size_def utf8_ascii)

text \<open>The size of the text: all names and separators, and the values.\<close>

definition values_size :: "vmd \<Rightarrow> nat" where
  "values_size m =
     text_size (vm_description m) + text_size (str_of (vm_disktype m)) + text_size (str_of (vm_domain m)) +
     text_size (str_of (vm_format m)) + text_size (str_of (vm_image m)) + text_size (str_of (vm_legality m)) +
     text_size (str_of (vm_puuid m)) + text_size (str_of (vm_type m)) + text_size (str_of (vm_voltype m)) +
     length (fmt_d 0 (vm_ctime m)) + length (fmt_d 0 (vm_generation m))"

lemma vmd_text_length:
  assumes "vmd_clean m"
  shows "length (vmd_text m v) = values_size m +
    (if v < 5 then 108 + length (fmt_d 0 (vm_capacity m div BLOCK_SIZE_512)) else 99 + length (fmt_d 0 (vm_capacity m)))"
proof -
  have zero: "fmt_d 0 0 = ''0''" by code_simp
  have sizes: "length (utf8 (fmt_d 0 (vm_ctime m))) = length (fmt_d 0 (vm_ctime m))"
    "length (utf8 (fmt_d 0 (vm_generation m))) = length (fmt_d 0 (vm_generation m))"
    "length (utf8 (fmt_d 0 (vm_capacity m))) = length (fmt_d 0 (vm_capacity m))"
    "length (utf8 (fmt_d 0 (vm_capacity m div BLOCK_SIZE_512))) = length (fmt_d 0 (vm_capacity m div BLOCK_SIZE_512))"
    "length (utf8 (fmt_d 0 0)) = 1"
    using assms text_size_fmt_d by (auto simp: vmd_clean_def text_size_def BLOCK_SIZE_512_def zero utf8_char_def)
  then show ?thesis
    by (simp add: vmd_text_def vmd_kvs_def values_size_def text_size_def key_defs utf8_char_def)
qed

text \<open>The values that the comment on the size of the description allows, and ASCII texts.\<close>

definition vmd_usual :: "vmd \<Rightarrow> bool" where
  "vmd_usual m \<longleftrightarrow> vmd_clean m \<and>
     list_all (\<lambda>(s, n). ascii s \<and> length s \<le> n)
       [(str_of (vm_domain m), 36), (str_of (vm_image m), 36), (str_of (vm_puuid m), 36), (str_of (vm_format m), 3),
        (str_of (vm_type m), 12), (str_of (vm_voltype m), 8), (str_of (vm_disktype m), 4),
        (str_of (vm_legality m), 7), (vm_description m, DESCRIPTION_SIZE)] \<and>
     vm_ctime m < 10 ^ 10 \<and> vm_capacity m \<le> 2 ^ 63 \<and> vm_generation m \<le> MAX_GENERATION"

lemma usual_digits:
  assumes "vmd_usual m"
  shows "length (fmt_d 0 (vm_ctime m)) \<le> 10" "length (fmt_d 0 (vm_generation m)) \<le> 3"
    "length (fmt_d 0 (vm_capacity m)) \<le> 19" "length (fmt_d 0 (vm_capacity m div BLOCK_SIZE_512)) \<le> 17"
proof -
  have m: "0 \<le> vm_ctime m" "0 \<le> vm_generation m" "0 \<le> vm_capacity m" "vm_ctime m < 10 ^ 10" "vm_generation m < 10 ^ 3"
    "vm_capacity m < 10 ^ 19"
    using assms by (auto simp: vmd_usual_def vmd_clean_def MAX_GENERATION_def)
  show "length (fmt_d 0 (vm_ctime m)) \<le> 10" "length (fmt_d 0 (vm_generation m)) \<le> 3" "length (fmt_d 0 (vm_capacity m)) \<le> 19"
    using m length_fmt_d_le [of "vm_ctime m" 9] length_fmt_d_le [of "vm_generation m" 2] length_fmt_d_le [of "vm_capacity m" 18]
    by simp_all
  have "vm_capacity m div BLOCK_SIZE_512 < 10 ^ 17" "0 \<le> vm_capacity m div BLOCK_SIZE_512"
    using assms m(3) by (auto simp: vmd_usual_def BLOCK_SIZE_512_def)
  then show "length (fmt_d 0 (vm_capacity m div BLOCK_SIZE_512)) \<le> 17" using length_fmt_d_le [of _ 16] by simp
qed

lemma vmd_text_fits:
  assumes "vmd_usual m"
  shows "length (vmd_text m v) \<le> (if v < 5 then 280 else 273) + length (vm_description m)"
    "length (vmd_text m v) \<le> SC_METADATA_SIZE"
proof -
  have "values_size m \<le> 155 + length (vm_description m)"
    using assms usual_digits(1,2) [OF assms] by (auto simp: vmd_usual_def values_size_def text_size_ascii)
  moreover have "length (vm_description m) \<le> 210" and clean: "vmd_clean m"
    using assms by (auto simp: vmd_usual_def DESCRIPTION_SIZE_def)
  ultimately show "length (vmd_text m v) \<le> (if v < 5 then 280 else 273) + length (vm_description m)"
    "length (vmd_text m v) \<le> SC_METADATA_SIZE"
    using usual_digits(3,4) [OF assms] by (auto simp: vmd_text_length [OF clean] SC_METADATA_SIZE_def)
qed


definition sample_vmd :: vmd where
  "sample_vmd =
     \<lparr>vm_domain = PStr ''75f8a1bb-4504-4314-91ca-d9365a30692b'', vm_image = PStr ''75f8a1bb-4504-4314-91ca-d9365a30692b'',
      vm_puuid = PStr ''00000000-0000-0000-0000-000000000000'', vm_capacity = 1073741824, vm_format = PStr ''COW'',
      vm_type = PStr ''PREALLOCATED'', vm_voltype = PStr ''INTERNAL'', vm_disktype = PStr ''OVFS'',
      vm_description = ''a disk'', vm_legality = PStr ''ILLEGAL'', vm_ctime = 1440935038, vm_generation = 999\<rparr>"

lemma sample_usual: "vmd_usual sample_vmd"
  by code_simp


subsection \<open>Slots\<close>

definition slot_block :: "int \<Rightarrow> nat \<Rightarrow> bytes \<Rightarrow> bytes" where
  "slot_block v slot dev = slice (metadata_offset v slot) (metadata_offset v slot + SC_METADATA_SIZE) dev"

definition slot_in :: "int \<Rightarrow> nat \<Rightarrow> bytes \<Rightarrow> bool" where
  "slot_in v slot dev \<longleftrightarrow> metadata_offset v slot + SC_METADATA_SIZE \<le> length dev"

text \<open>The slot has the text of the metadata, as the code of this version writes it.\<close>

definition slot_holds :: "int \<Rightarrow> nat \<Rightarrow> vmd \<Rightarrow> bytes \<Rightarrow> bool" where
  "slot_holds v slot m dev \<longleftrightarrow>
     length (vmd_text m v) \<le> SC_METADATA_SIZE \<and> slot_block v slot dev = ljust_nul (vmd_text m v)"

lemma length_ljust: "length d \<le> SC_METADATA_SIZE \<Longrightarrow> length (ljust_nul d) = SC_METADATA_SIZE"
  by (simp add: ljust_nul_def)

lemma getMetadata_block:
  assumes "dd_reads dd dev" and "slot_in v slot dev"
  shows "getMetadata dd v slot dev = from_lines (split_lines byte_break [] (slot_block v slot dev))"
proof -
  have "512 dvd metadata_offset v slot" by (simp add: metadata_offset_def slot_defs)
  then have "readblock dd dev (metadata_offset v slot) SC_METADATA_SIZE = Inr (slot_block v slot dev)"
    using readblock_range [OF assms(1), of "metadata_offset v slot" SC_METADATA_SIZE] assms(2)
    by (simp add: slot_in_def slot_block_def SC_METADATA_SIZE_def)
  then show ?thesis by (simp add: getMetadata_def read_metadata_block_def)
qed

lemma getMetadata_holds:
  assumes "dd_reads dd dev" and "slot_in v slot dev" and "slot_holds v slot m dev" and "vmd_clean m"
    and "v < 5 \<Longrightarrow> BLOCK_SIZE_512 dvd vm_capacity m"
  shows "getMetadata dd v slot dev = Inr m"
  using from_lines_data [of m v "vmd_text m v", OF _ assms(4,5)] assms(3)
  by (simp add: getMetadata_block [OF assms(1,2)] slot_holds_def storage_format_Inr ljust_nul_def)

lemma slots_apart:
  "i \<noteq> j \<Longrightarrow> metadata_offset v i + SC_METADATA_SIZE \<le> metadata_offset v j \<or> metadata_offset v j + SC_METADATA_SIZE \<le> metadata_offset v i"
  by (auto simp: metadata_offset_def slot_defs)

lemma slot_write:
  assumes "slot_in v slot dev" and "length d = SC_METADATA_SIZE"
  shows "slot_block v slot (overwrite dev (metadata_offset v slot) d) = d"
    "j \<noteq> slot \<Longrightarrow> slot_block v j (overwrite dev (metadata_offset v slot) d) = slot_block v j dev"
proof -
  show "slot_block v slot (overwrite dev (metadata_offset v slot) d) = d"
    using assms slice_overwrite_same [of "metadata_offset v slot" d dev] by (simp add: slot_block_def slot_in_def)
  show "slot_block v j (overwrite dev (metadata_offset v slot) d) = slot_block v j dev" if "j \<noteq> slot"
    using assms slots_apart [OF that, of v] unfolding slot_block_def slot_in_def by (intro slice_other) auto
qed

lemma setMetadata_ok:
  assumes "length (vmd_text m v) \<le> SC_METADATA_SIZE" and "slot_in v slot dev"
  shows "setMetadata v slot m [] dev = (Inr (), overwrite dev (metadata_offset v slot) (ljust_nul (vmd_text m v)))"
  using assms by (simp add: setMetadata_def putMetadata_def storage_format_text write_metadata_block_def slot_in_def
      length_ljust Let_def)

lemma setMetadata_writes:
  assumes "setMetadata v slot m [] dev = (r, dev')"
  shows "case r of
      Inl _ \<Rightarrow> dev' = dev
    | Inr _ \<Rightarrow> slot_in v slot dev \<and> slot_holds v slot m dev' \<and>
        dev' = overwrite dev (metadata_offset v slot) (ljust_nul (vmd_text m v))"
proof (cases "length (vmd_text m v) \<le> SC_METADATA_SIZE \<and> slot_in v slot dev")
  case True
  then have "r = Inr ()" "dev' = overwrite dev (metadata_offset v slot) (ljust_nul (vmd_text m v))"
    using assms setMetadata_ok by auto
  then show ?thesis using True slot_write(1) length_ljust by (auto simp: slot_holds_def)
next
  case False
  then show ?thesis
    using assms by (auto simp: setMetadata_def putMetadata_def storage_format_text write_metadata_block_def slot_in_def
        length_ljust Let_def split: if_splits)
qed

text \<open>
  C36. Metadata that is set on a slot of a block domain is read back from it, through the block reads, and the
  metadata of every other slot reads as before; when setting it fails, the metadata volume is not changed.
\<close>

theorem block_metadata_roundtrip:
  assumes "\<And>dev. dd_reads dd dev" and "vmd_clean m" and "v < 5 \<Longrightarrow> BLOCK_SIZE_512 dvd vm_capacity m"
    and "setMetadata v slot m [] dev = (r, dev')"
  shows "case r of
      Inl e \<Rightarrow> dev' = dev
    | Inr _ \<Rightarrow> getMetadata dd v slot dev' = Inr m \<and>
        (\<forall>j. j \<noteq> slot \<longrightarrow> slot_in v j dev \<longrightarrow> getMetadata dd v j dev' = getMetadata dd v j dev)"
proof (cases r)
  case (Inl e)
  then show ?thesis using setMetadata_writes [OF assms(4)] by simp
next
  case (Inr u)
  then have W: "slot_in v slot dev" "slot_holds v slot m dev'"
    and dev': "dev' = overwrite dev (metadata_offset v slot) (ljust_nul (vmd_text m v))"
    using setMetadata_writes [OF assms(4)] by auto
  have d: "length (ljust_nul (vmd_text m v)) = SC_METADATA_SIZE" using W(2) by (simp add: slot_holds_def length_ljust)
  have len: "slot_in v j dev' \<longleftrightarrow> slot_in v j dev" for j using W(1) d by (simp add: dev' slot_in_def)
  have "getMetadata dd v j dev' = getMetadata dd v j dev" if "j \<noteq> slot" "slot_in v j dev" for j
    using that slot_write(2) [OF W(1) d that(1)] len by (simp add: getMetadata_block [OF assms(1)] dev')
  then show ?thesis using getMetadata_holds [OF assms(1) _ W(2) assms(2,3)] len W(1) Inr by simp
qed

theorem block_metadata_roundtrip_witness:
  "getMetadata sample_dd 4 1 (snd (setMetadata 4 1 sample_vmd [] (replicate 1024 NUL))) = Inr sample_vmd"
proof -
  let ?s = "setMetadata 4 1 sample_vmd [] (replicate 1024 NUL)"
  have "length (vmd_text sample_vmd 4) \<le> SC_METADATA_SIZE" using vmd_text_fits(2) [OF sample_usual] .
  then have "?s = (Inr (), snd ?s)" by (simp add: setMetadata_ok slot_in_def metadata_offset_def slot_defs)
  moreover have "vmd_clean sample_vmd" using sample_usual by (simp add: vmd_usual_def)
  moreover have "BLOCK_SIZE_512 dvd vm_capacity sample_vmd" by (simp add: BLOCK_SIZE_512_def sample_vmd_def)
  ultimately show ?thesis
    using block_metadata_roundtrip [of sample_dd sample_vmd 4 1 "replicate 1024 NUL" "Inr ()" "snd ?s", OF sample_dd_reads]
    by simp
qed

subsection \<open>Conversion\<close>

lemma v5_fits:
  assumes "vmd_clean m" and "BLOCK_SIZE_512 dvd vm_capacity m" and "length (vmd_text m 4) \<le> SC_METADATA_SIZE"
  shows "length (vmd_text m 5) \<le> SC_METADATA_SIZE"
  using assms(3) length_capacity [OF _ assms(2)] assms(1) vmd_text_length [OF assms(1)] by (simp add: vmd_clean_def)

lemma rstrip_text: "rstrip (\<lambda>c. c = NUL) (ljust_nul (vmd_text m v)) = vmd_text m v"
proof -
  have "rstrip (\<lambda>c. c = NUL) (ljust_nul (vmd_text m v)) = rstrip (\<lambda>c. c = NUL) (vmd_text m v)"
    unfolding ljust_nul_def by (rule rstrip_append_all) simp
  also have "\<dots> = vmd_text m v" by (rule rstrip_id) (simp add: vmd_text_def)
  finally show ?thesis .
qed

lemma v5_data_text:
  assumes "vmd_clean m" and "BLOCK_SIZE_512 dvd vm_capacity m" and "length (vmd_text m 4) \<le> SC_METADATA_SIZE"
  shows "v5_data (ljust_nul (vmd_text m 4)) = Inr (ljust_nul (vmd_text m 5))"
  using from_lines_data [of m 4 "vmd_text m 4" "[]"] v5_fits [OF assms] assms
  by (simp add: v5_data_def rstrip_text storage_format_text storage_format_Inr)

lemma v5_slot_in:
  "slot < 2048 \<Longrightarrow> RESERVED_METADATA_SIZE \<le> length dev \<Longrightarrow> slot_in 5 slot dev \<and> metadata_offset 5 slot + SC_METADATA_SIZE \<le> RESERVED_METADATA_SIZE"
  by (simp add: slot_in_def metadata_offset_def slot_defs RESERVED_METADATA_SIZE_def)

text \<open>Writing a slot of version 5 does not reach the area of version 4.\<close>

lemma convert_slot_keeps:
  assumes "convert_slot src slot dst = (r, dst')"
  shows "take MiB dst' = take MiB dst \<and> length dst' = length dst"
proof -
  have "MiB \<le> metadata_offset 5 slot" by (simp add: metadata_offset_def METADATA_BASE_V5_def)
  then have "take MiB (overwrite dst (metadata_offset 5 slot) d) = take MiB dst"
    if "metadata_offset 5 slot + length d \<le> length dst" for d
    using that by (intro take_overwrite) auto
  then show ?thesis using assms by (auto simp: convert_slot_def Let_def split: sum.splits if_splits)
qed

lemma convert_slots_keeps:
  "convert_slots src occ dst = (r, dst') \<Longrightarrow> take MiB dst' = take MiB dst \<and> length dst' = length dst"
proof (induction occ arbitrary: dst)
  case (Cons slot occ)
  obtain r1 d1 where c: "convert_slot src slot dst = (r1, d1)" by (cases "convert_slot src slot dst")
  then show ?case
    using Cons convert_slot_keeps [OF c] by (cases r1) auto
qed simp

definition v4_slot :: "vmd \<Rightarrow> nat \<Rightarrow> bytes \<Rightarrow> bool" where
  "v4_slot m slot dev \<longleftrightarrow>
     slot < 2048 \<and> vmd_clean m \<and> BLOCK_SIZE_512 dvd vm_capacity m \<and> slot_holds 4 slot m dev"

lemma convert_slots_ok:
  assumes "\<forall>slot \<in> set occ. v4_slot (M slot) slot src" and "RESERVED_METADATA_SIZE \<le> length dst"
  shows "\<exists>dst'. convert_slots src occ dst = (Inr (), dst') \<and>
    (\<forall>slot \<in> set occ. slot_holds 5 slot (M slot) dst') \<and>
    (\<forall>j. j \<notin> set occ \<longrightarrow> slot_block 5 j dst' = slot_block 5 j dst)"
  using assms
proof (induction occ arbitrary: dst)
  case (Cons slot occ)
  have v4: "v4_slot (M slot) slot src" using Cons.prems(1) by simp
  let ?d = "ljust_nul (vmd_text (M slot) 5)"
  let ?dst = "overwrite dst (metadata_offset 5 slot) ?d"
  have fits: "length (vmd_text (M slot) 5) \<le> SC_METADATA_SIZE" "length ?d = SC_METADATA_SIZE"
    using v4 v5_fits [of "M slot"] length_ljust by (auto simp: v4_slot_def slot_holds_def)
  have ins: "slot_in 5 slot dst" "metadata_offset 5 slot + SC_METADATA_SIZE \<le> RESERVED_METADATA_SIZE"
    using v5_slot_in [OF _ Cons.prems(2)] v4 by (auto simp: v4_slot_def)
  have "convert_slot src slot dst = (Inr (), ?dst)"
    using v4 v5_data_text [of "M slot"] fits(2) ins Cons.prems(2)
    by (simp add: convert_slot_def v4_slot_def slot_holds_def slot_block_def slot_in_def Let_def)
  moreover have "RESERVED_METADATA_SIZE \<le> length ?dst" using Cons.prems(2) ins(1) fits(2) by (simp add: slot_in_def)
  then obtain dst' where rest: "convert_slots src occ ?dst = (Inr (), dst')"
    "\<forall>slot \<in> set occ. slot_holds 5 slot (M slot) dst'" "\<forall>j. j \<notin> set occ \<longrightarrow> slot_block 5 j dst' = slot_block 5 j ?dst"
    using Cons.IH [of ?dst] Cons.prems(1) by auto
  moreover have "slot_holds 5 slot (M slot) dst'" if "slot \<notin> set occ"
    using rest(3) that slot_write(1) [OF ins(1) fits(2)] fits(1) by (simp add: slot_holds_def)
  ultimately show ?case using slot_write(2) [OF ins(1) fits(2)] by auto
qed simp

lemma v4_slot_area: "slot < 2048 \<Longrightarrow> slot_block 4 slot (take MiB dev) = slot_block 4 slot dev"
proof -
  assume "slot < 2048"
  then have "metadata_offset 4 slot + SC_METADATA_SIZE \<le> MiB" by (simp add: metadata_offset_def slot_defs)
  then have "SC_METADATA_SIZE \<le> MiB - metadata_offset 4 slot" by linarith
  then show ?thesis by (simp add: slot_block_def slice_def drop_take min_absorb1)
qed

lemma finalize_keeps_v5:
  assumes "RESERVED_METADATA_SIZE \<le> length dev"
  shows "slot_block 5 slot (snd (finalize_volumes_metadata 5 5 dev)) = slot_block 5 slot dev"
    "length (snd (finalize_volumes_metadata 5 5 dev)) = length dev"
proof -
  have "MiB \<le> length dev" using assms by (simp add: RESERVED_METADATA_SIZE_def MiB_def)
  then show "length (snd (finalize_volumes_metadata 5 5 dev)) = length dev"
    by (simp add: finalize_volumes_metadata_def METADATA_BASE_V4_def METADATA_BASE_V5_def)
  show "slot_block 5 slot (snd (finalize_volumes_metadata 5 5 dev)) = slot_block 5 slot dev"
    unfolding slot_block_def finalize_volumes_metadata_def using \<open>MiB \<le> length dev\<close>
    by (simp add: slice_other METADATA_BASE_V4_def METADATA_BASE_V5_def metadata_offset_def)
qed


definition sample_area :: bytes where
  "sample_area = ljust_nul (vmd_text sample_vmd 4) @ replicate (RESERVED_METADATA_SIZE - SC_METADATA_SIZE) NUL"

lemma sample_v4_slot: "v4_slot sample_vmd 0 sample_area"
  using vmd_text_fits(2) [OF sample_usual, of 4] sample_usual
  by (auto simp: v4_slot_def slot_holds_def slot_block_def metadata_offset_def slice_def sample_area_def length_ljust
      METADATA_BASE_V4_def vmd_usual_def) (simp add: sample_vmd_def BLOCK_SIZE_512_def)


end
