(* ===== verification/Mailbox.thy ===== *)
theory Mailbox
  imports Vdsm_Text
begin

text \<open>
  \<^verbatim>\<open>lib/vdsm/storage/mailbox.py\<close>: the mail between the hosts and the host that manages the pool. A host asks for the
  extension of a volume by a message in a slot of its mailbox, the manager reads the mailboxes of all hosts, queues
  the requests that are new and answers in the mailbox of the host. The model has the messages, the state of both
  monitors and every step that changes it; the threads, the sleeps and the \<^verbatim>\<open>dd\<close> commands are outside.
\<close>

subsection \<open>Sizes\<close>

definition CHECKSUM_BYTES :: nat where "CHECKSUM_BYTES = 4"
definition MAILBOX_SIZE :: nat where "MAILBOX_SIZE = 4 * 1024"
definition PACKED_UUID_SIZE :: nat where "PACKED_UUID_SIZE = 16"
definition VOLUME_MAX_SIZE :: int where "VOLUME_MAX_SIZE = 0xFFFFFFFF"
definition SIZE_CHARS :: nat where "SIZE_CHARS = 16"
definition MESSAGE_VERSION :: bytes where "MESSAGE_VERSION = ''1''"
definition MESSAGE_SIZE :: nat where "MESSAGE_SIZE = 64"
definition CLEAN_MESSAGE :: bytes where "CLEAN_MESSAGE = replicate MESSAGE_SIZE (CHR 0x01)"
definition EXTEND_CODE :: bytes where "EXTEND_CODE = ''xtnd''"
definition EMPTYMAILBOX :: bytes where "EMPTYMAILBOX = replicate MAILBOX_SIZE NUL"
definition SLOTS_PER_MAILBOX :: nat where "SLOTS_PER_MAILBOX = MAILBOX_SIZE div MESSAGE_SIZE"
definition MESSAGES_PER_MAILBOX :: nat where "MESSAGES_PER_MAILBOX = SLOTS_PER_MAILBOX - 1"

lemmas mail_sizes = CHECKSUM_BYTES_def MAILBOX_SIZE_def PACKED_UUID_SIZE_def SIZE_CHARS_def MESSAGE_SIZE_def
  SLOTS_PER_MAILBOX_def MESSAGES_PER_MAILBOX_def

datatype mail_error =
    MInvalidParameter
  | MValueError
  | MRuntimeError
  | MKeyError nat
  | MIndexError
  | MStructError
  | MAttributeError
  | MAssertionError
  | MIOError

subsection \<open>Checksums\<close>

definition checksum :: "bytes \<Rightarrow> nat" where
  "checksum data = sum_list (map of_char data) mod 2 ^ (CHECKSUM_BYTES * 8)"

primrec le_bytes :: "nat \<Rightarrow> nat \<Rightarrow> bytes" where
  "le_bytes 0 n = []"
| "le_bytes (Suc k) n = char_of (n mod 256) # le_bytes k (n div 256)"

fun le_value :: "bytes \<Rightarrow> nat" where
  "le_value [] = 0"
| "le_value (b # bs) = of_char b + 256 * le_value bs"

text \<open>\<open>struct.pack('<l', n)\<close> refuses what is not a signed number of 32 bits.\<close>

definition packed_checksum :: "bytes \<Rightarrow> mail_error + bytes" where
  "packed_checksum data =
     (let n = checksum data in if n < 2 ^ 31 then Inr (le_bytes CHECKSUM_BYTES n) else Inl MStructError)"

subsection \<open>UUIDs\<close>

definition hex_digit :: "char \<Rightarrow> bool" where
  "hex_digit c \<longleftrightarrow>
     (let n = (of_char c :: nat) in 48 \<le> n \<and> n \<le> 57 \<or> 97 \<le> n \<and> n \<le> 102)"

definition uuid_form :: "pystr \<Rightarrow> bool" where
  "uuid_form s \<longleftrightarrow> length s = 36 \<and>
     (\<forall>(i, c) \<in> set (enumerate 0 s). if i \<in> {8, 13, 18, 23} then c = CHR ''-'' else hex_digit c)"

text \<open>
  Validation with the blank id allowed, as the mailbox does it. The end of the pattern also matches before a line feed at
  the end.
\<close>

definition validateUUID :: "pystr \<Rightarrow> mail_error + unit" where
  "validateUUID s =
     (if uuid_form s \<or> s \<noteq> [] \<and> last s = NL \<and> uuid_form (butlast s) then Inr () else Inl MInvalidParameter)"

text \<open>\<open>uuid.UUID(s).int\<close> on texts that were validated.\<close>

definition uuid_int :: "pystr \<Rightarrow> mail_error + nat" where
  "uuid_int s =
     (let h = filter (\<lambda>c. c \<noteq> CHR ''-'') s in
      if length h \<noteq> 32 then Inl MValueError
      else case py_int 16 h of None \<Rightarrow> Inl MValueError | Some v \<Rightarrow> Inr (nat v))"

definition uuid_str :: "nat \<Rightarrow> pystr" where
  "uuid_str v =
     (let h = fmt_x 32 v in
      slice 0 8 h @ ''-'' @ slice 8 12 h @ ''-'' @ slice 12 16 h @ ''-'' @ slice 16 20 h @ ''-'' @ slice 20 32 h)"

definition packUuid :: "pystr \<Rightarrow> mail_error + bytes" where
  "packUuid s =
     rbind (uuid_int s) (\<lambda>v. let high = v div 2 ^ 64; low = v mod 2 ^ 64 in Inr (le_bytes 8 low @ le_bytes 8 high))"

definition unpackUuid :: "bytes \<Rightarrow> mail_error + pystr" where
  "unpackUuid s =
     (if length s \<noteq> 16 then Inl MStructError
      else let low = le_value (slice 0 8 s); high = le_value (slice 8 16 s) in Inr (uuid_str (low + high * 2 ^ 64)))"

subsection \<open>Messages\<close>

type_synonym volume_data = "pystr \<rightharpoonup> pystr"

record 'c ext_msg =
  m_pool :: pystr
  m_volumeData :: volume_data
  m_callback :: "'c option"
  m_payload :: bytes

definition ljust_zero :: "bytes \<Rightarrow> bytes" where
  "ljust_zero s = s @ replicate (MESSAGE_SIZE - length s) (CHR ''0'')"

definition new_message :: "volume_data \<Rightarrow> int \<Rightarrow> 'c option \<Rightarrow> mail_error + 'c ext_msg" where
  "new_message volumeData newSize callback =
     (case (volumeData ''poolID'', volumeData ''domainID'', volumeData ''volumeID'') of
        (Some pool, Some domainID, Some volumeID) \<Rightarrow>
          (if newSize < 0 \<or> newSize > VOLUME_MAX_SIZE then Inl MInvalidParameter
           else
             rbind (validateUUID domainID) (\<lambda>_.
             rbind (validateUUID volumeID) (\<lambda>_.
             rbind (packUuid domainID) (\<lambda>domain.
             rbind (packUuid volumeID) (\<lambda>volume.
               Inr \<lparr>m_pool = pool, m_volumeData = volumeData, m_callback = callback,
                    m_payload = ljust_zero (MESSAGE_VERSION @ EXTEND_CODE @ domain @ volume @ fmt_x SIZE_CHARS (nat newSize))\<rparr>)))))
      | _ \<Rightarrow> Inl MInvalidParameter)"

definition checkReply :: "'c ext_msg \<Rightarrow> bytes \<Rightarrow> mail_error + nat" where
  "checkReply msg reply =
     (let sizeOffset = 5 + 2 * PACKED_UUID_SIZE in
      if slice 0 sizeOffset (m_payload msg) \<noteq> slice 0 sizeOffset reply then Inl MRuntimeError else Inr 1)"

text \<open>
  Reading a request: the ids and the size. \<open>extendVolume\<close> is the operation of the pool; the reply has the size, or 0
  when the extension or making the reply raised.
\<close>

definition read_request :: "pystr \<Rightarrow> bytes \<Rightarrow> mail_error + (pystr \<times> pystr \<times> int)" where
  "read_request spUUID payload =
     (let sdOffset = 5; volumeOffset = sdOffset + PACKED_UUID_SIZE; sizeOffset = volumeOffset + PACKED_UUID_SIZE in
      rbind (unpackUuid (slice sdOffset (sdOffset + PACKED_UUID_SIZE) payload)) (\<lambda>domainID.
      rbind (unpackUuid (slice volumeOffset (volumeOffset + PACKED_UUID_SIZE) payload)) (\<lambda>volumeID.
      case py_int 16 (slice sizeOffset (sizeOffset + SIZE_CHARS) payload) of
        None \<Rightarrow> Inl MValueError
      | Some n \<Rightarrow> Inr (domainID, volumeID, n))))"

definition request_volume :: "pystr \<Rightarrow> pystr \<Rightarrow> pystr \<Rightarrow> volume_data" where
  "request_volume pool domainID volumeID = [''poolID'' \<mapsto> pool, ''domainID'' \<mapsto> domainID, ''volumeID'' \<mapsto> volumeID]"

definition processRequest ::
  "(pystr \<Rightarrow> pystr \<Rightarrow> int \<Rightarrow> 's \<Rightarrow> (mail_error + unit) \<times> 's) \<Rightarrow> (nat \<Rightarrow> 'c ext_msg \<Rightarrow> 's \<Rightarrow> 's) \<Rightarrow>
   pystr \<Rightarrow> nat \<Rightarrow> bytes \<Rightarrow> ('s, mail_error, unit) op" where
  "processRequest extendVolume sendReply spUUID msgID payload s =
     (case read_request spUUID payload of
        Inl e \<Rightarrow> (Inl e, s)
      | Inr (domainID, volumeID, n) \<Rightarrow>
          (let volume = request_volume spUUID domainID volumeID in
           case extendVolume domainID volumeID n s of
             (r, s') \<Rightarrow>
               (case (case r of Inl e \<Rightarrow> new_message volume 0 None
                      | Inr _ \<Rightarrow> (case new_message volume n None of Inl e \<Rightarrow> new_message volume 0 None | Inr msg \<Rightarrow> Inr msg)) of
                  Inl e \<Rightarrow> (Inl MAttributeError, s')
                | Inr msg \<Rightarrow> (Inr (), sendReply msgID msg s'))))"

subsection \<open>The monitor of a host\<close>

text \<open>An active message, or the mark of one whose reply was handled.\<close>

datatype 'c active = Waiting "'c ext_msg" | Cleaning

definition active_bytes :: "'c active \<Rightarrow> bytes" where
  "active_bytes a = (case a of Waiting m \<Rightarrow> m_payload m | Cleaning \<Rightarrow> CLEAN_MESSAGE)"

text \<open>\<open>h_tasks\<close> are the callbacks that were handed to the thread pool.\<close>

record 'c hsm =
  h_queue :: "'c ext_msg list"
  h_active :: "nat \<rightharpoonup> 'c active"
  h_used :: "bool list"
  h_out :: bytes
  h_in :: bytes
  h_counter :: int
  h_init :: bool
  h_tasks :: "('c \<times> volume_data) list"

type_synonym ('c, 'a) hsm_op = "('c hsm, mail_error, 'a) op"

definition put_slot :: "bytes \<Rightarrow> nat \<Rightarrow> bytes \<Rightarrow> bytes" where
  "put_slot mail slot d = take (slot * MESSAGE_SIZE) mail @ d @ drop (slot * MESSAGE_SIZE + MESSAGE_SIZE) mail"

text \<open>The mail with its checksum, which is handed to \<^verbatim>\<open>dd\<close>.\<close>

definition h_sendMail :: "('c, bytes) hsm_op" where
  "h_sendMail s =
     (let body = take (MAILBOX_SIZE - CHECKSUM_BYTES) (h_out s) in
      case packed_checksum body of
        Inl e \<Rightarrow> (Inl e, s)
      | Inr pChk \<Rightarrow> (Inr (body @ pChk), s\<lparr>h_out := body @ pChk\<rparr>))"

text \<open>The result of \<^verbatim>\<open>dd\<close> that reads the mailbox: None when it failed.\<close>

definition h_initMailbox :: "bytes option \<Rightarrow> ('c, unit) hsm_op" where
  "h_initMailbox out s = (Inr (), case out of Some b \<Rightarrow> s\<lparr>h_in := b, h_init := True\<rparr> | None \<Rightarrow> s)"

definition empty_hsm :: "'c hsm" where
  "empty_hsm =
     \<lparr>h_queue = [], h_active = Map.empty, h_used = replicate MESSAGES_PER_MAILBOX False, h_out = EMPTYMAILBOX,
      h_in = EMPTYMAILBOX, h_counter = 0, h_init = False, h_tasks = []\<rparr>"

definition new_hsm :: "bytes option \<Rightarrow> (mail_error + bytes) \<times> 'c hsm" where
  "new_hsm out = obind (h_initMailbox out) (\<lambda>_. h_sendMail) empty_hsm"

text \<open>
  Whether the message in a slot differs from the one read before. The loop compares byte by byte and leaves its index
  at the first difference; a difference in the last byte looks like none. Bytes that were never read raise.
\<close>

definition first_diff :: "bytes \<Rightarrow> bytes \<Rightarrow> nat option" where
  "first_diff a b = first_idx (\<lambda>(x, y). x \<noteq> y) (zip a b)"

definition is_novel :: "bytes \<Rightarrow> bytes \<Rightarrow> nat \<Rightarrow> mail_error + bool" where
  "is_novel new old start =
     (let a = slice start (start + MESSAGE_SIZE) new; b = slice start (start + MESSAGE_SIZE) old in
      case first_diff a b of
        Some j \<Rightarrow> Inr (j \<noteq> MESSAGE_SIZE - 1)
      | None \<Rightarrow> if length a = MESSAGE_SIZE \<and> length b = MESSAGE_SIZE then Inr False else Inl MIndexError)"

definition run_callback :: "'c ext_msg \<Rightarrow> bytes \<Rightarrow> 'c hsm \<Rightarrow> 'c hsm" where
  "run_callback msg reply s =
     (case (checkReply msg reply, m_callback msg) of
        (Inr _, Some cb) \<Rightarrow> s\<lparr>h_tasks := h_tasks s @ [(cb, m_volumeData msg)]\<rparr>
      | _ \<Rightarrow> s)"

text \<open>One slot of \<open>_handleResponses\<close>; the result says that a reply was handled.\<close>

definition handle_response :: "bytes \<Rightarrow> nat \<Rightarrow> ('c, bool) hsm_op" where
  "handle_response newMsgs i s =
     (let start = i * MESSAGE_SIZE; newMsg = slice start (start + MESSAGE_SIZE) newMsgs in
      if \<not> h_used s ! i then (Inr False, s)
      else if slice start (start + 1) newMsgs = [NUL] then (Inr False, s)
      else case is_novel newMsgs (h_in s) start of
             Inl e \<Rightarrow> (Inl e, s)
           | Inr False \<Rightarrow> (Inr False, s)
           | Inr True \<Rightarrow>
               (case h_active s i of
                  None \<Rightarrow> (Inl (MKeyError i), s)
                | Some a \<Rightarrow>
                    (if newMsg = CLEAN_MESSAGE then
                       (Inr True, s\<lparr>h_active := (h_active s)(i := None), h_used := (h_used s)[i := False],
                          h_counter := h_counter s - 1, h_out := put_slot (h_out s) i (replicate MESSAGE_SIZE NUL)\<rparr>)
                     else
                       (let s' = s\<lparr>h_active := (h_active s)(i \<mapsto> Cleaning), h_out := put_slot (h_out s) i CLEAN_MESSAGE\<rparr> in
                        case a of
                          Cleaning \<Rightarrow> (Inl MAttributeError, s')
                        | Waiting msg \<Rightarrow> (Inr True, run_callback msg newMsg s')))))"

fun handle_slots :: "bytes \<Rightarrow> nat list \<Rightarrow> bool \<Rightarrow> ('c, bool) hsm_op" where
  "handle_slots newMsgs [] rc = ret rc"
| "handle_slots newMsgs (i # is) rc = obind (handle_response newMsgs i) (\<lambda>r. handle_slots newMsgs is (rc \<or> r))"

definition handleResponses :: "bytes \<Rightarrow> ('c, bool) hsm_op" where
  "handleResponses newMsgs =
     obind (handle_slots newMsgs [0..<MESSAGES_PER_MAILBOX] False) (\<lambda>rc s. (Inr rc, s\<lparr>h_in := newMsgs\<rparr>))"

definition h_checkForMail :: "bytes option \<Rightarrow> ('c, bool) hsm_op" where
  "h_checkForMail out s =
     (case out of
        None \<Rightarrow> (Inl MRuntimeError, s)
      | Some in_mail \<Rightarrow> if length in_mail \<noteq> MAILBOX_SIZE then (Inl MRuntimeError, s) else handleResponses in_mail s)"

text \<open>
  The search of \<open>_handleMessage\<close>: the first free slot, unless a used slot has the same message.
\<close>

datatype place = Duplicate | Full | Free nat

fun find_place :: "bytes \<Rightarrow> 'c hsm \<Rightarrow> nat list \<Rightarrow> nat option \<Rightarrow> mail_error + place" where
  "find_place payload s [] free = Inr (case free of None \<Rightarrow> Full | Some i \<Rightarrow> Free i)"
| "find_place payload s (i # is) free =
     (if \<not> h_used s ! i then find_place payload s is (if free = None then Some i else free)
      else case h_active s i of
             None \<Rightarrow> Inl (MKeyError i)
           | Some a \<Rightarrow>
               if take MESSAGE_SIZE payload = take MESSAGE_SIZE (active_bytes a) then Inr Duplicate
               else find_place payload s is free)"

definition handleMessage :: "'c ext_msg \<Rightarrow> ('c, unit) hsm_op" where
  "handleMessage message s =
     (case find_place (m_payload message) s [0..<MESSAGES_PER_MAILBOX] None of
        Inl e \<Rightarrow> (Inl e, s)
      | Inr Duplicate \<Rightarrow> (Inr (), s)
      | Inr Full \<Rightarrow> (Inl MRuntimeError, s)
      | Inr (Free i) \<Rightarrow>
          (Inr (), s\<lparr>h_counter := h_counter s + 1, h_used := (h_used s)[i := True],
             h_active := (h_active s)(i \<mapsto> Waiting message), h_out := put_slot (h_out s) i (m_payload message)\<rparr>))"

definition sendExtendMsg :: "pystr \<Rightarrow> volume_data \<Rightarrow> int \<Rightarrow> 'c option \<Rightarrow> ('c, unit) hsm_op" where
  "sendExtendMsg poolID volumeData newSize callback s =
     (case new_message volumeData newSize callback of
        Inl e \<Rightarrow> (Inl e, s)
      | Inr msg \<Rightarrow>
          if m_pool msg \<noteq> poolID then (Inl MValueError, s) else (Inr (), s\<lparr>h_queue := h_queue s @ [msg]\<rparr>))"

definition active_count :: "'c hsm \<Rightarrow> nat" where
  "active_count s = length (filter (\<lambda>i. h_active s i \<noteq> None) [0..<MESSAGES_PER_MAILBOX])"

text \<open>Messages that wait in the queue are put into free slots, as long as there are any.\<close>

fun drain :: "'c ext_msg list \<Rightarrow> bool \<Rightarrow> ('c, bool) hsm_op" where
  "drain [] sendMail s = (Inr sendMail, s\<lparr>h_queue := []\<rparr>)"
| "drain (msg # msgs) sendMail s =
     (if active_count s < MESSAGES_PER_MAILBOX then
        (case handleMessage msg (s\<lparr>h_queue := msgs\<rparr>) of
           (Inl e, s') \<Rightarrow> (Inl e, s')
         | (Inr _, s') \<Rightarrow> drain msgs True s')
      else (Inr sendMail, s))"

text \<open>
  One round of the monitor: the queue, the incoming mail, where an error is only counted, and the outgoing mail. With
  nothing in the queue and no active message the thread goes on waiting. The result is the mail that was sent, if any.
\<close>

definition h_round :: "bytes option \<Rightarrow> ('c, bytes option) hsm_op" where
  "h_round out s =
     (if h_queue s = [] \<and> active_count s = 0 then (Inr None, s)
      else case drain (h_queue s) False s of
        (Inl e, s') \<Rightarrow> (Inl e, s')
      | (Inr sendMail, s') \<Rightarrow>
          (case h_checkForMail out s' of
             (r, s'') \<Rightarrow>
               if sendMail \<or> r = Inr True then
                 (case h_sendMail s'' of (Inl e, t) \<Rightarrow> (Inl e, t) | (Inr mail, t) \<Rightarrow> (Inr (Some mail), t))
               else (Inr None, s'')))"

definition h_finish :: "('c, bytes) hsm_op" where
  "h_finish s = h_sendMail (s\<lparr>h_out := EMPTYMAILBOX\<rparr>)"

subsection \<open>The monitor of the manager\<close>

text \<open>\<open>p_tasks\<close> are the requests that were queued: the number of the message, its type and its bytes.\<close>

record spm =
  p_types :: "bytes list"
  p_numHosts :: nat
  p_out :: bytes
  p_in :: bytes
  p_tasks :: "(nat \<times> bytes \<times> bytes) list"

type_synonym 'a spm_op = "(spm, mail_error, 'a) op"

definition outMailLen :: "spm \<Rightarrow> nat" where
  "outMailLen s = MAILBOX_SIZE * p_numHosts s"

definition new_spm :: "nat \<Rightarrow> spm" where
  "new_spm maxHostID =
     (let mail = replicate (MAILBOX_SIZE * maxHostID) NUL in
      \<lparr>p_types = [], p_numHosts = maxHostID, p_out = mail, p_in = mail, p_tasks = []\<rparr>)"

definition registerMessageType :: "bytes \<Rightarrow> spm \<Rightarrow> spm" where
  "registerMessageType t s = s\<lparr>p_types := List.insert t (p_types s)\<rparr>"

definition unregisterMessageType :: "bytes \<Rightarrow> unit spm_op" where
  "unregisterMessageType t s =
     (if t \<in> set (p_types s) then (Inr (), s\<lparr>p_types := removeAll t (p_types s)\<rparr>) else (Inl (MKeyError 0), s))"

definition pZeroChecksum :: "mail_error + bytes" where
  "pZeroChecksum = packed_checksum EMPTYMAILBOX"

definition validateMailbox :: "bytes \<Rightarrow> mail_error + bool" where
  "validateMailbox mailbox =
     (if length mailbox \<noteq> MAILBOX_SIZE then Inl MAssertionError
      else
        let data = take (length mailbox - CHECKSUM_BYTES) mailbox; csum = drop (length mailbox - CHECKSUM_BYTES) mailbox in
        rbind (packed_checksum data) (\<lambda>expected.
          if csum \<noteq> expected then Inr False else if Inr expected = pZeroChecksum then Inr False else Inr True))"

definition put_mail :: "spm \<Rightarrow> nat \<Rightarrow> bytes \<Rightarrow> bytes" where
  "put_mail s msgId d =
     (let off = msgId * MESSAGE_SIZE in take off (p_out s) @ d @ slice (off + MESSAGE_SIZE) (outMailLen s) (p_out s))"

text \<open>
  A message of a validated mailbox: one that cleans a slot, one that was read before, or a request, which is queued when
  its type is known and the thread pool takes it. The result says that mail is to be sent.
\<close>

definition handle_mail :: "(nat \<Rightarrow> bool) \<Rightarrow> bytes \<Rightarrow> nat \<Rightarrow> spm \<Rightarrow> bool \<times> spm" where
  "handle_mail accept newMail msgId s =
     (let start = msgId * MESSAGE_SIZE; newMsg = slice start (start + MESSAGE_SIZE) newMail;
          msgType = slice (start + 1) (start + 5) newMail in
      if newMsg = CLEAN_MESSAGE then (True, s\<lparr>p_out := put_mail s msgId CLEAN_MESSAGE\<rparr>)
      else if newMsg = slice start (start + MESSAGE_SIZE) (p_in s) then (False, s)
      else if msgType \<in> set (p_types s) \<and> accept msgId then (False, s\<lparr>p_tasks := p_tasks s @ [(msgId, msgType, newMsg)]\<rparr>)
      else (False, s))"

fun host_slots :: "(nat \<Rightarrow> bool) \<Rightarrow> nat \<Rightarrow> bytes \<Rightarrow> nat list \<Rightarrow> bool \<Rightarrow> bool \<Rightarrow> (bytes \<times> bool) spm_op" where
  "host_slots accept host newMail [] validated send s = (Inr (newMail, send), s)"
| "host_slots accept host newMail (i # is) validated send s =
     (let msgId = host * SLOTS_PER_MAILBOX + i; msgStart = msgId * MESSAGE_SIZE; mailboxStart = host * MAILBOX_SIZE in
      if slice msgStart (msgStart + 1) newMail = [NUL] then host_slots accept host newMail is validated send s
      else case (if validated then Inr True else validateMailbox (slice mailboxStart (mailboxStart + MAILBOX_SIZE) newMail)) of
             Inl e \<Rightarrow> (Inl e, s)
           | Inr False \<Rightarrow>
               (Inr (take mailboxStart newMail @ EMPTYMAILBOX @ drop (mailboxStart + MAILBOX_SIZE) newMail, send), s)
           | Inr True \<Rightarrow>
               (case handle_mail accept newMail msgId s of
                  (b, s') \<Rightarrow> host_slots accept host newMail is True (send \<or> b) s'))"

fun handle_hosts :: "(nat \<Rightarrow> bool) \<Rightarrow> bytes \<Rightarrow> nat list \<Rightarrow> bool \<Rightarrow> (bytes \<times> bool) spm_op" where
  "handle_hosts accept newMail [] send s = (Inr (newMail, send), s)"
| "handle_hosts accept newMail (host # hosts) send s =
     (case host_slots accept host newMail [0..<MESSAGES_PER_MAILBOX] False send s of
        (Inl e, s') \<Rightarrow> (Inl e, s')
      | (Inr (newMail', send'), s') \<Rightarrow> handle_hosts accept newMail' hosts send' s')"

definition handleRequests :: "(nat \<Rightarrow> bool) \<Rightarrow> bytes \<Rightarrow> bool spm_op" where
  "handleRequests accept newMail s =
     (case handle_hosts accept newMail [0..<p_numHosts s] False s of
        (Inl e, s') \<Rightarrow> (Inl e, s')
      | (Inr (newMail', send), s') \<Rightarrow> (Inr send, s'\<lparr>p_in := newMail'\<rparr>))"

text \<open>Reading the mail of all hosts; the result is the mail that is written, if any.\<close>

definition p_checkForMail :: "(nat \<Rightarrow> bool) \<Rightarrow> bytes option \<Rightarrow> bytes option spm_op" where
  "p_checkForMail accept out s =
     (case out of
        None \<Rightarrow> (Inl MIOError, s)
      | Some in_mail \<Rightarrow>
          if length in_mail \<noteq> outMailLen s then (Inl MRuntimeError, s)
          else (case handleRequests accept in_mail s of
                  (Inl e, s') \<Rightarrow> (Inl e, s')
                | (Inr send, s') \<Rightarrow> (Inr (if send then Some (p_out s') else None), s')))"

text \<open>A reply is written with the mailbox of its host; the result is the place and the bytes that are written.\<close>

definition sendReply :: "nat \<Rightarrow> 'c ext_msg \<Rightarrow> spm \<Rightarrow> (nat \<times> bytes) \<times> spm" where
  "sendReply msgID msg s =
     (let out = put_mail s msgID (m_payload msg); mailboxOffset = msgID div SLOTS_PER_MAILBOX * MAILBOX_SIZE in
      ((mailboxOffset div MAILBOX_SIZE, slice mailboxOffset (mailboxOffset + MAILBOX_SIZE) out), s\<lparr>p_out := out\<rparr>))"

end
