(* ===== verification/Mailbox_Messages.thy ===== *)
theory Mailbox_Messages
  imports Mailbox
begin

text \<open>
  Lemmas on the content of mailboxes: checksums of mailboxes never overflow, packed UUIDs are unpacked, and the manager
  reads from a message what the host put into it.
\<close>

subsection \<open>Checksums\<close>

lemma le_bytes_length [simp]: "length (le_bytes k n) = k"
  by (induction k arbitrary: n) auto

lemma le_value_bytes: "le_value (le_bytes k n) = n mod 256 ^ k"
proof (induction k arbitrary: n)
  case (Suc k)
  have "n mod (256 * 256 ^ k) = 256 * (n div 256 mod 256 ^ k) + n mod 256" by (rule mod_mult2_eq)
  then show ?case using Suc by (simp add: of_char_of)
qed simp

lemma sum_bytes: "(sum_list (map of_char data) :: nat) \<le> 255 * length (data :: bytes)"
proof (induction data)
  case (Cons c data)
  moreover have "(of_char c :: nat) \<le> 255" using of_char_lt [of c] by linarith
  ultimately show ?case by simp
qed simp

lemma checksum_mail:
  assumes "length data \<le> MAILBOX_SIZE"
  shows "checksum data = sum_list (map of_char data)" "checksum data < 2 ^ 31"
proof -
  have "sum_list (map of_char data) < (2 ^ 31 :: nat)"
    using sum_bytes [of data] assms by (simp add: MAILBOX_SIZE_def)
  then show "checksum data = sum_list (map of_char data)" "checksum data < 2 ^ 31"
    by (simp_all add: checksum_def CHECKSUM_BYTES_def)
qed

lemma packed_checksum_mail:
  "length data \<le> MAILBOX_SIZE \<Longrightarrow> packed_checksum data = Inr (le_bytes 4 (checksum data))"
  using checksum_mail [of data] by (simp add: packed_checksum_def CHECKSUM_BYTES_def)

lemma of_char_NUL: "(of_char c :: nat) = 0 \<longleftrightarrow> c = NUL"
proof -
  have "(of_char c :: nat) = of_char NUL \<longleftrightarrow> c = NUL" by (rule of_char_eq_iff)
  then show ?thesis by simp
qed

lemma checksum_zero: "length data \<le> MAILBOX_SIZE \<Longrightarrow> checksum data = 0 \<longleftrightarrow> (\<forall>c \<in> set data. c = NUL)"
  using checksum_mail [of data] by (simp add: sum_list_eq_0_iff of_char_NUL)

lemma packed_checksum_eq:
  assumes "length a \<le> MAILBOX_SIZE" and "length b \<le> MAILBOX_SIZE"
  shows "packed_checksum a = packed_checksum b \<longleftrightarrow> checksum a = checksum b"
proof -
  have "checksum d = le_value (le_bytes 4 (checksum d))" if "length d \<le> MAILBOX_SIZE" for d
    using checksum_mail(2) [OF that] by (simp add: le_value_bytes)
  then show ?thesis using assms by (metis packed_checksum_mail sum.inject(2))
qed

text \<open>A mailbox is valid exactly when its checksum matches and it is not empty.\<close>

lemma validateMailbox_spec:
  assumes "length mb = MAILBOX_SIZE"
  shows "validateMailbox mb =
    Inr (packed_checksum (take (MAILBOX_SIZE - CHECKSUM_BYTES) mb) = Inr (drop (MAILBOX_SIZE - CHECKSUM_BYTES) mb) \<and>
      (\<exists>c \<in> set (take (MAILBOX_SIZE - CHECKSUM_BYTES) mb). c \<noteq> NUL))"
proof -
  let ?d = "take (MAILBOX_SIZE - CHECKSUM_BYTES) mb"
  have d: "length ?d \<le> MAILBOX_SIZE" using assms by simp
  have e: "length EMPTYMAILBOX \<le> MAILBOX_SIZE" by (simp add: EMPTYMAILBOX_def)
  have "checksum EMPTYMAILBOX = 0" using checksum_zero [OF e] by (simp add: EMPTYMAILBOX_def)
  then have "packed_checksum ?d = pZeroChecksum \<longleftrightarrow> (\<forall>c \<in> set ?d. c = NUL)"
    using packed_checksum_eq [OF d e] checksum_zero [OF d] unfolding pZeroChecksum_def by simp
  then show ?thesis
    using assms packed_checksum_mail [OF d] unfolding validateMailbox_def by (auto simp: Let_def)
qed

subsection \<open>UUIDs\<close>

lemma digits_unique:
  fixes b :: nat
  assumes "length ds = length es" and "\<forall>d \<in> set ds. d < b" and "\<forall>d \<in> set es. d < b"
    and "foldl (\<lambda>acc d. acc * b + d) 0 ds = foldl (\<lambda>acc d. acc * b + d) 0 es"
  shows "ds = es"
  using assms
proof (induction ds arbitrary: es rule: rev_induct)
  case (snoc d ds)
  then obtain es' e where es: "es = es' @ [e]" by (metis length_0_conv rev_exhaust snoc_eq_iff_butlast)
  let ?v = "foldl (\<lambda>acc d. acc * b + d) 0"
  have eq: "?v ds * b + d = ?v es' * b + e" and lt: "d < b" "e < b" using snoc.prems es by auto
  then have "(?v ds * b + d) mod b = (?v es' * b + e) mod b" "(?v ds * b + d) div b = (?v es' * b + e) div b" by simp_all
  then have "d = e" "?v ds = ?v es'" using lt by auto
  then show ?case using snoc es by auto
qed simp

lemma hex_digits:
  assumes "\<forall>c \<in> set h. hex_digit c"
  shows "\<exists>ds. h = map digit_char ds \<and> (\<forall>d \<in> set ds. d < 16)"
  using assms
proof (induction h)
  case (Cons c h)
  then obtain ds where ds: "h = map digit_char ds" "\<forall>d \<in> set ds. d < 16" by auto
  let ?n = "of_char c :: nat"
  define d where "d = (if ?n \<le> 57 then ?n - 48 else ?n - 87)"
  have n: "48 \<le> ?n \<and> ?n \<le> 57 \<or> 97 \<le> ?n \<and> ?n \<le> 102" using Cons.prems by (simp add: hex_digit_def Let_def)
  then have d: "d < 16" by (auto simp: d_def)
  moreover have "(of_char (digit_char d) :: nat) = ?n" using n d by (auto simp: digit_char_code d_def)
  then have "digit_char d = c" by (metis char_of_char)
  ultimately show ?case using ds by (intro exI [of _ "d # ds"]) simp
qed simp

lemma fmt_x_of_digits:
  assumes "\<forall>d \<in> set ds. d < 16" and "length ds = w" and "0 < w"
  shows "fmt_x w (foldl (\<lambda>acc d. acc * 16 + d) 0 ds) = map digit_char ds"
proof -
  let ?n = "foldl (\<lambda>acc d. acc * 16 + d) (0 :: nat) ds"
  have lt: "foldl (\<lambda>acc d. acc * 16 + d) (0 :: nat) xs < 16 ^ length xs" if "\<forall>d \<in> set xs. d < 16" for xs
    using that by (induction xs rule: rev_induct) auto
  obtain k where k: "w = Suc k" using assms(3) by (cases w) auto
  have "length (to_base 16 ?n) \<le> w" using length_to_base [of 16 ?n k] lt [OF assms(1)] assms(2) k by simp
  then have "replicate (w - length (to_base 16 ?n)) 0 @ to_base 16 ?n = ds"
    using assms to_base_digits [of 16 ?n] by (intro digits_unique [where b = 16]) (auto simp: foldl_zeros foldl_to_base)
  then show ?thesis by (simp add: fmt_x_digits flip: map_append)
qed

lemma slice_nth: "c \<in> set (slice a b xs) \<Longrightarrow> b \<le> length xs \<Longrightarrow> \<exists>i. a \<le> i \<and> i < b \<and> c = xs ! i"
proof -
  assume "c \<in> set (slice a b xs)" and b: "b \<le> length xs"
  then obtain k where k: "k < length (slice a b xs)" "c = slice a b xs ! k" by (metis in_set_conv_nth)
  then show ?thesis using b by (intro exI [of _ "a + k"]) (auto simp: slice_def)
qed

lemma uuid_hex:
  assumes "uuid_form s"
  shows "\<exists>h. length h = 32 \<and> (\<forall>c \<in> set h. hex_digit c) \<and> filter (\<lambda>c. c \<noteq> CHR ''-'') s = h \<and>
    s = slice 0 8 h @ ''-'' @ slice 8 12 h @ ''-'' @ slice 12 16 h @ ''-'' @ slice 16 20 h @ ''-'' @ slice 20 32 h"
proof -
  have len: "length s = 36" using assms by (simp add: uuid_form_def)
  have chars: "if i \<in> {8, 13, 18, 23} then s ! i = CHR ''-'' else hex_digit (s ! i)" if "i < 36" for i
  proof -
    have "(i, s ! i) \<in> set (enumerate 0 s)" using that len by (simp add: in_set_enumerate_eq)
    from bspec [OF conjunct2 [OF assms [unfolded uuid_form_def]] this] show ?thesis by simp
  qed
  let ?a = "slice 0 8 s" and ?b = "slice 9 13 s" and ?c = "slice 14 18 s" and ?d = "slice 19 23 s" and ?e = "slice 24 36 s"
  have lens: "length ?a = 8" "length ?b = 4" "length ?c = 4" "length ?d = 4" "length ?e = 12" by (simp_all add: slice_def len)
  have s: "s = ?a @ ''-'' @ ?b @ ''-'' @ ?c @ ''-'' @ ?d @ ''-'' @ ?e"
  proof (rule nth_equalityI)
    fix i assume i: "i < length s"
    show "s ! i = (?a @ ''-'' @ ?b @ ''-'' @ ?c @ ''-'' @ ?d @ ''-'' @ ?e) ! i"
      using chars [of i] i len lens by (auto simp: nth_append nth_Cons' slice_def)
  qed (simp add: len lens)
  have hex: "hex_digit c" if "c \<in> set ?a \<union> set ?b \<union> set ?c \<union> set ?d \<union> set ?e" for c
  proof -
    have "\<exists>i<36. i \<notin> {8, 13, 18, 23} \<and> c = s ! i"
      using that slice_nth [of c 0 8 s] slice_nth [of c 9 13 s] slice_nth [of c 14 18 s] slice_nth [of c 19 23 s]
        slice_nth [of c 24 36 s] len by (elim UnE) force+
    then obtain i where "i < 36" "i \<notin> {8, 13, 18, 23}" "c = s ! i" by blast
    then show ?thesis using chars [of i] by (simp split: if_splits)
  qed
  have dash: "\<not> hex_digit (CHR ''-'')" by (simp add: hex_digit_def)
  then have keep: "filter (\<lambda>c. c \<noteq> CHR ''-'') t = t" if "set t \<subseteq> set ?a \<union> set ?b \<union> set ?c \<union> set ?d \<union> set ?e" for t
    using that hex by (auto simp: filter_id_conv)
  have "filter (\<lambda>c. c \<noteq> CHR ''-'') s = ?a @ ?b @ ?c @ ?d @ ?e"
    using keep [of ?a] keep [of ?b] keep [of ?c] keep [of ?d] keep [of ?e] by (subst s) (simp add: le_supI1 le_supI2)
  moreover have "s = slice 0 8 (?a @ ?b @ ?c @ ?d @ ?e) @ ''-'' @ slice 8 12 (?a @ ?b @ ?c @ ?d @ ?e) @ ''-'' @
      slice 12 16 (?a @ ?b @ ?c @ ?d @ ?e) @ ''-'' @ slice 16 20 (?a @ ?b @ ?c @ ?d @ ?e) @ ''-'' @
      slice 20 32 (?a @ ?b @ ?c @ ?d @ ?e)"
    using s lens by (simp add: slice_def)
  moreover have "length (?a @ ?b @ ?c @ ?d @ ?e) = 32" by (simp add: lens)
  ultimately show ?thesis using hex by (intro exI [of _ "?a @ ?b @ ?c @ ?d @ ?e"]) auto
qed

lemma uuid_str_int:
  assumes "uuid_form s"
  shows "\<exists>v. uuid_int s = Inr v \<and> v < 2 ^ 128 \<and> uuid_str v = s"
proof -
  obtain h where h: "length h = 32" "\<forall>c \<in> set h. hex_digit c" "filter (\<lambda>c. c \<noteq> CHR ''-'') s = h"
    and s: "s = slice 0 8 h @ ''-'' @ slice 8 12 h @ ''-'' @ slice 12 16 h @ ''-'' @ slice 16 20 h @ ''-'' @ slice 20 32 h"
    using uuid_hex [OF assms] by blast
  obtain ds where ds: "h = map digit_char ds" "\<forall>d \<in> set ds. d < 16" using hex_digits [OF h(2)] by blast
  define v where "v = foldl (\<lambda>acc d. acc * 16 + d) (0 :: nat) ds"
  have lens: "length ds = 32" "ds \<noteq> []" using h(1) ds(1) by auto
  have "uuid_int s = Inr v"
    using h ds py_int_digits [of 16 ds] lens by (simp add: uuid_int_def Let_def v_def)
  moreover have "fmt_x 32 v = h" using fmt_x_of_digits [OF ds(2) lens(1)] by (simp add: v_def ds(1))
  moreover have "foldl (\<lambda>acc d. acc * 16 + d) (0 :: nat) xs < 16 ^ length xs" if "\<forall>d \<in> set xs. d < 16" for xs
    using that by (induction xs rule: rev_induct) auto
  then have "v < 16 ^ 32" using ds(2) lens(1) unfolding v_def by metis
  then have "v < 2 ^ 128" by simp
  ultimately show ?thesis using s by (simp add: uuid_str_def)
qed

lemma unpack_packUuid:
  assumes "uuid_form s"
  shows "\<exists>b. packUuid s = Inr b \<and> length b = 16 \<and> unpackUuid b = Inr s"
proof -
  obtain v where v: "uuid_int s = Inr v" "v < 2 ^ 128" "uuid_str v = s" using uuid_str_int [OF assms] by blast
  let ?b = "le_bytes 8 (v mod 2 ^ 64) @ le_bytes 8 (v div 2 ^ 64)"
  have "v div 2 ^ 64 < 2 ^ 64" using v(2) by (simp add: div_less_iff_less_mult)
  then have "le_value (le_bytes 8 (v mod 2 ^ 64)) + le_value (le_bytes 8 (v div 2 ^ 64)) * 2 ^ 64 = v"
    by (simp add: le_value_bytes)
  then show ?thesis using v by (simp add: packUuid_def unpackUuid_def slice_def)
qed

lemma packed_uuid_form:
  assumes "validateUUID s = Inr u" and "packUuid s = Inr b"
  shows "uuid_form s"
proof (rule ccontr)
  assume n: "\<not> uuid_form s"
  then have nl: "s \<noteq> []" "last s = NL" "uuid_form (butlast s)" using assms(1) by (auto simp: validateUUID_def split: if_splits)
  obtain h where "length h = 32" "filter (\<lambda>c. c \<noteq> CHR ''-'') (butlast s) = h" using uuid_hex [OF nl(3)] by blast
  then have "length (filter (\<lambda>c. c \<noteq> CHR ''-'') (butlast s @ [last s])) = 33" using nl(2) by simp
  then have "length (filter (\<lambda>c. c \<noteq> CHR ''-'') s) = 33" using nl(1) by simp
  then show False using assms(2) by (simp add: packUuid_def uuid_int_def)
qed

subsection \<open>Messages\<close>

lemma new_message_payload:
  assumes "new_message vd n cb = Inr msg"
  obtains pool dom vol d v where "vd ''poolID'' = Some pool" "vd ''domainID'' = Some dom" "vd ''volumeID'' = Some vol"
    "0 \<le> n" "n \<le> VOLUME_MAX_SIZE" "uuid_form dom" "uuid_form vol" "packUuid dom = Inr d" "packUuid vol = Inr v"
    "msg = \<lparr>m_pool = pool, m_volumeData = vd, m_callback = cb,
       m_payload = ljust_zero (MESSAGE_VERSION @ EXTEND_CODE @ d @ v @ fmt_x SIZE_CHARS (nat n))\<rparr>"
proof -
  from assms obtain pool dom vol where vd: "vd ''poolID'' = Some pool" "vd ''domainID'' = Some dom" "vd ''volumeID'' = Some vol"
    by (auto simp: new_message_def split: option.splits prod.splits)
  then have n: "0 \<le> n" "n \<le> VOLUME_MAX_SIZE" using assms by (auto simp: new_message_def split: if_splits)
  then obtain d v where "validateUUID dom = Inr ()" "validateUUID vol = Inr ()" "packUuid dom = Inr d" "packUuid vol = Inr v"
    "msg = \<lparr>m_pool = pool, m_volumeData = vd, m_callback = cb,
       m_payload = ljust_zero (MESSAGE_VERSION @ EXTEND_CODE @ d @ v @ fmt_x SIZE_CHARS (nat n))\<rparr>"
    using assms vd by (auto simp: new_message_def rbind_Inr_iff split: if_splits)
  with vd n that packed_uuid_form show ?thesis by blast
qed

lemma payload_parts:
  assumes "length d = 16" and "length v = 16" and "0 \<le> n" and "n \<le> VOLUME_MAX_SIZE"
  defines "p \<equiv> ljust_zero (MESSAGE_VERSION @ EXTEND_CODE @ d @ v @ fmt_x SIZE_CHARS (nat n))"
  shows "length p = MESSAGE_SIZE" "slice 0 1 p = ''1''" "slice 1 5 p = EXTEND_CODE" "slice 5 21 p = d" "slice 21 37 p = v"
    "slice 37 53 p = fmt_x SIZE_CHARS (nat n)"
proof -
  have "nat n < 16 ^ 16" using assms(3,4) by (simp add: VOLUME_MAX_SIZE_def nat_less_iff)
  then have "length (fmt_x SIZE_CHARS (nat n)) = 16" unfolding SIZE_CHARS_def by (intro length_fmt_x) simp_all
  then show "length p = MESSAGE_SIZE" "slice 0 1 p = ''1''" "slice 1 5 p = EXTEND_CODE" "slice 5 21 p = d"
    "slice 21 37 p = v" "slice 37 53 p = fmt_x SIZE_CHARS (nat n)"
    using assms(1,2) unfolding p_def
    by (simp_all add: ljust_zero_def MESSAGE_VERSION_def EXTEND_CODE_def MESSAGE_SIZE_def slice_def)
qed

text \<open>The manager reads the ids and the size that the host asked for.\<close>

lemma read_new_message:
  assumes "new_message vd n cb = Inr msg"
  shows "\<exists>dom vol. vd ''domainID'' = Some dom \<and> vd ''volumeID'' = Some vol \<and>
      read_request pool (m_payload msg) = Inr (dom, vol, n)"
    and "length (m_payload msg) = MESSAGE_SIZE" "slice 0 1 (m_payload msg) = ''1''" "slice 1 5 (m_payload msg) = EXTEND_CODE"
proof -
  obtain p dom vol d v where M: "vd ''domainID'' = Some dom" "vd ''volumeID'' = Some vol" "0 \<le> n" "n \<le> VOLUME_MAX_SIZE"
    "uuid_form dom" "uuid_form vol" "packUuid dom = Inr d" "packUuid vol = Inr v"
    and pl: "m_payload msg = ljust_zero (MESSAGE_VERSION @ EXTEND_CODE @ d @ v @ fmt_x SIZE_CHARS (nat n))"
    using new_message_payload [OF assms] by (metis ext_msg.select_convs(4))
  have u: "length d = 16" "unpackUuid d = Inr dom" "length v = 16" "unpackUuid v = Inr vol"
    using unpack_packUuid [OF M(5)] unpack_packUuid [OF M(6)] M(7,8) by auto
  note parts = payload_parts [OF u(1,3) M(3,4), folded pl]
  show "length (m_payload msg) = MESSAGE_SIZE" "slice 0 1 (m_payload msg) = ''1''" "slice 1 5 (m_payload msg) = EXTEND_CODE"
    by (rule parts)+
  have "read_request pool (m_payload msg) = Inr (dom, vol, n)"
    using parts(4,5,6) u M(3) by (simp add: read_request_def PACKED_UUID_SIZE_def SIZE_CHARS_def Let_def)
  then show "\<exists>dom vol. vd ''domainID'' = Some dom \<and> vd ''volumeID'' = Some vol \<and>
      read_request pool (m_payload msg) = Inr (dom, vol, n)" using M(1,2) by blast
qed

end
