(* ===== verification/Mailbox_Host.thy ===== *)
theory Mailbox_Host
  imports Mailbox_Messages
begin

text \<open>
  The monitor of a host over all its rounds: what the slots of its mailbox have, and that no round raises.
\<close>

subsection \<open>The invariant\<close>

definition slot_of :: "bytes \<Rightarrow> nat \<Rightarrow> bytes" where
  "slot_of mail i = slice (i * MESSAGE_SIZE) (i * MESSAGE_SIZE + MESSAGE_SIZE) mail"

definition made :: "'c ext_msg \<Rightarrow> bool" where
  "made m \<longleftrightarrow> (\<exists>vd n cb. new_message vd n cb = Inr m)"

definition slot_content :: "'c active option \<Rightarrow> bytes" where
  "slot_content a = (case a of None \<Rightarrow> replicate MESSAGE_SIZE NUL | Some x \<Rightarrow> active_bytes x)"

definition slots_ok :: "'c hsm \<Rightarrow> bool" where
  "slots_ok s \<longleftrightarrow> length (h_out s) = MAILBOX_SIZE \<and>
     (\<forall>i < MESSAGES_PER_MAILBOX. slot_of (h_out s) i = slot_content (h_active s i))"

definition active_ok :: "'c hsm \<Rightarrow> bool" where
  "active_ok s \<longleftrightarrow> length (h_used s) = MESSAGES_PER_MAILBOX \<and>
     (\<forall>i. h_active s i \<noteq> None \<longleftrightarrow> i < MESSAGES_PER_MAILBOX \<and> h_used s ! i) \<and> h_counter s = int (active_count s)"

definition msgs_ok :: "'c hsm \<Rightarrow> bool" where
  "msgs_ok s \<longleftrightarrow> (\<forall>m \<in> set (h_queue s). made m) \<and> (\<forall>i m. h_active s i = Some (Waiting m) \<longrightarrow> made m) \<and>
     (\<forall>i j m m'. h_active s i = Some (Waiting m) \<longrightarrow> h_active s j = Some (Waiting m') \<longrightarrow> m_payload m = m_payload m' \<longrightarrow> i = j)"

definition h_inv :: "'c hsm \<Rightarrow> bool" where
  "h_inv s \<longleftrightarrow> slots_ok s \<and> active_ok s \<and> msgs_ok s"

lemma made_payload:
  assumes "made m"
  shows "length (m_payload m) = MESSAGE_SIZE" "slice 0 1 (m_payload m) = ''1''"
  using assms read_new_message(2,3) by (auto simp: made_def)

lemma active_count_card: "active_count s = card {i. i < MESSAGES_PER_MAILBOX \<and> h_active s i \<noteq> None}"
proof -
  have "active_count s = card (set (filter (\<lambda>i. h_active s i \<noteq> None) [0..<MESSAGES_PER_MAILBOX]))"
    unfolding active_count_def by (rule distinct_card [symmetric]) simp
  also have "set (filter (\<lambda>i. h_active s i \<noteq> None) [0..<MESSAGES_PER_MAILBOX]) = {i. i < MESSAGES_PER_MAILBOX \<and> h_active s i \<noteq> None}"
    by auto
  finally show ?thesis .
qed

lemma slot_bounds: "i < MESSAGES_PER_MAILBOX \<Longrightarrow> i * MESSAGE_SIZE + MESSAGE_SIZE \<le> MAILBOX_SIZE - MESSAGE_SIZE"
  by (simp add: mail_sizes)

lemma put_slot_overwrite: "length d = MESSAGE_SIZE \<Longrightarrow> put_slot mail i d = overwrite mail (i * MESSAGE_SIZE) d"
  by (simp add: put_slot_def overwrite_def)

lemma slot_put_slot:
  assumes "length mail = MAILBOX_SIZE" and "i < MESSAGES_PER_MAILBOX" and "length d = MESSAGE_SIZE"
  shows "slot_of (put_slot mail i d) j = (if j = i then d else slot_of mail j)" "length (put_slot mail i d) = MAILBOX_SIZE"
proof -
  have b: "i * MESSAGE_SIZE + length d \<le> length mail" using slot_bounds [OF assms(2)] assms by (simp add: mail_sizes)
  then show "length (put_slot mail i d) = MAILBOX_SIZE" using assms by (simp add: put_slot_overwrite)
  have "j * MESSAGE_SIZE + MESSAGE_SIZE \<le> i * MESSAGE_SIZE \<or> i * MESSAGE_SIZE + length d \<le> j * MESSAGE_SIZE" if "j \<noteq> i"
    using that assms(3) by (cases j i rule: linorder_cases) (auto simp: MESSAGE_SIZE_def)
  then show "slot_of (put_slot mail i d) j = (if j = i then d else slot_of mail j)"
    using b slice_overwrite_same [OF b] slice_other [OF b] assms(3) by (auto simp: slot_of_def put_slot_overwrite)
qed

lemma slots_ok_put:
  assumes "slots_ok s" and "i < MESSAGES_PER_MAILBOX" and "length (slot_content a) = MESSAGE_SIZE"
    and "h_out s' = put_slot (h_out s) i (slot_content a)" and "h_active s' = (h_active s)(i := a)"
  shows "slots_ok s'"
  using assms slot_put_slot [of "h_out s" i "slot_content a"] by (simp add: slots_ok_def)

text \<open>A slot changes: its message, its flag and the counter together.\<close>

lemma active_ok_set:
  assumes "active_ok s" and "i < MESSAGES_PER_MAILBOX" and "h_active s' = (h_active s)(i := a)"
    and "h_used s' = (h_used s)[i := a \<noteq> None]"
    and "h_counter s' = h_counter s + (if a \<noteq> None then 1 else 0) - (if h_active s i \<noteq> None then 1 else 0)"
  shows "active_ok s'"
proof -
  define A where "A = {j. j < MESSAGES_PER_MAILBOX \<and> h_active s j \<noteq> None}"
  define A' where "A' = {j. j < MESSAGES_PER_MAILBOX \<and> h_active s' j \<noteq> None}"
  have fin: "finite A" and mem: "i \<in> A \<longleftrightarrow> h_active s i \<noteq> None" using assms(2) by (simp_all add: A_def)
  have A': "A' = (if a \<noteq> None then insert i A else A - {i})" using assms(2,3) by (auto simp: A_def A'_def)
  have counts: "active_count s = card A" "active_count s' = card A'" by (simp_all add: active_count_card A_def A'_def)
  have "int (card A') = int (card A) + (if a \<noteq> None then 1 else 0) - (if i \<in> A then 1 else 0)"
  proof (cases "i \<in> A")
    case True
    then show ?thesis using card_Suc_Diff1 [OF fin True] by (cases "a = None") (simp_all add: A' insert_absorb)
  next
    case False
    then show ?thesis using fin by (cases "a = None") (simp_all add: A')
  qed
  then have "h_counter s' = int (active_count s')"
    using assms(1,5) mem by (simp add: active_ok_def counts)
  moreover have "h_active s' j \<noteq> None \<longleftrightarrow> j < MESSAGES_PER_MAILBOX \<and> h_used s' ! j" for j
    using assms(1-4) by (cases "j = i") (auto simp: active_ok_def)
  ultimately show ?thesis using assms(1,4) by (simp add: active_ok_def)
qed

lemma msgs_ok_less:
  assumes "msgs_ok s" and "set (h_queue s') \<subseteq> set (h_queue s)"
    and "\<And>j m. h_active s' j = Some (Waiting m) \<Longrightarrow> h_active s j = Some (Waiting m)"
  shows "msgs_ok s'"
  using assms unfolding msgs_ok_def by (meson subsetD)

lemma msgs_ok_add:
  assumes "msgs_ok s" and "set (h_queue s') \<subseteq> set (h_queue s)" and "made m"
    and "h_active s' = (h_active s)(i \<mapsto> Waiting m)" and "\<And>j m'. h_active s j = Some (Waiting m') \<Longrightarrow> m_payload m' \<noteq> m_payload m"
  shows "msgs_ok s'"
  unfolding msgs_ok_def
proof (intro conjI)
  show "\<forall>m \<in> set (h_queue s'). made m" using assms(1,2) by (auto simp: msgs_ok_def)
  show "\<forall>i m. h_active s' i = Some (Waiting m) \<longrightarrow> made m" using assms(1,3,4) by (auto simp: msgs_ok_def)
  show "\<forall>j k m1 m2. h_active s' j = Some (Waiting m1) \<longrightarrow> h_active s' k = Some (Waiting m2) \<longrightarrow> m_payload m1 = m_payload m2 \<longrightarrow> j = k"
  proof (intro allI impI)
    fix j k m1 m2
    assume j: "h_active s' j = Some (Waiting m1)" and k: "h_active s' k = Some (Waiting m2)" and eq: "m_payload m1 = m_payload m2"
    show "j = k"
    proof (cases "j = i \<or> k = i")
      case True
      then show ?thesis using j k eq assms(4) assms(5) [of j m1] assms(5) [of k m2] by (auto split: if_splits)
    next
      case False
      then show ?thesis using j k eq assms(1,4) by (auto simp: msgs_ok_def)
    qed
  qed
qed

lemma h_inv_cong:
  assumes "h_inv s" and "h_out s' = h_out s" and "h_active s' = h_active s" and "h_used s' = h_used s"
    and "h_counter s' = h_counter s" and "set (h_queue s') \<subseteq> set (h_queue s)"
  shows "h_inv s'"
  using assms msgs_ok_less [of s s'] by (simp add: h_inv_def slots_ok_def active_ok_def active_count_def)

subsection \<open>The steps keep the invariant\<close>

lemma run_callback_inv: "h_inv s \<Longrightarrow> h_inv (run_callback msg reply s)"
  by (rule h_inv_cong [of s]) (auto simp: run_callback_def split: sum.splits option.splits prod.splits)

lemma clean_size [simp]: "length CLEAN_MESSAGE = MESSAGE_SIZE"
  by (simp add: CLEAN_MESSAGE_def)

lemma free_slot_inv:
  assumes "h_inv s" and "i < MESSAGES_PER_MAILBOX" and "h_active s i \<noteq> None"
  shows "h_inv (s\<lparr>h_active := (h_active s)(i := None), h_used := (h_used s)[i := False],
    h_counter := h_counter s - 1, h_out := put_slot (h_out s) i (replicate MESSAGE_SIZE NUL)\<rparr>)" (is "h_inv ?s")
proof -
  have "slots_ok ?s" by (rule slots_ok_put [where s = s and i = i and a = None]) (use assms in \<open>auto simp: h_inv_def slot_content_def\<close>)
  moreover have "active_ok ?s" by (rule active_ok_set [where s = s and i = i and a = None]) (use assms in \<open>auto simp: h_inv_def\<close>)
  moreover have "msgs_ok ?s" by (rule msgs_ok_less [where s = s]) (use assms(1) in \<open>auto simp: h_inv_def split: if_splits\<close>)
  ultimately show ?thesis by (simp add: h_inv_def)
qed

lemma clean_slot_inv:
  assumes "h_inv s" and "i < MESSAGES_PER_MAILBOX" and "h_active s i \<noteq> None"
  shows "h_inv (s\<lparr>h_active := (h_active s)(i \<mapsto> Cleaning), h_out := put_slot (h_out s) i CLEAN_MESSAGE\<rparr>)" (is "h_inv ?s")
proof -
  have used: "(h_used s)[i := True] = h_used s"
    using assms by (intro list_update_same_conv [THEN iffD2]) (auto simp: h_inv_def active_ok_def)
  have "slots_ok ?s"
    by (rule slots_ok_put [where s = s and i = i and a = "Some Cleaning"]) (use assms in \<open>auto simp: h_inv_def slot_content_def active_bytes_def\<close>)
  moreover have "active_ok ?s"
    by (rule active_ok_set [where s = s and i = i and a = "Some Cleaning"]) (use assms used in \<open>auto simp: h_inv_def\<close>)
  moreover have "msgs_ok ?s" by (rule msgs_ok_less [where s = s]) (use assms(1) in \<open>auto simp: h_inv_def split: if_splits\<close>)
  ultimately show ?thesis by (simp add: h_inv_def)
qed

lemma handle_response_inv:
  assumes "h_inv s" and "i < MESSAGES_PER_MAILBOX"
  shows "h_inv (snd (handle_response newMsgs i s))"
  using assms free_slot_inv [OF assms] clean_slot_inv [OF assms] run_callback_inv
  by (auto simp: handle_response_def Let_def split: sum.splits bool.splits option.splits active.splits)

lemma handle_slots_inv: "h_inv s \<Longrightarrow> set is \<subseteq> {..<MESSAGES_PER_MAILBOX} \<Longrightarrow> h_inv (snd (handle_slots newMsgs is rc s))"
proof (induction "is" arbitrary: rc s)
  case (Cons i "is")
  obtain r s1 where r: "handle_response newMsgs i s = (r, s1)" by (cases "handle_response newMsgs i s")
  have "h_inv s1" using handle_response_inv [of s i newMsgs] Cons.prems r by simp
  then show ?case using Cons r by (cases r) auto
qed simp

lemma checkForMail_inv:
  assumes "h_inv s"
  shows "h_inv (snd (h_checkForMail out s))"
proof -
  have "h_inv (snd (handleResponses mail s))" for mail
  proof -
    obtain r s1 where r: "handle_slots mail [0..<MESSAGES_PER_MAILBOX] False s = (r, s1)"
      by (cases "handle_slots mail [0..<MESSAGES_PER_MAILBOX] False s")
    have "set [0..<MESSAGES_PER_MAILBOX] \<subseteq> {..<MESSAGES_PER_MAILBOX}" by auto
    then have "h_inv s1" using handle_slots_inv [OF assms, of "[0..<MESSAGES_PER_MAILBOX]" mail False] r by simp
    then have "h_inv (s1\<lparr>h_in := mail\<rparr>)" by (rule h_inv_cong) auto
    then show ?thesis using \<open>h_inv s1\<close> r by (cases r) (auto simp: handleResponses_def)
  qed
  then show ?thesis using assms by (simp add: h_checkForMail_def split: option.splits)
qed

text \<open>The search for a slot finds a duplicate, or a free slot when there is one.\<close>

lemma find_place_ok:
  assumes "h_inv s" and "set is \<subseteq> {..<MESSAGES_PER_MAILBOX}" and "find_place p s is free = r"
  shows "r = Inr Duplicate \<or>
    (\<forall>j a. j \<in> set is \<longrightarrow> h_active s j = Some a \<longrightarrow> take MESSAGE_SIZE p \<noteq> take MESSAGE_SIZE (active_bytes a)) \<and>
    (r = Inr Full \<and> free = None \<and> (\<forall>j \<in> set is. h_active s j \<noteq> None) \<or>
     (\<exists>i. r = Inr (Free i) \<and> (free = Some i \<or> i \<in> set is \<and> h_active s i = None)))"
  using assms(2,3)
proof (induction "is" arbitrary: free)
  case Nil
  then show ?case by (cases free) auto
next
  case (Cons i "is")
  have act: "h_used s ! i \<longleftrightarrow> h_active s i \<noteq> None"
    using assms(1) Cons.prems(1) unfolding h_inv_def active_ok_def by auto
  show ?case
  proof (cases "h_active s i")
    case None
    then have "find_place p s is (if free = None then Some i else free) = r" using Cons.prems(2) act by simp
    from Cons.IH [OF _ this] Cons.prems(1) show ?thesis using None by (auto split: if_splits)
  next
    case (Some a)
    then show ?thesis using Cons.IH [of free] Cons.prems act by (auto split: if_splits)
  qed
qed

lemma take_message: "length p = MESSAGE_SIZE \<Longrightarrow> take MESSAGE_SIZE p = p"
  by simp

lemma handleMessage_inv:
  assumes "h_inv s" and "made msg"
  shows "h_inv (snd (handleMessage msg s))"
    and "active_count s < MESSAGES_PER_MAILBOX \<Longrightarrow> fst (handleMessage msg s) = Inr ()"
proof -
  let ?is = "[0..<MESSAGES_PER_MAILBOX]"
  obtain r where r: "find_place (m_payload msg) s ?is None = r" by simp
  note F = find_place_ok [OF assms(1) _ r]
  have sub: "set ?is \<subseteq> {..<MESSAGES_PER_MAILBOX}" by auto
  have len: "length (m_payload msg) = MESSAGE_SIZE" using made_payload(1) [OF assms(2)] .
  show "h_inv (snd (handleMessage msg s))"
  proof (cases "\<exists>i. r = Inr (Free i)")
    case True
    then obtain i where i: "r = Inr (Free i)" "i < MESSAGES_PER_MAILBOX" "h_active s i = None" using F [OF sub] by auto
    have other: "m_payload m' \<noteq> m_payload msg" if "h_active s j = Some (Waiting m')" for j m'
    proof -
      have "j \<in> set ?is" using that assms(1) by (auto simp: h_inv_def active_ok_def)
      then have "take MESSAGE_SIZE (m_payload msg) \<noteq> take MESSAGE_SIZE (m_payload m')"
        using F [OF sub] i(1) that by (auto simp: active_bytes_def)
      then show ?thesis by auto
    qed
    let ?s = "s\<lparr>h_counter := h_counter s + 1, h_used := (h_used s)[i := True],
      h_active := (h_active s)(i \<mapsto> Waiting msg), h_out := put_slot (h_out s) i (m_payload msg)\<rparr>"
    have "slots_ok ?s" by (rule slots_ok_put [where s = s and i = i and a = "Some (Waiting msg)"]) (use assms(1) i(2) len in \<open>auto simp: h_inv_def slot_content_def active_bytes_def\<close>)
    moreover have "active_ok ?s" by (rule active_ok_set [where s = s and i = i and a = "Some (Waiting msg)"]) (use assms(1) i(2,3) in \<open>auto simp: h_inv_def\<close>)
    moreover have "msgs_ok ?s" by (rule msgs_ok_add [where s = s and i = i and m = msg]) (use assms other in \<open>auto simp: h_inv_def\<close>)
    ultimately show ?thesis using i(1) r by (simp add: handleMessage_def h_inv_def)
  next
    case False
    then show ?thesis using assms(1) r by (auto simp: handleMessage_def split: sum.splits place.splits)
  qed
  show "fst (handleMessage msg s) = Inr ()" if "active_count s < MESSAGES_PER_MAILBOX"
  proof -
    have "r \<noteq> Inr Full"
    proof
      assume "r = Inr Full"
      then have "{i. i < MESSAGES_PER_MAILBOX \<and> h_active s i \<noteq> None} = {..<MESSAGES_PER_MAILBOX}" using F [OF sub] by auto
      then show False using that by (simp add: active_count_card)
    qed
    then show ?thesis using F [OF sub] r by (auto simp: handleMessage_def)
  qed
qed

lemma sendMail_ok:
  assumes "h_inv s"
  obtains chk where "packed_checksum (take (MAILBOX_SIZE - CHECKSUM_BYTES) (h_out s)) = Inr chk" "length chk = CHECKSUM_BYTES"
    "h_sendMail s = (Inr (take (MAILBOX_SIZE - CHECKSUM_BYTES) (h_out s) @ chk),
       s\<lparr>h_out := take (MAILBOX_SIZE - CHECKSUM_BYTES) (h_out s) @ chk\<rparr>)"
    "h_inv (s\<lparr>h_out := take (MAILBOX_SIZE - CHECKSUM_BYTES) (h_out s) @ chk\<rparr>)"
proof -
  let ?b = "take (MAILBOX_SIZE - CHECKSUM_BYTES) (h_out s)"
  have len: "length (h_out s) = MAILBOX_SIZE" using assms by (simp add: h_inv_def slots_ok_def)
  then have b: "length ?b \<le> MAILBOX_SIZE" by simp
  define chk where "chk = le_bytes 4 (checksum ?b)"
  have p: "packed_checksum ?b = Inr chk" using packed_checksum_mail [OF b] by (simp add: chk_def)
  have c: "length chk = CHECKSUM_BYTES" by (simp add: chk_def CHECKSUM_BYTES_def)
  have "slot_of (?b @ chk) i = slot_of (h_out s) i" if "i < MESSAGES_PER_MAILBOX" for i
    using slot_bounds [OF that] len by (simp add: slot_of_def slice_def mail_sizes drop_take min_def) linarith
  then have "slots_ok (s\<lparr>h_out := ?b @ chk\<rparr>)" using assms len c by (simp add: h_inv_def slots_ok_def mail_sizes)
  then have "h_inv (s\<lparr>h_out := ?b @ chk\<rparr>)"
    using assms by (simp add: h_inv_def active_ok_def msgs_ok_def active_count_def)
  moreover have "h_sendMail s = (Inr (?b @ chk), s\<lparr>h_out := ?b @ chk\<rparr>)" by (simp add: h_sendMail_def p Let_def)
  ultimately show ?thesis using that p c by blast
qed

lemma sendMail_inv: "h_inv s \<Longrightarrow> h_inv (snd (h_sendMail s))"
  by (erule sendMail_ok) simp

lemma drain_inv:
  assumes "h_inv s" and "h_queue s = msgs"
  shows "\<exists>b s'. drain msgs sendMail s = (Inr b, s') \<and> h_inv s'"
  using assms
proof (induction msgs arbitrary: sendMail s)
  case Nil
  have "h_inv (s\<lparr>h_queue := []\<rparr>)" by (rule h_inv_cong [OF Nil(1)]) auto
  then show ?case by simp
next
  case (Cons msg msgs)
  let ?s = "s\<lparr>h_queue := msgs\<rparr>"
  show ?case
  proof (cases "active_count s < MESSAGES_PER_MAILBOX")
    case True
    have inv: "h_inv ?s" by (rule h_inv_cong [OF Cons.prems(1)]) (use Cons.prems(2) in auto)
    have m: "made msg" using Cons.prems by (auto simp: h_inv_def msgs_ok_def)
    have "active_count ?s < MESSAGES_PER_MAILBOX" using True by (simp add: active_count_def)
    then obtain s1 where s1: "handleMessage msg ?s = (Inr (), s1)" "h_inv s1"
      using handleMessage_inv [OF inv m] by (cases "handleMessage msg ?s") auto
    have "h_queue s1 = msgs" using s1(1) by (auto simp: handleMessage_def split: sum.splits place.splits)
    from Cons.IH [OF s1(2) this, of True] show ?thesis using True s1(1) by simp
  next
    case False
    then show ?thesis using Cons.prems by simp
  qed
qed

text \<open>A round never raises: there is a slot for every message that is taken, and the checksum of a mailbox fits.\<close>

lemma round_inv:
  assumes "h_inv s"
  shows "\<exists>mail s'. h_round out s = (Inr mail, s') \<and> h_inv s' \<and> (\<forall>m. mail = Some m \<longrightarrow> h_out s' = m \<and>
    packed_checksum (take (MAILBOX_SIZE - CHECKSUM_BYTES) m) = Inr (drop (MAILBOX_SIZE - CHECKSUM_BYTES) m))"
proof -
  obtain b s1 where d: "drain (h_queue s) False s = (Inr b, s1)" "h_inv s1" using drain_inv [OF assms refl] by blast
  obtain r s2 where c: "h_checkForMail out s1 = (r, s2)" by (cases "h_checkForMail out s1")
  then have inv: "h_inv s2" using checkForMail_inv [OF d(2), of out] by simp
  show ?thesis
  proof (rule sendMail_ok [OF inv])
    fix chk
    assume "packed_checksum (take (MAILBOX_SIZE - CHECKSUM_BYTES) (h_out s2)) = Inr chk" "h_sendMail s2 = (Inr (take (MAILBOX_SIZE - CHECKSUM_BYTES) (h_out s2) @ chk),
        s2\<lparr>h_out := take (MAILBOX_SIZE - CHECKSUM_BYTES) (h_out s2) @ chk\<rparr>)"
      "h_inv (s2\<lparr>h_out := take (MAILBOX_SIZE - CHECKSUM_BYTES) (h_out s2) @ chk\<rparr>)"
    moreover have "length (h_out s2) = MAILBOX_SIZE" using inv by (simp add: h_inv_def slots_ok_def)
    ultimately show ?thesis using d(1) c inv assms by (cases "b \<or> r = Inr True") (auto simp: h_round_def mail_sizes)
  qed
qed

subsection \<open>Reachable states\<close>

text \<open>
  What happens to the monitor: it is created, the mailbox is read for the first time, a client sends a message, and
  the rounds of the thread, each with what \<^verbatim>\<open>dd\<close> read or its failure.
\<close>

inductive h_reach :: "'c hsm \<Rightarrow> bool" where
  create: "h_reach (snd (new_hsm out))"
| init: "h_reach s \<Longrightarrow> h_reach (snd (h_initMailbox out s))"
| send: "h_reach s \<Longrightarrow> h_reach (snd (sendExtendMsg poolID volumeData newSize callback s))"
| round: "h_reach s \<Longrightarrow> h_reach (snd (h_round out s))"

lemma init_inv: "h_inv s \<Longrightarrow> h_inv (snd (h_initMailbox out s))"
  by (rule h_inv_cong [of s]) (auto simp: h_initMailbox_def split: option.splits)

lemma send_inv:
  assumes "h_inv s"
  shows "h_inv (snd (sendExtendMsg poolID volumeData newSize callback s))"
proof (cases "new_message volumeData newSize callback")
  case (Inr msg)
  then have "made msg" by (auto simp: made_def)
  then have "h_inv (s\<lparr>h_queue := h_queue s @ [msg]\<rparr>)"
    using assms by (auto simp: h_inv_def slots_ok_def active_ok_def msgs_ok_def active_count_def)
  then show ?thesis using assms Inr by (simp add: sendExtendMsg_def)
qed (use assms in \<open>simp add: sendExtendMsg_def\<close>)

lemma new_hsm_inv: "h_inv (snd (new_hsm out) :: 'c hsm)"
proof -
  have "slot_of EMPTYMAILBOX i = replicate MESSAGE_SIZE NUL" if "i < MESSAGES_PER_MAILBOX" for i
    using slot_bounds [OF that] by (simp add: slot_of_def slice_def EMPTYMAILBOX_def min_def mail_sizes)
  then have "h_inv (empty_hsm :: 'c hsm)"
    by (auto simp: empty_hsm_def h_inv_def slots_ok_def active_ok_def msgs_ok_def active_count_def slot_content_def
        EMPTYMAILBOX_def)
  then have "h_inv (snd (h_initMailbox out (empty_hsm :: 'c hsm)))" by (rule init_inv)
  then have "h_inv (snd (h_sendMail (snd (h_initMailbox out (empty_hsm :: 'c hsm)))))" by (rule sendMail_inv)
  moreover have "new_hsm out = h_sendMail (snd (h_initMailbox out (empty_hsm :: 'c hsm)))"
    by (simp add: new_hsm_def obind_def h_initMailbox_def)
  ultimately show ?thesis by simp
qed

lemma h_reach_inv: "h_reach s \<Longrightarrow> h_inv s"
proof (induction rule: h_reach.induct)
  case (round s out)
  then show ?case using round_inv [of s out] by auto
qed (use new_hsm_inv init_inv send_inv in blast)+

text \<open>
  C38. In every reachable state of the monitor of a host, whatever was sent, received or failed to be read: the outgoing
  mail has the size of a mailbox; each of its slots has exactly the bytes of the active message, of a message being
  cleaned, or zeros when it is free; the flags of the slots, the active messages and the counter agree; and no request
  is in two slots. The next round returns: it never finds the slots full or a checksum that does not fit.
\<close>

theorem mailbox_invariant:
  assumes "h_reach s"
  shows "length (h_out s) = MAILBOX_SIZE \<and>
    (\<forall>i < MESSAGES_PER_MAILBOX. slot_of (h_out s) i = slot_content (h_active s i)) \<and>
    (\<forall>i. h_active s i \<noteq> None \<longleftrightarrow> i < MESSAGES_PER_MAILBOX \<and> h_used s ! i) \<and>
    h_counter s = int (active_count s) \<and>
    (\<forall>i j m m'. h_active s i = Some (Waiting m) \<longrightarrow> h_active s j = Some (Waiting m') \<longrightarrow> m_payload m = m_payload m' \<longrightarrow> i = j) \<and>
    (\<exists>mail. fst (h_round out s) = Inr mail)"
proof -
  have inv: "slots_ok s" "active_ok s" "msgs_ok s" using h_reach_inv [OF assms] by (simp_all add: h_inv_def)
  obtain mail s' where "h_round out s = (Inr mail, s')" using round_inv [OF h_reach_inv [OF assms], of out] by blast
  then have "\<exists>mail. fst (h_round out s) = Inr mail" by simp
  then show ?thesis
    using inv(1) inv(2) conjunct2 [OF conjunct2 [OF inv(3) [unfolded msgs_ok_def]]]
    unfolding slots_ok_def active_ok_def by simp
qed

definition sample_vol_data :: volume_data where
  "sample_vol_data =
     [''poolID'' \<mapsto> ''p'', ''domainID'' \<mapsto> ''01234567-89ab-cdef-0123-456789abcdef'',
      ''volumeID'' \<mapsto> ''fedcba98-7654-3210-0000-000000000001'']"

definition sample_hsm :: "unit hsm" where
  "sample_hsm = snd (h_round None (snd (sendExtendMsg ''p'' sample_vol_data 2048 None (snd (new_hsm None)))))"

lemma sample_reach: "h_reach sample_hsm"
  unfolding sample_hsm_def by (intro h_reach.intros)

theorem mailbox_invariant_witness:
  "h_reach sample_hsm \<and> length (h_out sample_hsm) = 4096 \<and> (\<exists>mail. fst (h_round (Some []) sample_hsm) = Inr mail)"
  using mailbox_invariant [OF sample_reach] sample_reach by (simp add: MAILBOX_SIZE_def)

end
