(* ===== verification/Mailbox_Delivery.thy ===== *)
theory Mailbox_Delivery
  imports Mailbox_Host
begin

text \<open>
  The way of a request: the manager queues exactly the new requests of valid mailboxes, and the mail that a host sends
  is such a mailbox.
\<close>

subsection \<open>What the manager queues\<close>

definition mbox :: "nat \<Rightarrow> bytes \<Rightarrow> bytes" where
  "mbox host mail = slice (host * MAILBOX_SIZE) (host * MAILBOX_SIZE + MAILBOX_SIZE) mail"

text \<open>
  The specification: the slots of a host, in order, whose message is not empty, does not clean the slot, differs from
  the message that was read before and has a known type, when the mailbox is valid.
\<close>

definition is_request :: "(nat \<Rightarrow> bool) \<Rightarrow> bytes list \<Rightarrow> nat \<Rightarrow> bytes \<Rightarrow> bytes \<Rightarrow> nat \<Rightarrow> bool" where
  "is_request accept types host new old i \<longleftrightarrow>
     slice 0 1 (slot_of new i) \<noteq> [NUL] \<and> slot_of new i \<noteq> CLEAN_MESSAGE \<and> slot_of new i \<noteq> slot_of old i \<and>
     slice 1 5 (slot_of new i) \<in> set types \<and> accept (host * SLOTS_PER_MAILBOX + i)"

definition slot_requests :: "(nat \<Rightarrow> bool) \<Rightarrow> bytes list \<Rightarrow> nat \<Rightarrow> bytes \<Rightarrow> bytes \<Rightarrow> nat list \<Rightarrow> (nat \<times> bytes \<times> bytes) list" where
  "slot_requests accept types host new old is =
     map (\<lambda>i. (host * SLOTS_PER_MAILBOX + i, slice 1 5 (slot_of new i), slot_of new i))
       (filter (is_request accept types host new old) is)"

definition host_requests :: "(nat \<Rightarrow> bool) \<Rightarrow> bytes list \<Rightarrow> nat \<Rightarrow> bytes \<Rightarrow> bytes \<Rightarrow> (nat \<times> bytes \<times> bytes) list" where
  "host_requests accept types host new old =
     (if validateMailbox new = Inr True then slot_requests accept types host new old [0..<MESSAGES_PER_MAILBOX] else [])"

lemma slot_in_mail:
  assumes "i < SLOTS_PER_MAILBOX" and "(host + 1) * MAILBOX_SIZE \<le> length mail" and "b \<le> MESSAGE_SIZE"
  shows "slice ((host * SLOTS_PER_MAILBOX + i) * MESSAGE_SIZE + a) ((host * SLOTS_PER_MAILBOX + i) * MESSAGE_SIZE + b) mail =
    slice a b (slot_of (mbox host mail) i)"
proof -
  let ?o = "(host * SLOTS_PER_MAILBOX + i) * MESSAGE_SIZE"
  have o: "?o = host * MAILBOX_SIZE + i * MESSAGE_SIZE" by (simp add: mail_sizes)
  have "i * MESSAGE_SIZE + MESSAGE_SIZE \<le> MAILBOX_SIZE" using assms(1) by (simp add: mail_sizes)
  then have "slot_of (mbox host mail) i = slice ?o (?o + MESSAGE_SIZE) mail"
    unfolding slot_of_def mbox_def o by (subst slice_slice) (simp_all add: add.assoc)
  then show ?thesis using assms(3) by (simp add: slice_slice)
qed

lemma slot_whole: "length mb = MAILBOX_SIZE \<Longrightarrow> i < SLOTS_PER_MAILBOX \<Longrightarrow> length (slot_of mb i) = MESSAGE_SIZE"
  unfolding slot_of_def by (subst length_slice) (simp_all add: mail_sizes)

lemma length_mbox: "(host + 1) * MAILBOX_SIZE \<le> length mail \<Longrightarrow> length (mbox host mail) = MAILBOX_SIZE"
  unfolding mbox_def by (subst length_slice) simp_all

definition same_but :: "spm \<Rightarrow> spm \<Rightarrow> bool" where
  "same_but s s' \<longleftrightarrow> p_types s' = p_types s \<and> p_in s' = p_in s \<and> p_numHosts s' = p_numHosts s"

lemma handle_mail_spec:
  assumes "i < MESSAGES_PER_MAILBOX" and "(host + 1) * MAILBOX_SIZE \<le> length mail" and "(host + 1) * MAILBOX_SIZE \<le> length (p_in s)"
    and "slice 0 1 (slot_of (mbox host mail) i) \<noteq> [NUL]"
    and "handle_mail accept mail (host * SLOTS_PER_MAILBOX + i) s = (b, s')"
  shows "p_tasks s' = p_tasks s @ slot_requests accept (p_types s) host (mbox host mail) (mbox host (p_in s)) [i]" "same_but s s'"
proof -
  let ?id = "host * SLOTS_PER_MAILBOX + i"
  have i: "i < SLOTS_PER_MAILBOX" using assms(1) by (simp add: mail_sizes)
  have msg: "slice (?id * MESSAGE_SIZE) (?id * MESSAGE_SIZE + MESSAGE_SIZE) m = slot_of (mbox host m) i"
    if "(host + 1) * MAILBOX_SIZE \<le> length m" for m
    using slot_in_mail [OF i that, of MESSAGE_SIZE 0] slot_whole [OF length_mbox [OF that] i] by (simp add: slice_def)
  have mtype: "slice (?id * MESSAGE_SIZE + 1) (?id * MESSAGE_SIZE + 5) mail = slice 1 5 (slot_of (mbox host mail) i)"
    by (rule slot_in_mail [OF i assms(2)]) (simp add: MESSAGE_SIZE_def)
  show "p_tasks s' = p_tasks s @ slot_requests accept (p_types s) host (mbox host mail) (mbox host (p_in s)) [i]" "same_but s s'"
    using assms(4,5) unfolding handle_mail_def Let_def msg [OF assms(2)] msg [OF assms(3)] mtype
    by (auto simp: slot_requests_def is_request_def same_but_def split: if_splits)
qed

lemma slot_requests_Cons:
  "slot_requests accept types host new old (i # is) =
     slot_requests accept types host new old [i] @ slot_requests accept types host new old is"
  by (simp add: slot_requests_def)

lemma same_but_trans: "same_but s t \<Longrightarrow> same_but t u \<Longrightarrow> same_but s u"
  by (simp add: same_but_def)

lemma same_but_refl [simp]: "same_but s s"
  by (simp add: same_but_def)

text \<open>The slots of a mailbox that is valid, and of one that is not.\<close>

lemma slot_first:
  assumes "i < MESSAGES_PER_MAILBOX" and "(host + 1) * MAILBOX_SIZE \<le> length mail"
  shows "slice ((host * SLOTS_PER_MAILBOX + i) * MESSAGE_SIZE) ((host * SLOTS_PER_MAILBOX + i) * MESSAGE_SIZE + 1) mail =
    slice 0 1 (slot_of (mbox host mail) i)"
  using slot_in_mail [of i host mail 1 0] assms by (simp add: mail_sizes)

lemma host_slots_Cons:
  assumes "i < MESSAGES_PER_MAILBOX" and "(host + 1) * MAILBOX_SIZE \<le> length mail"
  shows "host_slots accept host mail (i # is) validated send s =
    (if slice 0 1 (slot_of (mbox host mail) i) = [NUL] then host_slots accept host mail is validated send s
     else case (if validated then Inr True else validateMailbox (mbox host mail)) of
            Inl e \<Rightarrow> (Inl e, s)
          | Inr False \<Rightarrow>
              (Inr (take (host * MAILBOX_SIZE) mail @ EMPTYMAILBOX @ drop (host * MAILBOX_SIZE + MAILBOX_SIZE) mail, send), s)
          | Inr True \<Rightarrow>
              (case handle_mail accept mail (host * SLOTS_PER_MAILBOX + i) s of
                 (b, s') \<Rightarrow> host_slots accept host mail is True (send \<or> b) s'))"
  by (simp only: host_slots.simps Let_def slot_first [OF assms] mbox_def [symmetric])

lemma host_slots_valid:
  assumes "validated \<or> validateMailbox (mbox host mail) = Inr True" and "set is \<subseteq> {..<MESSAGES_PER_MAILBOX}"
    and "(host + 1) * MAILBOX_SIZE \<le> length mail" and "(host + 1) * MAILBOX_SIZE \<le> length (p_in s)"
  shows "\<exists>send' s'. host_slots accept host mail is validated send s = (Inr (mail, send'), s') \<and> same_but s s' \<and>
    p_tasks s' = p_tasks s @ slot_requests accept (p_types s) host (mbox host mail) (mbox host (p_in s)) is"
  using assms
proof (induction "is" arbitrary: validated send s)
  case Nil
  then show ?case by (simp add: slot_requests_def)
next
  case (Cons i "is")
  have i: "i < MESSAGES_PER_MAILBOX" using Cons.prems(2) by simp
  note step = host_slots_Cons [OF i Cons.prems(3)]
  show ?case
  proof (cases "slice 0 1 (slot_of (mbox host mail) i) = [NUL]")
    case True
    then have "slot_requests accept (p_types s) host (mbox host mail) (mbox host (p_in s)) [i] = []"
      by (simp add: slot_requests_def is_request_def)
    then show ?thesis
      using Cons.IH [of validated s send] Cons.prems True
      by (simp add: step slot_requests_Cons [of _ _ _ _ _ i "is"] del: host_slots.simps)
  next
    case False
    obtain b s1 where h: "handle_mail accept mail (host * SLOTS_PER_MAILBOX + i) s = (b, s1)"
      by (cases "handle_mail accept mail (host * SLOTS_PER_MAILBOX + i) s")
    note H = handle_mail_spec [OF i Cons.prems(3,4) False h]
    have in1: "p_in s1 = p_in s" "p_types s1 = p_types s" using H(2) by (simp_all add: same_but_def)
    obtain send' s' where rest: "host_slots accept host mail is True (send \<or> b) s1 = (Inr (mail, send'), s')" "same_but s1 s'"
      "p_tasks s' = p_tasks s1 @ slot_requests accept (p_types s) host (mbox host mail) (mbox host (p_in s)) is"
      using Cons.IH [of True s1 "send \<or> b"] Cons.prems in1 by auto
    have "(if validated then Inr True else validateMailbox (mbox host mail)) = Inr True" using Cons.prems(1) by auto
    then have "host_slots accept host mail (i # is) validated send s = (Inr (mail, send'), s')"
      using False rest(1) h by (simp add: step del: host_slots.simps)
    then show ?thesis using rest H same_but_trans [OF H(2) rest(2)] by (simp add: slot_requests_Cons [of _ _ _ _ _ i "is"])
  qed
qed

lemma host_slots_invalid:
  assumes "validateMailbox (mbox host mail) = Inr False" and "set is \<subseteq> {..<MESSAGES_PER_MAILBOX}"
    and "(host + 1) * MAILBOX_SIZE \<le> length mail"
  shows "\<exists>mail'. host_slots accept host mail is False send s = (Inr (mail', send), s) \<and> length mail' = length mail \<and>
    (\<forall>h. h \<noteq> host \<longrightarrow> mbox h mail' = mbox h mail)"
  using assms
proof (induction "is")
  case (Cons i "is")
  have i: "i < MESSAGES_PER_MAILBOX" using Cons.prems(2) by simp
  let ?mail = "take (host * MAILBOX_SIZE) mail @ EMPTYMAILBOX @ drop (host * MAILBOX_SIZE + MAILBOX_SIZE) mail"
  have b: "host * MAILBOX_SIZE + length EMPTYMAILBOX \<le> length mail" using Cons.prems(3) by (simp add: EMPTYMAILBOX_def)
  have "?mail = overwrite mail (host * MAILBOX_SIZE) EMPTYMAILBOX" by (simp add: overwrite_def EMPTYMAILBOX_def)
  moreover have "h * MAILBOX_SIZE + MAILBOX_SIZE \<le> host * MAILBOX_SIZE \<or> host * MAILBOX_SIZE + length EMPTYMAILBOX \<le> h * MAILBOX_SIZE"
    if "h \<noteq> host" for h
    using that by (cases h host rule: linorder_cases) (auto simp: MAILBOX_SIZE_def EMPTYMAILBOX_def)
  ultimately have M: "length ?mail = length mail" "\<forall>h. h \<noteq> host \<longrightarrow> mbox h ?mail = mbox h mail"
    using slice_other [OF b] b by (simp_all add: mbox_def)
  show ?case
  proof (cases "slice 0 1 (slot_of (mbox host mail) i) = [NUL]")
    case True
    then show ?thesis using Cons by (simp add: host_slots_Cons [OF i Cons.prems(3)] del: host_slots.simps)
  next
    case False
    then have "host_slots accept host mail (i # is) False send s = (Inr (?mail, send), s)"
      using Cons.prems(1) by (simp add: host_slots_Cons [OF i Cons.prems(3)] del: host_slots.simps)
    then show ?thesis using M by blast
  qed
qed simp

lemma validate_total:
  assumes "length mb = MAILBOX_SIZE"
  shows "validateMailbox mb = Inr True \<or> validateMailbox mb = Inr False"
  using validateMailbox_spec [OF assms] by auto

lemma handle_hosts_spec:
  assumes "distinct hosts" and "\<forall>h \<in> set hosts. (h + 1) * MAILBOX_SIZE \<le> length mail" and "length (p_in s) = length mail"
  shows "\<exists>mail' send' s'. handle_hosts accept mail hosts send s = (Inr (mail', send'), s') \<and> same_but s s' \<and>
    p_tasks s' = p_tasks s @ concat (map (\<lambda>h. host_requests accept (p_types s) h (mbox h mail) (mbox h (p_in s))) hosts)"
  using assms
proof (induction hosts arbitrary: mail send s)
  case (Cons host hosts)
  have b: "(host + 1) * MAILBOX_SIZE \<le> length mail" "(host + 1) * MAILBOX_SIZE \<le> length (p_in s)" using Cons.prems by auto
  have sub: "set [0..<MESSAGES_PER_MAILBOX] \<subseteq> {..<MESSAGES_PER_MAILBOX}" by auto
  obtain mail1 send1 s1 where one: "host_slots accept host mail [0..<MESSAGES_PER_MAILBOX] False send s = (Inr (mail1, send1), s1)"
    "same_but s s1" "length mail1 = length mail" "\<forall>h. h \<noteq> host \<longrightarrow> mbox h mail1 = mbox h mail"
    "p_tasks s1 = p_tasks s @ host_requests accept (p_types s) host (mbox host mail) (mbox host (p_in s))"
    using validate_total [OF length_mbox [OF b(1)]] host_slots_valid [OF _ sub b, of False accept send]
      host_slots_invalid [OF _ sub b(1), of accept send s] by (elim disjE) (fastforce simp: host_requests_def)+
  have s1: "p_in s1 = p_in s" "p_types s1 = p_types s" using one(2) by (simp_all add: same_but_def)
  have "map (\<lambda>h. host_requests accept (p_types s) h (mbox h mail1) (mbox h (p_in s))) hosts =
      map (\<lambda>h. host_requests accept (p_types s) h (mbox h mail) (mbox h (p_in s))) hosts"
    using Cons.prems(1) one(4) by (intro map_cong) auto
  moreover obtain mail' send' s' where "handle_hosts accept mail1 hosts send1 s1 = (Inr (mail', send'), s')" "same_but s1 s'"
    "p_tasks s' = p_tasks s1 @ concat (map (\<lambda>h. host_requests accept (p_types s) h (mbox h mail1) (mbox h (p_in s))) hosts)"
    using Cons.IH [of mail1 s1 send1] Cons.prems one(3) s1 by auto
  ultimately show ?case using one(1,5) same_but_trans [OF one(2)] by (simp del: map_eq_conv)
qed simp

text \<open>A round of the manager queues exactly the new requests, host by host and slot by slot.\<close>

lemma handleRequests_spec:
  assumes "length mail = outMailLen p" and "length (p_in p) = outMailLen p"
  shows "\<exists>send p'. handleRequests accept mail p = (Inr send, p') \<and>
    p_tasks p' = p_tasks p @ concat (map (\<lambda>h. host_requests accept (p_types p) h (mbox h mail) (mbox h (p_in p))) [0..<p_numHosts p])"
proof -
  have "(h + 1) * MAILBOX_SIZE \<le> length mail" if "h < p_numHosts p" for h
    using mult_le_mono1 [of "h + 1" "p_numHosts p" MAILBOX_SIZE] that assms(1) by (simp add: outMailLen_def mult.commute)
  then have "\<forall>h \<in> set [0..<p_numHosts p]. (h + 1) * MAILBOX_SIZE \<le> length mail" by simp
  from handle_hosts_spec [OF _ this, of p accept False] show ?thesis
    using assms by (auto simp: handleRequests_def)
qed

lemma filter_one_host:
  assumes "distinct xs" and "x \<in> set xs" and "\<And>y r. y \<in> set xs \<Longrightarrow> r \<in> set (f y) \<Longrightarrow> P r \<Longrightarrow> y = x"
  shows "filter P (concat (map f xs)) = filter P (f x)"
  using assms
proof (induction xs)
  case (Cons y xs)
  have none: "filter P (f z) = []" if "z \<in> set (y # xs)" "z \<noteq> x" for z
    using Cons.prems(3) [OF that(1)] that(2) by (auto simp: filter_empty_conv)
  show ?case
  proof (cases "y = x")
    case True
    then have "\<forall>z \<in> set xs. filter P (f z) = []" using none Cons.prems(1) by auto
    then have "filter P (concat (map f xs)) = []" by (auto simp: filter_empty_conv)
    then show ?thesis using True by simp
  next
    case False
    then show ?thesis using Cons none [of y] by auto
  qed
qed simp

lemma request_ids:
  assumes "(k, t, d) \<in> set (host_requests accept types h new old)"
  shows "k div SLOTS_PER_MAILBOX = h"
  using assms by (auto simp: host_requests_def slot_requests_def mail_sizes split: if_splits)

subsection \<open>From the host to the manager\<close>

lemma sent_slot:
  assumes "h_inv s'" and "h_active s' i = Some (Waiting m)" and "h_out s' = mail"
  shows "i < MESSAGES_PER_MAILBOX" "slot_of mail i = m_payload m" "made m" "length mail = MAILBOX_SIZE"
proof -
  show i: "i < MESSAGES_PER_MAILBOX" and "length mail = MAILBOX_SIZE"
    using assms unfolding h_inv_def active_ok_def slots_ok_def by (blast, simp)
  show "slot_of mail i = m_payload m"
    using assms i by (auto simp: h_inv_def slots_ok_def slot_content_def active_bytes_def)
  show "made m" using assms by (auto simp: h_inv_def msgs_ok_def)
qed

lemma sent_mail_valid:
  assumes "h_inv s'" and "h_active s' i = Some (Waiting m)" and "h_out s' = mail"
    and "packed_checksum (take (MAILBOX_SIZE - CHECKSUM_BYTES) mail) = Inr (drop (MAILBOX_SIZE - CHECKSUM_BYTES) mail)"
  shows "validateMailbox mail = Inr True"
proof -
  note S = sent_slot [OF assms(1-3)]
  let ?j = "i * MESSAGE_SIZE"
  have j: "?j < MAILBOX_SIZE - CHECKSUM_BYTES" using slot_bounds [OF S(1)] by (simp add: mail_sizes)
  have "slice 0 1 (slot_of mail i) = ''1''" using made_payload(2) [OF S(3)] S(2) by simp
  moreover have "drop ?j mail = mail ! ?j # drop (Suc ?j) mail"
    using j S(4) by (intro Cons_nth_drop_Suc [symmetric]) simp
  ultimately have "mail ! ?j = CHR ''1''" by (simp add: slot_of_def slice_def MESSAGE_SIZE_def)
  then have "CHR ''1'' \<in> set (take (MAILBOX_SIZE - CHECKSUM_BYTES) mail)" using j S(4) by (force simp: in_set_conv_nth)
  then show ?thesis using validateMailbox_spec [OF S(4)] assms(4) by auto
qed

lemma one_request:
  assumes "validateMailbox mb = Inr True" and "i < MESSAGES_PER_MAILBOX" and "is_request accept types host mb old i"
  shows "filter (\<lambda>(k, _, _). k = host * SLOTS_PER_MAILBOX + i) (host_requests accept types host mb old) =
    [(host * SLOTS_PER_MAILBOX + i, slice 1 5 (slot_of mb i), slot_of mb i)]"
proof -
  have "filter (\<lambda>j. j = i \<and> is_request accept types host mb old j) [0..<MESSAGES_PER_MAILBOX] = [i]"
  proof -
    have "filter (\<lambda>j. j = i \<and> is_request accept types host mb old j) xs = filter (\<lambda>j. j = i) xs" for xs
      using assms(3) by (intro filter_cong) auto
    moreover have "filter (\<lambda>j. j = i) [0..<n] = (if i < n then [i] else [])" for n by (induction n) auto
    ultimately show ?thesis using assms(2) by simp
  qed
  then show ?thesis using assms(1)
    by (simp add: host_requests_def slot_requests_def filter_map comp_def filter_filter conj_commute)
qed

text \<open>
  C39. A request reaches the manager. When a round of a host sends mail and a message is active in a slot, a manager that
  reads this mail in the mailbox of the host validates it and, when it has not read the message before, queues exactly
  one request for the slot, with the bytes of the message, whatever is in the other mailboxes; processing these bytes reads
  the domain, the volume and the size that the client of the host gave.
\<close>

theorem request_delivered:
  assumes "h_reach s" and "h_round out s = (Inr (Some mail), s')" and "h_active s' i = Some (Waiting m)"
    and "length inmail = outMailLen p" and "length (p_in p) = outMailLen p" and "host < p_numHosts p"
    and "mbox host inmail = mail" and "EXTEND_CODE \<in> set (p_types p)" and "accept (host * SLOTS_PER_MAILBOX + i)"
    and "slot_of (mbox host (p_in p)) i \<noteq> m_payload m"
  shows "(\<exists>send p' new. handleRequests accept inmail p = (Inr send, p') \<and> p_tasks p' = p_tasks p @ new \<and>
      filter (\<lambda>(k, _, _). k = host * SLOTS_PER_MAILBOX + i) new = [(host * SLOTS_PER_MAILBOX + i, EXTEND_CODE, m_payload m)]) \<and>
    (\<exists>vd n cb dom vol. new_message vd n cb = Inr m \<and> vd ''domainID'' = Some dom \<and> vd ''volumeID'' = Some vol \<and>
      read_request pool (m_payload m) = Inr (dom, vol, n))"
proof -
  have R: "h_inv s'" "h_out s' = mail"
    "packed_checksum (take (MAILBOX_SIZE - CHECKSUM_BYTES) mail) = Inr (drop (MAILBOX_SIZE - CHECKSUM_BYTES) mail)"
    using round_inv [OF h_reach_inv [OF assms(1)], of out] assms(2) by auto
  note S = sent_slot [OF R(1) assms(3) R(2)]
  have valid: "validateMailbox (mbox host inmail) = Inr True" using sent_mail_valid [OF R(1) assms(3) R(2,3)] assms(7) by simp
  obtain vd n cb where made: "new_message vd n cb = Inr m" using S(3) by (auto simp: made_def)
  note M = read_new_message [OF made]
  have "slice 0 1 CLEAN_MESSAGE = [CHR 0x01]" by code_simp
  then have "\<not> CLEAN_MESSAGE = m_payload m" using M(3) by auto
  then have req: "is_request accept (p_types p) host (mbox host inmail) (mbox host (p_in p)) i"
    using assms(7-10) S(2) M(3,4) by (auto simp: is_request_def)
  let ?f = "\<lambda>h. host_requests accept (p_types p) h (mbox h inmail) (mbox h (p_in p))"
  let ?P = "\<lambda>(k, _, _). k = host * SLOTS_PER_MAILBOX + i"
  obtain send p' where H: "handleRequests accept inmail p = (Inr send, p')" "p_tasks p' = p_tasks p @ concat (map ?f [0..<p_numHosts p])"
    using handleRequests_spec [OF assms(4,5)] by blast
  have "filter ?P (concat (map ?f [0..<p_numHosts p])) = filter ?P (?f host)"
    using assms(6) S(1) by (intro filter_one_host) (auto dest!: request_ids simp: mail_sizes)
  also have "\<dots> = [(host * SLOTS_PER_MAILBOX + i, EXTEND_CODE, m_payload m)]"
    using one_request [OF valid S(1) req] assms(7) S(2) M(4) by simp
  finally have "\<exists>send p' new. handleRequests accept inmail p = (Inr send, p') \<and> p_tasks p' = p_tasks p @ new \<and>
      filter ?P new = [(host * SLOTS_PER_MAILBOX + i, EXTEND_CODE, m_payload m)]"
    using H by blast
  then show ?thesis using made M(1) [of pool] by blast
qed

subsection \<open>A sample\<close>

lemma new_message_ok:
  assumes "vd ''poolID'' = Some pool" and "vd ''domainID'' = Some d" and "vd ''volumeID'' = Some v"
    and "uuid_form d" and "uuid_form v" and "0 \<le> n" and "n \<le> VOLUME_MAX_SIZE"
  shows "\<exists>m. new_message vd n cb = Inr m \<and> m_pool m = pool \<and> m_callback m = cb \<and> m_volumeData m = vd"
  using assms unpack_packUuid [OF assms(4)] unpack_packUuid [OF assms(5)] by (auto simp: new_message_def validateUUID_def)

lemma find_place_free:
  "\<forall>j \<in> set is. \<not> h_used s ! j \<Longrightarrow> find_place p s is (Some i) = Inr (Free i)"
  "\<forall>j \<in> set (i # is). \<not> h_used s ! j \<Longrightarrow> find_place p s (i # is) None = Inr (Free i)"
proof -
  show one: "find_place p s is (Some i) = Inr (Free i)" if "\<forall>j \<in> set is. \<not> h_used s ! j" for "is"
    using that by (induction "is") auto
  show "find_place p s (i # is) None = Inr (Free i)" if "\<forall>j \<in> set (i # is). \<not> h_used s ! j"
    using that one by simp
qed

lemma first_message:
  assumes "h_queue s = [m]" and "h_active s = Map.empty" and "h_used s = replicate MESSAGES_PER_MAILBOX False" and "h_inv s"
  shows "\<exists>mail s'. h_round None s = (Inr (Some mail), s') \<and> h_active s' = [0 \<mapsto> Waiting m] \<and> h_in s' = h_in s"
proof -
  have slots: "[0..<MESSAGES_PER_MAILBOX] = 0 # [1..<MESSAGES_PER_MAILBOX]" by (subst upt_conv_Cons) (simp_all add: mail_sizes)
  let ?t = "s\<lparr>h_queue := []\<rparr>"
  have place: "find_place (m_payload m) ?t [0..<MESSAGES_PER_MAILBOX] None = Inr (Free 0)"
    unfolding slots by (rule find_place_free) (auto simp: assms(3) mail_sizes)
  have "active_count s < MESSAGES_PER_MAILBOX" by (simp add: active_count_def assms(2) mail_sizes)
  then obtain s1 where d: "drain (h_queue s) False s = (Inr True, s1)" "h_active s1 = [0 \<mapsto> Waiting m]" "h_in s1 = h_in s"
    using place by (simp add: assms(1,2) handleMessage_def)
  have "h_inv s1" using drain_inv [OF assms(4) refl, of False] d(1) by simp
  then show ?thesis by (rule sendMail_ok) (use d in \<open>auto simp: h_round_def h_checkForMail_def\<close>)
qed

lemma new_hsm_fields:
  "h_queue (snd (new_hsm out)) = []" "h_active (snd (new_hsm out)) = Map.empty"
  "h_used (snd (new_hsm out)) = replicate MESSAGES_PER_MAILBOX False" "h_in (snd (new_hsm None)) = EMPTYMAILBOX"
  by (simp_all add: new_hsm_def obind_def h_initMailbox_def h_sendMail_def empty_hsm_def Let_def split: option.split sum.split)

lemma sample_round:
  "\<exists>m mail s'. h_round None (snd (sendExtendMsg ''p'' sample_vol_data 2048 (Some ()) (snd (new_hsm None)))) = (Inr (Some mail), s') \<and>
     h_active s' = [0 \<mapsto> Waiting m] \<and> h_in s' = EMPTYMAILBOX \<and> m_callback m = Some () \<and> m_volumeData m = sample_vol_data"
proof -
  let ?s = "snd (new_hsm None) :: unit hsm"
  let ?t = "snd (sendExtendMsg ''p'' sample_vol_data 2048 (Some ()) ?s)"
  have "uuid_form ''01234567-89ab-cdef-0123-456789abcdef''" "uuid_form ''fedcba98-7654-3210-0000-000000000001''" by code_simp+
  then obtain m where m: "new_message sample_vol_data 2048 (Some ()) = Inr m" "m_pool m = ''p''"
      "m_callback m = Some ()" "m_volumeData m = sample_vol_data"
    using new_message_ok [of sample_vol_data "''p''" _ _ 2048 "Some ()"] by (auto simp: sample_vol_data_def VOLUME_MAX_SIZE_def)
  have "h_inv ?t" by (intro send_inv new_hsm_inv)
  moreover have "h_queue ?t = [m]" "h_active ?t = Map.empty" "h_used ?t = replicate MESSAGES_PER_MAILBOX False"
    using m by (simp_all add: sendExtendMsg_def new_hsm_fields)
  moreover have "h_in ?t = EMPTYMAILBOX" using m by (simp add: sendExtendMsg_def new_hsm_fields)
  ultimately show ?thesis using first_message [of ?t m] m(3,4) by auto
qed

definition sample_spm :: spm where
  "sample_spm = registerMessageType EXTEND_CODE (new_spm 1)"

theorem request_delivered_witness:
  "\<exists>mail (m :: unit ext_msg) send p' new. handleRequests (\<lambda>_. True) mail sample_spm = (Inr send, p') \<and>
     p_tasks p' = p_tasks sample_spm @ new \<and> filter (\<lambda>(k, _, _). k = 0) new = [(0, EXTEND_CODE, m_payload m)]"
proof -
  let ?s = "snd (sendExtendMsg ''p'' sample_vol_data 2048 (Some ()) (snd (new_hsm None)))"
  obtain m mail s' where R: "h_round None ?s = (Inr (Some mail), s')" "h_active s' 0 = Some (Waiting m)"
    using sample_round by force
  have reach: "h_reach ?s" by (intro h_reach.intros)
  have "h_inv s'" "h_out s' = mail" using round_inv [OF h_reach_inv [OF reach], of None] R(1) by auto
  note S = sent_slot [OF this(1) R(2) this(2)]
  have len: "length mail = outMailLen sample_spm" "length (p_in sample_spm) = outMailLen sample_spm" "mbox 0 mail = mail"
    using S(4) by (simp_all add: sample_spm_def new_spm_def outMailLen_def registerMessageType_def mbox_def slice_def Let_def)
  have "slot_of (mbox 0 (p_in sample_spm)) 0 = replicate MESSAGE_SIZE NUL"
    by (simp add: sample_spm_def new_spm_def registerMessageType_def mbox_def slot_of_def slice_def mail_sizes Let_def)
  moreover have "slice 0 1 (replicate MESSAGE_SIZE NUL) = [NUL]" by code_simp
  ultimately have new: "slot_of (mbox 0 (p_in sample_spm)) 0 \<noteq> m_payload m" using made_payload(2) [OF S(3)] by auto
  have "0 < p_numHosts sample_spm" "EXTEND_CODE \<in> set (p_types sample_spm)"
    by (simp_all add: sample_spm_def new_spm_def registerMessageType_def Let_def)
  from request_delivered [OF reach R len(1,2) this(1) len(3) this(2) _ new, of "\<lambda>_. True", THEN conjunct1] show ?thesis
    by simp blast
qed

end
