(* ===== verification/Mailbox_Reply.thy ===== *)
theory Mailbox_Reply
  imports Mailbox_Delivery
begin

text \<open>
  The way of a reply: the manager processes a request and writes the reply into the slot of the request, and the host
  that reads it hands the callback of the message to the thread pool and asks for the slot to be cleaned.
\<close>

subsection \<open>What the host does with a reply\<close>

definition body_of :: "bytes \<Rightarrow> nat \<Rightarrow> bytes" where
  "body_of mail i = take (MESSAGE_SIZE - 1) (slot_of mail i)"

text \<open>The comparison of the host sees all bytes of a slot but the last.\<close>

lemma is_novel_spec:
  assumes "length new = MAILBOX_SIZE" and "length old = MAILBOX_SIZE" and "i < MESSAGES_PER_MAILBOX"
  shows "is_novel new old (i * MESSAGE_SIZE) = Inr (body_of new i \<noteq> body_of old i)"
proof -
  let ?a = "slot_of new i" and ?b = "slot_of old i"
  have i: "i < SLOTS_PER_MAILBOX" using assms(3) by (simp add: mail_sizes)
  note len = slot_whole [OF assms(1) i] slot_whole [OF assms(2) i]
  have eq: "take n ?a = take n ?b \<longleftrightarrow> (\<forall>k < n. ?a ! k = ?b ! k)" if "n \<le> MESSAGE_SIZE" for n
    using that len by (auto simp: list_eq_iff_nth_eq)
  show ?thesis
  proof (cases "first_diff ?a ?b")
    case None
    then have none: "\<forall>xy \<in> set (zip ?a ?b). fst xy = snd xy" by (auto simp: first_diff_def first_idx_None)
    have "?a ! k = ?b ! k" if "k < MESSAGE_SIZE" for k
      using none nth_mem [of k "zip ?a ?b"] that len by auto
    then have "body_of new i = body_of old i" using eq [of "MESSAGE_SIZE - 1"] by (simp add: body_of_def)
    then show ?thesis using None len by (simp add: is_novel_def slot_of_def)
  next
    case (Some j)
    then have j: "j < MESSAGE_SIZE" "?a ! j \<noteq> ?b ! j" "\<forall>k < j. ?a ! k = ?b ! k" using len by (auto simp: first_diff_def first_idx_Some)
    have body: "body_of new i = body_of old i \<longleftrightarrow> (\<forall>k < MESSAGE_SIZE - 1. ?a ! k = ?b ! k)"
      unfolding body_of_def by (rule eq) simp
    have "body_of new i = body_of old i \<longleftrightarrow> j = MESSAGE_SIZE - 1"
    proof
      assume "body_of new i = body_of old i"
      then have "\<not> j < MESSAGE_SIZE - 1" using body j(2) by blast
      then show "j = MESSAGE_SIZE - 1" using j(1) by simp
    next
      assume "j = MESSAGE_SIZE - 1"
      then show "body_of new i = body_of old i" using body j(3) by blast
    qed
    then show ?thesis using Some by (simp add: is_novel_def slot_of_def)
  qed
qed

text \<open>A slot that is being cleaned raises when it gets another reply; these slots do not.\<close>

definition quiet :: "bytes \<Rightarrow> bytes \<Rightarrow> nat \<Rightarrow> bool" where
  "quiet new old i \<longleftrightarrow> slice 0 1 (slot_of new i) = [NUL] \<or> slot_of new i = CLEAN_MESSAGE \<or> body_of new i = body_of old i"

lemma first_byte: "slice (i * MESSAGE_SIZE) (i * MESSAGE_SIZE + 1) mail = slice 0 1 (slot_of mail i)"
  unfolding slot_of_def by (subst slice_slice) (simp_all add: MESSAGE_SIZE_def)

lemma handle_response_eq:
  assumes "h_inv s" and "i < MESSAGES_PER_MAILBOX" and "length mail = MAILBOX_SIZE" and "length (h_in s) = MAILBOX_SIZE"
  shows "handle_response mail i s =
    (case h_active s i of
       None \<Rightarrow> (Inr False, s)
     | Some a \<Rightarrow>
         if slice 0 1 (slot_of mail i) = [NUL] \<or> body_of mail i = body_of (h_in s) i then (Inr False, s)
         else if slot_of mail i = CLEAN_MESSAGE then
           (Inr True, s\<lparr>h_active := (h_active s)(i := None), h_used := (h_used s)[i := False],
              h_counter := h_counter s - 1, h_out := put_slot (h_out s) i (replicate MESSAGE_SIZE NUL)\<rparr>)
         else
           (let s' = s\<lparr>h_active := (h_active s)(i \<mapsto> Cleaning), h_out := put_slot (h_out s) i CLEAN_MESSAGE\<rparr> in
            case a of
              Cleaning \<Rightarrow> (Inl MAttributeError, s')
            | Waiting msg \<Rightarrow> (Inr True, run_callback msg (slot_of mail i) s')))"
proof -
  have "h_used s ! i \<longleftrightarrow> h_active s i \<noteq> None" using assms(1,2) unfolding h_inv_def active_ok_def by auto
  then show ?thesis
    unfolding handle_response_def Let_def first_byte is_novel_spec [OF assms(3,4,2)] slot_of_def [symmetric]
    by (auto split: option.splits)
qed

definition frame :: "'c hsm \<Rightarrow> nat set \<Rightarrow> 'c hsm \<Rightarrow> bool" where
  "frame s A s' \<longleftrightarrow> h_in s' = h_in s \<and> (\<forall>k. k \<notin> A \<longrightarrow> h_active s' k = h_active s k) \<and> (\<exists>new. h_tasks s' = h_tasks s @ new)"

lemma handle_response_quiet:
  assumes "h_inv s" and "i < MESSAGES_PER_MAILBOX" and "length mail = MAILBOX_SIZE" and "length (h_in s) = MAILBOX_SIZE"
    and "h_active s i = Some Cleaning \<longrightarrow> quiet mail (h_in s) i"
  shows "\<exists>b s'. handle_response mail i s = (Inr b, s') \<and> h_inv s' \<and> frame s {i} s'"
proof -
  have "\<exists>b s'. handle_response mail i s = (Inr b, s') \<and> frame s {i} s'"
    using assms(5) unfolding handle_response_eq [OF assms(1-4)]
    by (auto simp: frame_def quiet_def run_callback_def Let_def split: option.split active.split sum.split)
  then show ?thesis using handle_response_inv [OF assms(1,2), of mail] by fastforce
qed

lemma frame_trans: "frame s A t \<Longrightarrow> frame t B u \<Longrightarrow> frame s (A \<union> B) u"
  by (auto simp: frame_def)

lemma handle_slots_quiet:
  assumes "h_inv s" and "set is \<subseteq> {..<MESSAGES_PER_MAILBOX}" and "distinct is" and "length mail = MAILBOX_SIZE"
    and "length (h_in s) = MAILBOX_SIZE" and "\<forall>j \<in> set is. h_active s j = Some Cleaning \<longrightarrow> quiet mail (h_in s) j"
  shows "\<exists>b s'. handle_slots mail is rc s = (Inr b, s') \<and> (rc \<longrightarrow> b) \<and> h_inv s' \<and> frame s (set is) s'"
  using assms
proof (induction "is" arbitrary: rc s)
  case Nil
  then show ?case by (simp add: frame_def)
next
  case (Cons i "is")
  obtain b t where t: "handle_response mail i s = (Inr b, t)" "h_inv t" "frame s {i} t"
    using handle_response_quiet [of s i mail] Cons.prems by auto
  have "h_in t = h_in s" "\<forall>j \<in> set is. h_active t j = h_active s j" using t(3) Cons.prems(3) by (auto simp: frame_def)
  then obtain b' u where u: "handle_slots mail is (rc \<or> b) t = (Inr b', u)" "rc \<or> b \<longrightarrow> b'" "h_inv u" "frame t (set is) u"
    using Cons.IH [OF t(2), of "rc \<or> b"] Cons.prems by auto
  then show ?case using t(1) frame_trans [OF t(3) u(4)] by auto
qed

lemma handle_slots_append:
  "handle_slots mail (xs @ ys) rc s = obind (handle_slots mail xs rc) (\<lambda>rc'. handle_slots mail ys rc') s"
proof (induction xs arbitrary: rc s)
  case (Cons i xs)
  then show ?case by (simp add: obind_def split: sum.split prod.split)
qed simp

text \<open>Messages from the queue only go into free slots.\<close>

definition grows :: "'c hsm \<Rightarrow> 'c hsm \<Rightarrow> bool" where
  "grows s s' \<longleftrightarrow> h_in s' = h_in s \<and> h_tasks s' = h_tasks s \<and>
     h_active s \<subseteq>\<^sub>m h_active s' \<and> {k. h_active s' k = Some Cleaning} \<subseteq> {k. h_active s k = Some Cleaning}"

lemma grows_refl [simp]: "grows s s"
  by (simp add: grows_def)

lemma grows_trans: "grows s t \<Longrightarrow> grows t u \<Longrightarrow> grows s u"
  unfolding grows_def by (auto intro: map_le_trans)

lemma handleMessage_grows:
  assumes "h_inv s"
  shows "grows s (snd (handleMessage msg s))"
proof -
  obtain r where r: "find_place (m_payload msg) s [0..<MESSAGES_PER_MAILBOX] None = r" by simp
  have "h_active s i = None" if "r = Inr (Free i)" for i
    using find_place_ok [OF assms _ r] that by (auto simp: atLeast0LessThan)
  then show ?thesis using r by (auto simp: handleMessage_def grows_def map_le_def split: sum.split place.split)
qed

lemma drain_grows:
  assumes "h_inv s" and "h_queue s = msgs"
  shows "grows s (snd (drain msgs sendMail s))"
  using assms
proof (induction msgs arbitrary: sendMail s)
  case Nil
  then show ?case by (simp add: grows_def)
next
  case (Cons msg msgs)
  let ?s = "s\<lparr>h_queue := msgs\<rparr>"
  have inv: "h_inv ?s" by (rule h_inv_cong [OF Cons.prems(1)]) (use Cons.prems(2) in auto)
  have made: "made msg" using Cons.prems by (auto simp: h_inv_def msgs_ok_def)
  obtain r s1 where s1: "handleMessage msg ?s = (r, s1)" by (cases "handleMessage msg ?s")
  have "grows ?s s1" using handleMessage_grows [OF inv, of msg] s1 by simp
  then have g: "grows s s1" unfolding grows_def by simp
  have "h_inv s1" using handleMessage_inv(1) [OF inv made] s1 by simp
  moreover have "h_queue s1 = msgs" using s1 by (auto simp: handleMessage_def split: sum.splits place.splits)
  ultimately have "grows s (snd (drain msgs True s1))" using Cons.IH [of s1 True] grows_trans [OF g] by blast
  then show ?case using g s1 by (cases r) simp_all
qed

subsection \<open>What the manager writes\<close>

lemma reply_message:
  fixes m :: "'c ext_msg"
  assumes "made m"
  obtains dom vol n where "read_request spUUID (m_payload m) = Inr (dom, vol, n)"
    "\<And>k. k = n \<or> k = 0 \<Longrightarrow> \<exists>msg :: 'd ext_msg. new_message (request_volume spUUID dom vol) k None = Inr msg \<and>
       slice 0 37 (m_payload msg) = slice 0 37 (m_payload m) \<and> (k = n \<longrightarrow> m_payload msg = m_payload m)"
proof -
  obtain vd n cb where new: "new_message vd n cb = Inr m" using assms by (auto simp: made_def)
  from new_message_payload [OF this] obtain pool dom vol d v where M: "vd ''domainID'' = Some dom" "vd ''volumeID'' = Some vol"
    "0 \<le> n" "n \<le> VOLUME_MAX_SIZE" "uuid_form dom" "uuid_form vol" "packUuid dom = Inr d" "packUuid vol = Inr v"
    "m_payload m = ljust_zero (MESSAGE_VERSION @ EXTEND_CODE @ d @ v @ fmt_x SIZE_CHARS (nat n))" by (metis ext_msg.select_convs(4))
  have len: "length (MESSAGE_VERSION @ EXTEND_CODE @ d @ v) = 37"
    using unpack_packUuid [OF M(5)] unpack_packUuid [OF M(6)] M(7,8) by (simp add: MESSAGE_VERSION_def EXTEND_CODE_def)
  have head: "slice 0 37 (ljust_zero (MESSAGE_VERSION @ EXTEND_CODE @ d @ v @ t)) = MESSAGE_VERSION @ EXTEND_CODE @ d @ v" for t
    using len by (simp add: ljust_zero_def slice_def)
  show ?thesis
  proof (rule that [of dom vol n])
    show "read_request spUUID (m_payload m) = Inr (dom, vol, n)" using read_new_message(1) [OF new, of spUUID] M(1,2) by auto
    show "\<exists>msg :: 'd ext_msg. new_message (request_volume spUUID dom vol) k None = Inr msg \<and>
        slice 0 37 (m_payload msg) = slice 0 37 (m_payload m) \<and> (k = n \<longrightarrow> m_payload msg = m_payload m)" if "k = n \<or> k = 0" for k
    proof -
      have "0 \<le> k" "k \<le> VOLUME_MAX_SIZE" using that M(3,4) by (auto simp: VOLUME_MAX_SIZE_def)
      then show ?thesis using M head by (simp add: new_message_def request_volume_def validateUUID_def)
    qed
  qed
qed

text \<open>Every request that a host made is answered: with its size, or with 0 when the extension failed.\<close>

lemma processRequest_reply:
  fixes m :: "'c ext_msg" and reply :: "nat \<Rightarrow> 'd ext_msg \<Rightarrow> 's \<Rightarrow> 's"
  assumes "made m"
  obtains dom vol n msg where "read_request spUUID (m_payload m) = Inr (dom, vol, n)"
    "processRequest ext reply spUUID msgID (m_payload m) st = (Inr (), reply msgID msg (snd (ext dom vol n st)))"
    "made msg" "slice 0 37 (m_payload msg) = slice 0 37 (m_payload m)"
    "fst (ext dom vol n st) = Inr () \<Longrightarrow> m_payload msg = m_payload m"
proof -
  obtain dom vol n where R: "read_request spUUID (m_payload m) = Inr (dom, vol, n)"
    and new: "\<And>k. k = n \<or> k = 0 \<Longrightarrow> \<exists>msg :: 'd ext_msg. new_message (request_volume spUUID dom vol) k None = Inr msg \<and>
       slice 0 37 (m_payload msg) = slice 0 37 (m_payload m) \<and> (k = n \<longrightarrow> m_payload msg = m_payload m)"
    using reply_message [OF assms] by metis
  obtain r st1 where e: "ext dom vol n st = (r, st1)" by (cases "ext dom vol n st")
  define k where "k = (if r = Inr () then n else 0)"
  have k: "k = n \<or> k = 0" "r = Inr () \<Longrightarrow> k = n" by (simp_all add: k_def)
  obtain msg :: "'d ext_msg" where msg: "new_message (request_volume spUUID dom vol) k None = Inr msg"
    "slice 0 37 (m_payload msg) = slice 0 37 (m_payload m)" "k = n \<longrightarrow> m_payload msg = m_payload m"
    using new [OF k(1)] by blast
  have "processRequest ext reply spUUID msgID (m_payload m) st = (Inr (), reply msgID msg st1)"
    using msg(1) by (cases r) (simp_all add: processRequest_def R e Let_def k_def)
  moreover have "made msg" using msg(1) by (auto simp: made_def)
  ultimately show ?thesis using that [OF R _ _ msg(2)] msg(3) k(2) e by simp
qed

subsection \<open>A reply reaches the host\<close>

lemma head_of_slot:
  assumes "slice 0 37 a = slice 0 37 (m_payload m)" and "made m" and "length a = MESSAGE_SIZE"
  shows "slice 0 1 a \<noteq> [NUL]" "a \<noteq> CLEAN_MESSAGE" "checkReply m a = Inr 1"
proof -
  have "slice 0 1 xs = slice 0 1 (slice 0 37 xs)" for xs :: bytes by (simp add: slice_def)
  then have one: "slice 0 1 a = ''1''" using assms(1) made_payload(2) [OF assms(2)] by metis
  then show "slice 0 1 a \<noteq> [NUL]" by simp
  have "slice 0 1 CLEAN_MESSAGE = [CHR 0x01]" by code_simp
  then show "a \<noteq> CLEAN_MESSAGE" using one by auto
  show "checkReply m a = Inr 1" using assms(1) by (simp add: checkReply_def PACKED_UUID_SIZE_def)
qed

lemma handle_reply:
  assumes "h_inv s" and "h_active s i = Some (Waiting m)" and "length mail = MAILBOX_SIZE" and "length (h_in s) = MAILBOX_SIZE"
    and "slice 0 37 (slot_of mail i) = slice 0 37 (m_payload m)" and "body_of mail i \<noteq> body_of (h_in s) i"
  shows "\<exists>s' new. handle_response mail i s = (Inr True, s') \<and> h_inv s' \<and> frame s {i} s' \<and> h_active s' i = Some Cleaning \<and>
    h_tasks s' = h_tasks s @ new \<and> (\<forall>cb. m_callback m = Some cb \<longrightarrow> (cb, m_volumeData m) \<in> set new)"
proof -
  have i: "i < MESSAGES_PER_MAILBOX" "made m" using assms(1,2) by (auto simp: h_inv_def active_ok_def msgs_ok_def)
  have "length (slot_of mail i) = MESSAGE_SIZE" using slot_whole [OF assms(3)] i(1) by (simp add: mail_sizes)
  note H = head_of_slot [OF assms(5) i(2) this]
  let ?s = "s\<lparr>h_active := (h_active s)(i \<mapsto> Cleaning), h_out := put_slot (h_out s) i CLEAN_MESSAGE\<rparr>"
  have r: "handle_response mail i s = (Inr True, run_callback m (slot_of mail i) ?s)"
    unfolding handle_response_eq [OF assms(1) i(1) assms(3,4)] using assms(2,6) H by (simp add: Let_def)
  have "h_inv (run_callback m (slot_of mail i) ?s)" using handle_response_inv [OF assms(1) i(1), of mail] r by simp
  then show ?thesis using r H(3) by (auto simp: run_callback_def frame_def split: option.split)
qed

lemma reply_read:
  assumes "h_inv s" and "h_active s i = Some (Waiting m)" and "length mail = MAILBOX_SIZE" and "length (h_in s) = MAILBOX_SIZE"
    and "slice 0 37 (slot_of mail i) = slice 0 37 (m_payload m)" and "body_of mail i \<noteq> body_of (h_in s) i"
    and quiet: "\<And>j. h_active s j = Some Cleaning \<Longrightarrow> quiet mail (h_in s) j"
  shows "\<exists>s' new. h_checkForMail (Some mail) s = (Inr True, s') \<and> h_inv s' \<and> h_active s' i = Some Cleaning \<and>
    h_tasks s' = h_tasks s @ new \<and> (\<forall>cb. m_callback m = Some cb \<longrightarrow> (cb, m_volumeData m) \<in> set new)"
proof -
  have i: "i < MESSAGES_PER_MAILBOX" using assms(1,2) by (auto simp: h_inv_def active_ok_def)
  then have split: "[0..<MESSAGES_PER_MAILBOX] = [0..<i] @ i # [Suc i..<MESSAGES_PER_MAILBOX]"
    using upt_add_eq_append [of 0 i "MESSAGES_PER_MAILBOX - i"] by (simp add: upt_conv_Cons)
  have sub: "set [0..<i] \<subseteq> {..<MESSAGES_PER_MAILBOX}" "set [Suc i..<MESSAGES_PER_MAILBOX] \<subseteq> {..<MESSAGES_PER_MAILBOX}"
    using i by auto
  obtain b s1 where 1: "handle_slots mail [0..<i] False s = (Inr b, s1)" "h_inv s1" "frame s {0..<i} s1"
    using handle_slots_quiet [OF assms(1) sub(1) _ assms(3,4), of False] quiet by auto
  have f1: "h_in s1 = h_in s" "h_active s1 k = h_active s k" if "i \<le> k" for k using 1(3) that by (auto simp: frame_def)
  obtain s2 new where 2: "handle_response mail i s1 = (Inr True, s2)" "h_inv s2" "frame s1 {i} s2" "h_active s2 i = Some Cleaning"
    "h_tasks s2 = h_tasks s1 @ new" "\<forall>cb. m_callback m = Some cb \<longrightarrow> (cb, m_volumeData m) \<in> set new"
    using handle_reply [OF 1(2) _ assms(3) _ assms(5)] f1 [of i] assms(2,4,6) by auto
  have "h_in s2 = h_in s" "h_active s2 j = h_active s j" if "j \<in> set [Suc i..<MESSAGES_PER_MAILBOX]" for j
    using 2(3) f1 [of j] that by (auto simp: frame_def)
  then obtain s3 where 3: "handle_slots mail [Suc i..<MESSAGES_PER_MAILBOX] True s2 = (Inr True, s3)" "h_inv s3"
      "frame s2 {Suc i..<MESSAGES_PER_MAILBOX} s3"
    using handle_slots_quiet [OF 2(2) sub(2) _ assms(3), of True] quiet assms(4) 2(3) f1(1) [of i]
    by (auto simp: frame_def)
  have "handle_slots mail [0..<MESSAGES_PER_MAILBOX] False s = (Inr True, s3)"
    unfolding split handle_slots_append using 1(1) 2(1) 3(1) by simp
  then have "h_checkForMail (Some mail) s = (Inr True, s3\<lparr>h_in := mail\<rparr>)"
    using assms(3) by (simp add: h_checkForMail_def handleResponses_def)
  moreover have "h_inv (s3\<lparr>h_in := mail\<rparr>)" by (rule h_inv_cong [OF 3(2)]) auto
  moreover obtain n1 n3 where "h_tasks s1 = h_tasks s @ n1" "h_tasks s3 = h_tasks s2 @ n3" using 1(3) 3(3) by (auto simp: frame_def)
  moreover have "h_active s3 i = Some Cleaning" using 3(3) 2(4) by (simp add: frame_def)
  ultimately show ?thesis
    using 2(5,6) by (intro exI [of _ "s3\<lparr>h_in := mail\<rparr>"] exI [of _ "n1 @ new @ n3"]) auto
qed

lemma slot_of_mbox:
  assumes "i < SLOTS_PER_MAILBOX" and "(host + 1) * MAILBOX_SIZE \<le> length mail"
  shows "slot_of (mbox host mail) i =
    slice ((host * SLOTS_PER_MAILBOX + i) * MESSAGE_SIZE) ((host * SLOTS_PER_MAILBOX + i) * MESSAGE_SIZE + MESSAGE_SIZE) mail"
  using slot_in_mail [OF assms, of MESSAGE_SIZE 0] slot_whole [OF length_mbox [OF assms(2)] assms(1)] by (simp add: slice_def)

lemma sendReply_slots:
  assumes "i < MESSAGES_PER_MAILBOX" and "host < p_numHosts p" and "length (p_out p) = outMailLen p"
    and "length (m_payload msg) = MESSAGE_SIZE"
  shows "\<exists>mail p'. sendReply (host * SLOTS_PER_MAILBOX + i) msg p = ((host, mail), p') \<and> length mail = MAILBOX_SIZE \<and>
    slot_of mail i = m_payload msg \<and> (\<forall>j < MESSAGES_PER_MAILBOX. j \<noteq> i \<longrightarrow> slot_of mail j = slot_of (mbox host (p_out p)) j)"
proof -
  let ?o = "(host * SLOTS_PER_MAILBOX + i) * MESSAGE_SIZE"
  let ?out = "overwrite (p_out p) ?o (m_payload msg)"
  have i: "i < SLOTS_PER_MAILBOX" using assms(1) by (simp add: mail_sizes)
  have "(host + 1) * MAILBOX_SIZE \<le> p_numHosts p * MAILBOX_SIZE" by (rule mult_le_mono1) (use assms(2) in simp)
  then have room: "(host + 1) * MAILBOX_SIZE \<le> length (p_out p)" using assms(3) by (simp add: outMailLen_def mult.commute)
  have fits: "?o + length (m_payload msg) \<le> length (p_out p)" using room i assms(4) by (simp add: mail_sizes)
  then have room': "(host + 1) * MAILBOX_SIZE \<le> length ?out" using room by simp
  have out: "put_mail p (host * SLOTS_PER_MAILBOX + i) (m_payload msg) = ?out"
    using assms(3,4) by (simp add: put_mail_def overwrite_def slice_def Let_def)
  have at: "(host * SLOTS_PER_MAILBOX + i) div SLOTS_PER_MAILBOX = host" using i by simp
  have "sendReply (host * SLOTS_PER_MAILBOX + i) msg p = ((host, mbox host ?out), p\<lparr>p_out := ?out\<rparr>)"
    unfolding sendReply_def out at Let_def by (simp add: mbox_def mail_sizes)
  moreover have "slot_of (mbox host ?out) i = m_payload msg"
    using slot_of_mbox [OF i room'] slice_overwrite_same [OF fits] assms(4) by simp
  moreover have "slot_of (mbox host ?out) j = slot_of (mbox host (p_out p)) j" if "j < MESSAGES_PER_MAILBOX" "j \<noteq> i" for j
  proof -
    have j: "j < SLOTS_PER_MAILBOX" using that(1) by (simp add: mail_sizes)
    have "(host * SLOTS_PER_MAILBOX + j) * MESSAGE_SIZE + MESSAGE_SIZE \<le> ?o \<or> ?o + length (m_payload msg) \<le> (host * SLOTS_PER_MAILBOX + j) * MESSAGE_SIZE"
      using that(2) assms(4) by (cases j i rule: linorder_cases) (simp_all add: mail_sizes)
    then show ?thesis using slot_of_mbox [OF j room'] slot_of_mbox [OF j room] slice_other [OF fits] by simp
  qed
  ultimately show ?thesis using length_mbox [OF room'] by auto
qed

text \<open>
  The manager processes a request: the pool extends the volume, and the reply is sent. The state is the one of the pool, the
  monitor and the mailboxes on storage from which the hosts read; the command that writes a mailbox succeeds.
\<close>

definition serve ::
  "(pystr \<Rightarrow> pystr \<Rightarrow> int \<Rightarrow> 'w \<Rightarrow> (mail_error + unit) \<times> 'w) \<Rightarrow> pystr \<Rightarrow> nat \<Rightarrow> bytes \<Rightarrow>
   ('w \<times> spm \<times> (nat \<Rightarrow> bytes), mail_error, unit) op" where
  "serve extendVolume spUUID msgID payload =
     processRequest (\<lambda>d v n (w, st). case extendVolume d v n w of (r, w') \<Rightarrow> (r, w', st))
       (\<lambda>msgID (msg :: unit ext_msg) (w, p, box). case sendReply msgID msg p of ((h, mail), p') \<Rightarrow> (w, p', box(h := mail)))
       spUUID msgID payload"

lemma serve_writes:
  assumes "made m" and "i < MESSAGES_PER_MAILBOX" and "host < p_numHosts p" and "length (p_out p) = outMailLen p"
  shows "\<exists>dom vol n p' mail. read_request spUUID (m_payload m) = Inr (dom, vol, n) \<and>
    serve ext spUUID (host * SLOTS_PER_MAILBOX + i) (m_payload m) (w, p, box) = (Inr (), snd (ext dom vol n w), p', box(host := mail)) \<and>
    length mail = MAILBOX_SIZE \<and> slice 0 37 (slot_of mail i) = slice 0 37 (m_payload m) \<and>
    (fst (ext dom vol n w) = Inr () \<longrightarrow> slot_of mail i = m_payload m) \<and>
    (\<forall>j < MESSAGES_PER_MAILBOX. j \<noteq> i \<longrightarrow> slot_of mail j = slot_of (mbox host (p_out p)) j)"
proof -
  let ?id = "host * SLOTS_PER_MAILBOX + i"
  let ?ext = "\<lambda>d v n (w, st). case ext d v n w of (r, w') \<Rightarrow> (r, w', st :: spm \<times> (nat \<Rightarrow> bytes))"
  let ?reply = "\<lambda>msgID (msg :: unit ext_msg) (w, p, box). case sendReply msgID msg p of ((h, mail), p') \<Rightarrow> (w, p', box(h := mail))"
  obtain dom vol n msg where P: "read_request spUUID (m_payload m) = Inr (dom, vol, n)"
    "processRequest ?ext ?reply spUUID ?id (m_payload m) (w, p, box) = (Inr (), ?reply ?id msg (snd (?ext dom vol n (w, p, box))))"
    "made msg" "slice 0 37 (m_payload msg) = slice 0 37 (m_payload m)"
    "fst (?ext dom vol n (w, p, box)) = Inr () \<Longrightarrow> m_payload msg = m_payload m"
    using processRequest_reply [OF assms(1), of spUUID ?ext ?reply ?id "(w, p, box)"] by blast
  obtain mail p' where "sendReply ?id msg p = ((host, mail), p')" "length mail = MAILBOX_SIZE" "slot_of mail i = m_payload msg"
    "\<forall>j < MESSAGES_PER_MAILBOX. j \<noteq> i \<longrightarrow> slot_of mail j = slot_of (mbox host (p_out p)) j"
    using sendReply_slots [OF assms(2-4) made_payload(1) [OF P(3)]] by blast
  then show ?thesis using P by (intro exI [of _ dom] exI [of _ vol] exI [of _ n] exI [of _ p'] exI [of _ mail])
      (simp add: serve_def split: prod.split)
qed

lemma round_reply:
  assumes "h_inv s" and "h_active s i = Some (Waiting m)" and "length mail = MAILBOX_SIZE" and "length (h_in s) = MAILBOX_SIZE"
    and "slice 0 37 (slot_of mail i) = slice 0 37 (m_payload m)" and "slice 0 37 (slot_of (h_in s) i) \<noteq> slice 0 37 (m_payload m)"
    and quiet: "\<And>j. h_active s j = Some Cleaning \<Longrightarrow> quiet mail (h_in s) j"
  shows "\<exists>out s' new. h_round (Some mail) s = (Inr (Some out), s') \<and> h_active s' i = Some Cleaning \<and> slot_of out i = CLEAN_MESSAGE \<and>
    h_tasks s' = h_tasks s @ new \<and> (\<forall>cb. m_callback m = Some cb \<longrightarrow> (cb, m_volumeData m) \<in> set new)"
proof -
  have i: "i < MESSAGES_PER_MAILBOX" using assms(1,2) by (auto simp: h_inv_def active_ok_def)
  then have busy: "active_count s \<noteq> 0" using assms(2) by (auto simp: active_count_def filter_empty_conv)
  obtain b s1 where d: "drain (h_queue s) False s = (Inr b, s1)" "h_inv s1" using drain_inv [OF assms(1) refl] by blast
  have "grows s s1" using drain_grows [OF assms(1) refl, of False] d(1) by simp
  then have g: "h_in s1 = h_in s" "h_tasks s1 = h_tasks s" "h_active s1 i = Some (Waiting m)"
    "\<And>j. h_active s1 j = Some Cleaning \<Longrightarrow> h_active s j = Some Cleaning"
    using assms(2) by (auto simp: grows_def map_le_def dom_def)
  have "slice 0 37 xs = take 37 (take (MESSAGE_SIZE - 1) xs)" for xs :: bytes by (simp add: slice_def MESSAGE_SIZE_def)
  then have "body_of mail i \<noteq> body_of (h_in s1) i" using assms(5,6) g(1) unfolding body_of_def by metis
  then obtain s2 new where r: "h_checkForMail (Some mail) s1 = (Inr True, s2)" "h_inv s2" "h_active s2 i = Some Cleaning"
    "h_tasks s2 = h_tasks s @ new" "\<forall>cb. m_callback m = Some cb \<longrightarrow> (cb, m_volumeData m) \<in> set new"
    using reply_read [OF d(2) g(3) assms(3) _ assms(5)] assms(4) quiet g by auto
  obtain out where o: "h_sendMail s2 = (Inr out, s2\<lparr>h_out := out\<rparr>)" "h_inv (s2\<lparr>h_out := out\<rparr>)"
    using sendMail_ok [OF r(2)] by metis
  have "slot_of out i = CLEAN_MESSAGE"
    using o(2) i r(3) by (simp add: h_inv_def slots_ok_def slot_content_def active_bytes_def)
  then show ?thesis using d(1) r o(1) busy by (auto simp: h_round_def)
qed

text \<open>
  C40. A request is answered. When the manager processes a message that is active in a slot of a host, the pool is asked to
  extend the volume that the client named, only the mailbox of this host is written, and when the extension succeeds the
  reply is the message itself. The host that reads this mailbox in its next round hands the callback of the message to the
  thread pool and sends mail that asks to clean the slot: whether the extension succeeded or not, whatever else is in the
  queue, and also when replies for other slots come in. What the host read before in the slot must not be a reply for the
  same volume, and slots that are being cleaned must not get another reply.
\<close>

theorem reply_delivered:
  assumes "h_reach s" and "h_active s i = Some (Waiting m)" and "length (h_in s) = MAILBOX_SIZE"
    and "length (p_out p) = outMailLen p" and "host < p_numHosts p"
    and "slice 0 37 (slot_of (h_in s) i) \<noteq> slice 0 37 (m_payload m)"
    and "\<forall>j. h_active s j = Some Cleaning \<longrightarrow> quiet (mbox host (p_out p)) (h_in s) j"
  shows "\<exists>dom vol n p' mail. read_request spUUID (m_payload m) = Inr (dom, vol, n) \<and>
    serve extendVolume spUUID (host * SLOTS_PER_MAILBOX + i) (m_payload m) (w, p, box) =
      (Inr (), snd (extendVolume dom vol n w), p', box(host := mail)) \<and>
    (fst (extendVolume dom vol n w) = Inr () \<longrightarrow> slot_of mail i = m_payload m) \<and>
    (\<exists>out s' new. h_round (Some mail) s = (Inr (Some out), s') \<and> h_active s' i = Some Cleaning \<and>
      slot_of out i = CLEAN_MESSAGE \<and> h_tasks s' = h_tasks s @ new \<and>
      (\<forall>cb. m_callback m = Some cb \<longrightarrow> (cb, m_volumeData m) \<in> set new))"
proof -
  have inv: "h_inv s" using h_reach_inv [OF assms(1)] .
  then have i: "i < MESSAGES_PER_MAILBOX" "made m" using assms(2) by (auto simp: h_inv_def active_ok_def msgs_ok_def)
  obtain dom vol n p' mail where S: "read_request spUUID (m_payload m) = Inr (dom, vol, n)"
    "serve extendVolume spUUID (host * SLOTS_PER_MAILBOX + i) (m_payload m) (w, p, box) =
      (Inr (), snd (extendVolume dom vol n w), p', box(host := mail))"
    "length mail = MAILBOX_SIZE" "slice 0 37 (slot_of mail i) = slice 0 37 (m_payload m)"
    "fst (extendVolume dom vol n w) = Inr () \<longrightarrow> slot_of mail i = m_payload m"
    "\<forall>j < MESSAGES_PER_MAILBOX. j \<noteq> i \<longrightarrow> slot_of mail j = slot_of (mbox host (p_out p)) j"
    using serve_writes [OF i(2,1) assms(5,4), where spUUID = spUUID and ext = extendVolume and w = w and box = box] by blast
  have "quiet mail (h_in s) j" if "h_active s j = Some Cleaning" for j
  proof -
    have "j < MESSAGES_PER_MAILBOX" "j \<noteq> i" using that inv assms(2) by (auto simp: h_inv_def active_ok_def)
    then show ?thesis using S(6) assms(7) that by (simp add: quiet_def body_of_def)
  qed
  from round_reply [OF inv assms(2) S(3) assms(3) S(4) assms(6) this] show ?thesis using S(1,2,5) by blast
qed

theorem reply_delivered_witness:
  "\<exists>(m :: unit ext_msg) s p' mail out s'.
     serve (\<lambda>_ _ _ w. (Inr (), Suc w)) ''p'' 0 (m_payload m) (0, sample_spm, \<lambda>_. EMPTYMAILBOX) =
       (Inr (), 1, p', (\<lambda>_. EMPTYMAILBOX)(0 := mail)) \<and> slot_of mail 0 = m_payload m \<and>
     h_round (Some mail) s = (Inr (Some out), s') \<and> slot_of out 0 = CLEAN_MESSAGE \<and> ((), sample_vol_data) \<in> set (h_tasks s')"
proof -
  let ?s0 = "snd (sendExtendMsg ''p'' sample_vol_data 2048 (Some ()) (snd (new_hsm None)))"
  obtain m mail0 s where R: "h_round None ?s0 = (Inr (Some mail0), s)" "h_active s = [0 \<mapsto> Waiting m]" "h_in s = EMPTYMAILBOX"
    "m_callback m = Some ()" "m_volumeData m = sample_vol_data"
    using sample_round by blast
  have "h_reach (snd (h_round None ?s0))" by (intro h_reach.intros)
  then have reach: "h_reach s" by (simp add: R(1))
  have at: "h_active s 0 = Some (Waiting m)" by (simp add: R(2))
  have made: "made m" using h_reach_inv [OF reach] at unfolding h_inv_def msgs_ok_def by blast
  have "slot_of (h_in s) 0 = replicate MESSAGE_SIZE NUL" by (simp add: R(3) EMPTYMAILBOX_def slot_of_def slice_def mail_sizes)
  moreover have "slice 0 1 (replicate MESSAGE_SIZE NUL) = [NUL]" by code_simp
  moreover have "slice 0 1 xs = slice 0 1 (slice 0 37 xs)" for xs :: bytes by (simp add: slice_def)
  ultimately have "slice 0 1 (slice 0 37 (slot_of (h_in s) 0)) = [NUL]" "slice 0 1 (slice 0 37 (m_payload m)) = ''1''"
    using made_payload(2) [OF made] by simp_all
  then have new: "slice 0 37 (slot_of (h_in s) 0) \<noteq> slice 0 37 (m_payload m)" by auto
  have p: "length (p_out sample_spm) = outMailLen sample_spm" "0 < p_numHosts sample_spm"
    by (simp_all add: sample_spm_def new_spm_def registerMessageType_def outMailLen_def Let_def)
  have h: "length (h_in s) = MAILBOX_SIZE" "\<forall>j. h_active s j = Some Cleaning \<longrightarrow> quiet (mbox 0 (p_out sample_spm)) (h_in s) j"
    by (simp_all add: R(2,3) EMPTYMAILBOX_def)
  obtain p' mail out s' new where "serve (\<lambda>_ _ _ w. (Inr (), Suc w)) ''p'' (0 * SLOTS_PER_MAILBOX + 0) (m_payload m)
      (0, sample_spm, \<lambda>_. EMPTYMAILBOX) = (Inr (), Suc 0, p', (\<lambda>_. EMPTYMAILBOX)(0 := mail))" "slot_of mail 0 = m_payload m"
    "h_round (Some mail) s = (Inr (Some out), s')" "slot_of out 0 = CLEAN_MESSAGE" "h_tasks s' = h_tasks s @ new"
    "\<forall>cb. m_callback m = Some cb \<longrightarrow> (cb, m_volumeData m) \<in> set new"
    using reply_delivered [OF reach at h(1) p new h(2), where spUUID = "''p''" and extendVolume = "\<lambda>_ _ _ w. (Inr (), Suc w)"
        and w = 0 and box = "\<lambda>_. EMPTYMAILBOX"] by (simp only: fst_conv snd_conv) blast
  then show ?thesis using R(4,5)
    by (intro exI [of _ m] exI [of _ s] exI [of _ p'] exI [of _ mail] exI [of _ out] exI [of _ s']) simp
qed

end
